(* ===== verification/Prelude.thy ===== *)
theory Prelude
  imports Main "HOL-Library.Finite_Map" "HOL-Library.List_Lexorder" "HOL-Library.Char_ord"
    "HOL-Library.Word"
begin

text \<open>
  What the components share. Go strings are byte sequences, so they are modelled by
  \<^typ>\<open>string\<close>, whose characters are bytes; the functions of the \<open>strings\<close> package
  that the bridge calls are written out here over bytes. Go maps are finite maps
  (\<^typ>\<open>('k, 'v) fmap\<close>), and a \<open>map[string]bool\<close> that only ever holds \<open>true\<close> is a set.
  Instants are \<^typ>\<open>int\<close>, in nanoseconds since the Unix epoch.

  The collections: \<open>go_str\<close> (string functions on concrete shapes), \<open>regions\<close> (the locked
  regions of the processor, unfolded), \<open>wf_intros\<close> (introduction rules for the
  well-formedness predicates).
\<close>

named_theorems go_str "facts on the string functions"
named_theorems regions "definitions of the locked regions of the processor"
named_theorems wf_intros "introduction rules for well-formedness"

section \<open>The strings package\<close>

subsection \<open>TrimSpace\<close>

text \<open>
  The white space of \<open>unicode.IsSpace\<close> as the UTF-8 byte sequences that encode it:
  the six ASCII bytes, U+0085, U+00A0, U+1680, U+2000 to U+200A, U+2028, U+2029, U+202F,
  U+205F and U+3000. No sequence is a prefix or a suffix of another, so trimming decodes
  at most one rune at either end.
\<close>

definition space_runes :: "string list" where
  "space_runes =
     [[CHR 0x09], [CHR 0x0A], [CHR 0x0B], [CHR 0x0C], [CHR 0x0D], [CHR 0x20],
      [CHR 0xC2, CHR 0x85], [CHR 0xC2, CHR 0xA0], [CHR 0xE1, CHR 0x9A, CHR 0x80],
      [CHR 0xE2, CHR 0x80, CHR 0x80], [CHR 0xE2, CHR 0x80, CHR 0x81],
      [CHR 0xE2, CHR 0x80, CHR 0x82], [CHR 0xE2, CHR 0x80, CHR 0x83],
      [CHR 0xE2, CHR 0x80, CHR 0x84], [CHR 0xE2, CHR 0x80, CHR 0x85],
      [CHR 0xE2, CHR 0x80, CHR 0x86], [CHR 0xE2, CHR 0x80, CHR 0x87],
      [CHR 0xE2, CHR 0x80, CHR 0x88], [CHR 0xE2, CHR 0x80, CHR 0x89],
      [CHR 0xE2, CHR 0x80, CHR 0x8A], [CHR 0xE2, CHR 0x80, CHR 0xA8],
      [CHR 0xE2, CHR 0x80, CHR 0xA9], [CHR 0xE2, CHR 0x80, CHR 0xAF],
      [CHR 0xE2, CHR 0x81, CHR 0x9F], [CHR 0xE3, CHR 0x80, CHR 0x80]]"

definition leading :: "string list \<Rightarrow> string \<Rightarrow> string option" where
  "leading ws s = find (\<lambda>w. w \<noteq> [] \<and> take (length w) s = w) ws"

lemma leading_Some:
  assumes "leading ws s = Some w"
  shows "w \<noteq> []" and "\<exists>t. s = w @ t" and "w \<in> set ws"
proof -
  from assms have w: "w \<in> set ws" "w \<noteq> []" "take (length w) s = w"
    by (auto simp: leading_def find_Some_iff)
  then show "w \<noteq> []" and "w \<in> set ws" by simp_all
  from w(3) have "s = w @ drop (length w) s" by (metis append_take_drop_id)
  then show "\<exists>t. s = w @ t" ..
qed

lemma leading_None: "leading ws s = None \<longleftrightarrow> (\<forall>w \<in> set ws. \<forall>t. w \<noteq> [] \<longrightarrow> s \<noteq> w @ t)"
proof -
  have "take (length w) s = w \<longleftrightarrow> (\<exists>t. s = w @ t)" for w
    by (metis append_eq_conv_conj append_take_drop_id)
  then show ?thesis by (auto simp: leading_def find_None_iff)
qed

function trim_by :: "string list \<Rightarrow> string \<Rightarrow> string" where
  "trim_by ws s =
     (case leading ws s of None \<Rightarrow> s | Some w \<Rightarrow> trim_by ws (drop (length w) s))"
  by pat_completeness auto
termination
proof (relation "measure (\<lambda>(ws, s). length s)", goal_cases)
  case (2 ws s w)
  then have "w \<noteq> []" and "\<exists>t. s = w @ t" by (rule leading_Some)+
  then show ?case by auto
qed simp

declare trim_by.simps [simp del]

definition trim_left :: "string \<Rightarrow> string" where
  "trim_left s = trim_by space_runes s"

definition trim_right :: "string \<Rightarrow> string" where
  "trim_right s = rev (trim_by (map rev space_runes) (rev s))"

definition trim_space :: "string \<Rightarrow> string" where
  "trim_space s = trim_right (trim_left s)"

lemma trim_by_fixed: "leading ws s = None \<Longrightarrow> trim_by ws s = s"
  by (simp add: trim_by.simps)

lemma leading_trim_by: "leading ws (trim_by ws s) = None"
proof (induction ws s rule: trim_by.induct)
  case (1 ws s)
  then show ?case
    by (cases "leading ws s") (simp_all add: trim_by.simps [of ws s])
qed

lemma trim_by_suffix: "\<exists>p. s = p @ trim_by ws s"
proof (induction ws s rule: trim_by.induct)
  case (1 ws s)
  show ?case
  proof (cases "leading ws s")
    case None
    then show ?thesis by (simp add: trim_by_fixed)
  next
    case (Some w)
    with "1" obtain p where "drop (length w) s = p @ trim_by ws (drop (length w) s)" by blast
    with Some have "s = (take (length w) s @ p) @ trim_by ws s"
      by (metis append.assoc append_take_drop_id option.simps(5) trim_by.simps)
    then show ?thesis by blast
  qed
qed

lemma trim_right_prefix: "\<exists>q. s = trim_right s @ q"
proof -
  obtain p where "rev s = p @ trim_by (map rev space_runes) (rev s)"
    using trim_by_suffix by blast
  then have "s = trim_right s @ rev p"
    by (metis rev_append rev_rev_ident trim_right_def)
  then show ?thesis ..
qed

lemma trim_left_idem: "trim_left (trim_left s) = trim_left s"
  by (simp add: trim_left_def trim_by_fixed leading_trim_by)

lemma trim_right_idem: "trim_right (trim_right s) = trim_right s"
  by (simp add: trim_right_def trim_by_fixed leading_trim_by)

lemma leading_append_None: "leading ws (s @ t) = None \<Longrightarrow> leading ws s = None"
  by (auto simp: leading_None)

lemma trim_space_idem [simp]: "trim_space (trim_space s) = trim_space s"
proof -
  obtain q where "trim_left s = trim_space s @ q"
    using trim_right_prefix [of "trim_left s"] by (auto simp: trim_space_def)
  then have "leading space_runes (trim_space s @ q) = None"
    by (metis leading_trim_by trim_left_def)
  then have "trim_left (trim_space s) = trim_space s"
    by (auto simp: trim_left_def intro: trim_by_fixed leading_append_None)
  then show ?thesis by (simp add: trim_space_def trim_right_idem)
qed

text \<open>A byte that neither starts nor ends an encoded white-space rune.\<close>

definition plain_char :: "char \<Rightarrow> bool" where
  "plain_char c \<longleftrightarrow> c \<notin> set (map hd space_runes) \<and> c \<notin> set (map last space_runes)"

lemma leading_plain:
  assumes "s \<noteq> []" and "\<forall>w \<in> set ws. w \<noteq> [] \<longrightarrow> hd w \<noteq> hd s"
  shows "leading ws s = None"
  using assms by (auto simp: leading_None)

lemma trim_space_Nil [simp]: "trim_space [] = []"
proof -
  have "leading ws [] = None" for ws by (simp add: leading_None)
  then show ?thesis by (simp add: trim_space_def trim_left_def trim_right_def trim_by_fixed)
qed

lemma space_runes_nonempty: "w \<in> set space_runes \<Longrightarrow> w \<noteq> []"
  by (auto simp: space_runes_def)

lemma trim_space_plain:
  assumes "s = [] \<or> (plain_char (hd s) \<and> plain_char (last s))"
  shows "trim_space s = s"
proof (cases "s = []")
  case False
  with assms have p: "plain_char (hd s)" "plain_char (last s)" by auto
  have "hd w \<noteq> hd s" if "w \<in> set space_runes" for w
    using p(1) that by (metis imageI list.set_map plain_char_def)
  with False have "leading space_runes s = None" by (intro leading_plain) auto
  then have l: "trim_left s = s" by (simp add: trim_left_def trim_by_fixed)
  have "last w \<noteq> last s" if "w \<in> set space_runes" for w
    using p(2) that by (metis imageI list.set_map plain_char_def)
  with False have "leading (map rev space_runes) (rev s) = None"
    by (intro leading_plain) (auto simp: hd_rev)
  then have "trim_right s = s" by (simp add: trim_right_def trim_by_fixed)
  with l show ?thesis by (simp add: trim_space_def)
qed simp

subsection \<open>Split, Join, prefixes, containment, case\<close>

fun split_on :: "char \<Rightarrow> string \<Rightarrow> string list" where
  "split_on c [] = [[]]"
| "split_on c (x # xs) =
     (if x = c then [] # split_on c xs
      else (case split_on c xs of [] \<Rightarrow> [[x]] | p # ps \<Rightarrow> (x # p) # ps))"

fun join_with :: "string \<Rightarrow> string list \<Rightarrow> string" where
  "join_with sep [] = []"
| "join_with sep [s] = s"
| "join_with sep (s # t # ss) = s @ sep @ join_with sep (t # ss)"

definition has_prefix :: "string \<Rightarrow> string \<Rightarrow> bool" where
  "has_prefix p s \<longleftrightarrow> take (length p) s = p"

definition trim_prefix :: "string \<Rightarrow> string \<Rightarrow> string" where
  "trim_prefix p s = (if has_prefix p s then drop (length p) s else s)"

definition trim_suffix :: "string \<Rightarrow> string \<Rightarrow> string" where
  "trim_suffix p s = rev (trim_prefix (rev p) (rev s))"

fun contains_str :: "string \<Rightarrow> string \<Rightarrow> bool" where
  "contains_str p [] = (p = [])"
| "contains_str p (x # xs) = (has_prefix p (x # xs) \<or> contains_str p xs)"

text \<open>
  \<open>strings.ToLower\<close>, for its one use: testing whether the result contains \<open>cancel\<close>.
  Only the ASCII letters are lowered. Two runes beyond ASCII are lowered to an ASCII
  letter (U+0130 to i, U+212A to k), neither of which occurs in \<open>cancel\<close>, and no rune is
  removed, so the test gives the same answer.
\<close>

definition lower_char :: "char \<Rightarrow> char" where
  "lower_char c =
     (let n = (of_char c :: nat) in if 65 \<le> n \<and> n \<le> 90 then char_of (n + 32) else c)"

definition ascii_lower :: "string \<Rightarrow> string" where
  "ascii_lower s = map lower_char s"

lemma split_on_not_Nil [simp]: "split_on c s \<noteq> []"
  by (cases s) (auto split: list.split)

lemma join_with_Cons: "ss \<noteq> [] \<Longrightarrow> join_with sep (s # ss) = s @ sep @ join_with sep ss"
  by (cases ss) auto

lemma join_with_cons_char: "join_with sep ((x # p) # ps) = x # join_with sep (p # ps)"
  by (cases ps) auto

lemma split_on_join: "join_with [c] (split_on c s) = s"
proof (induction s)
  case (Cons x xs)
  then show ?case
    by (auto simp: join_with_Cons join_with_cons_char split: list.split)
qed simp

lemma split_on_no_sep: "c \<notin> set s \<Longrightarrow> split_on c s = [s]"
  by (induction s) auto

lemma split_on_pieces: "\<forall>p \<in> set (split_on c s). c \<notin> set p"
proof (induction s)
  case (Cons x xs)
  then show ?case by (cases "split_on c xs") auto
qed simp

lemma append_sep_inject:
  assumes "c \<notin> set a" and "c \<notin> set b" and "a @ c # x = b @ c # y"
  shows "a = b \<and> x = y"
  using assms
proof (induction a arbitrary: b)
  case Nil
  then show ?case by (cases b) auto
next
  case (Cons z a)
  then show ?case by (cases b) auto
qed

section \<open>Integers: decimal digits, truncating division\<close>

fun decimal_nat :: "nat \<Rightarrow> string" where
  "decimal_nat n =
     (if n < 10 then [char_of (48 + n)] else decimal_nat (n div 10) @ [char_of (48 + n mod 10)])"

declare decimal_nat.simps [simp del]

text \<open>\<open>strconv.FormatInt(n, 10)\<close>.\<close>

definition decimal_int :: "int \<Rightarrow> string" where
  "decimal_int i = (if i < 0 then ''-'' @ decimal_nat (nat (- i)) else decimal_nat (nat i))"

text \<open>Go's integer division truncates towards zero.\<close>

definition quot :: "int \<Rightarrow> int \<Rightarrow> int" where
  "quot a b = sgn a * sgn b * (\<bar>a\<bar> div \<bar>b\<bar>)"

section \<open>Maps\<close>

text \<open>
  The order in which a \<open>range\<close> loop visits a Go map is not specified. Where it can matter,
  the model takes the order as an argument: a function from the map's keys to a list.
  \<open>range_order\<close> is all that may be assumed of it.
\<close>

type_synonym range_fn = "string fset \<Rightarrow> string list"

definition range_order :: "range_fn \<Rightarrow> bool" where
  "range_order rng \<longleftrightarrow> (\<forall>S. set (rng S) = fset S \<and> distinct (rng S))"

lemma range_order_sorted: "range_order sorted_list_of_fset"
  by (simp add: range_order_def sorted_list_of_fset.rep_eq)

lemma range_order_set: "range_order rng \<Longrightarrow> set (rng S) = fset S"
  by (simp add: range_order_def)

definition sorted_keys :: "(string, 'v) fmap \<Rightarrow> string list" where
  "sorted_keys m = sorted_list_of_fset (fmdom m)"

lemma set_sorted_keys [simp]: "set (sorted_keys m) = fmdom' m"
  by (simp add: sorted_keys_def sorted_list_of_fset.rep_eq fmdom'_alt_def)

lemma sorted_sorted_keys [simp]: "sorted (sorted_keys m)"
  by (simp add: sorted_keys_def sorted_list_of_fset.rep_eq)

lemma distinct_sorted_keys [simp]: "distinct (sorted_keys m)"
  by (simp add: sorted_keys_def sorted_list_of_fset.rep_eq)

lemma in_fmdom'_iff: "k \<in> fmdom' m \<longleftrightarrow> fmlookup m k \<noteq> None"
  by (auto simp: fmlookup_dom'_iff)

lemma fmdom'_eq_empty: "fmdom' m = {} \<longleftrightarrow> m = fmempty"
  by (auto simp: in_fmdom'_iff intro!: fmap_ext)

text \<open>Deleting every key of a list.\<close>

fun fmdrops :: "'k list \<Rightarrow> ('k, 'v) fmap \<Rightarrow> ('k, 'v) fmap" where
  "fmdrops [] m = m"
| "fmdrops (k # ks) m = fmdrops ks (fmdrop k m)"

lemma fmlookup_fmdrops: "fmlookup (fmdrops ks m) k = (if k \<in> set ks then None else fmlookup m k)"
  by (induction ks arbitrary: m) auto

lemma fmdom'_fmdrops [simp]: "fmdom' (fmdrops ks m) = fmdom' m - set ks"
  by (auto simp: in_fmdom'_iff fmlookup_fmdrops split: if_splits)

end
