(* ===== verification/Otlp.thy ===== *)
theory Otlp
  imports Prelude
begin

text \<open>
  The OTLP messages the bridge receives. Their Go types are generated by the OpenTelemetry
  project and are not part of the repository; the records below hold the fields that the
  bridge reads. A pointer that may be nil is an \<open>option\<close>, a byte slice a list of 8-bit words,
  and an enumeration, which protobuf leaves open, has a constructor for unknown numbers.

  Two facts about floating point are parameters of the model, collected in
  \<open>float_lib\<close>: the text \<open>strconv.FormatFloat(v, 'g', -1, 64)\<close> of a 64-bit float given by its
  bits, and the int64 that \<open>strconv.ParseFloat\<close> followed by a conversion yields for a
  text, as its 64 bits, or nothing where \<open>ParseFloat\<close> reports an error. Every theorem holds for all of them.
\<close>

type_synonym bytes = "8 word list"

datatype any_value =
    StringValue string
  | BoolValue bool
  | IntValue "64 word"
  | DoubleValue "64 word"
  | OtherValue

record key_value =
  kv_Key :: string
  kv_Value :: "any_value option"

datatype span_kind =
    SPAN_KIND_UNSPECIFIED | SPAN_KIND_INTERNAL | SPAN_KIND_SERVER | SPAN_KIND_CLIENT
  | SPAN_KIND_PRODUCER | SPAN_KIND_CONSUMER | SPAN_KIND_OTHER int

datatype status_code =
    STATUS_CODE_UNSET | STATUS_CODE_OK | STATUS_CODE_ERROR | STATUS_CODE_OTHER int

record log_record =
  lr_TimeUnixNano :: "64 word"
  lr_TraceId :: bytes
  lr_SpanId :: bytes
  lr_Attributes :: "key_value option list"

record span =
  sp_TraceId :: bytes
  sp_SpanId :: bytes
  sp_ParentSpanId :: bytes
  sp_Kind :: span_kind
  sp_StartTimeUnixNano :: "64 word"
  sp_EndTimeUnixNano :: "64 word"
  sp_Status :: "status_code option"
  sp_Attributes :: "key_value option list"

record float_lib =
  format_float :: "64 word \<Rightarrow> string"
  parse_float_int64 :: "string \<Rightarrow> 64 word option"

text \<open>A concrete instance for evaluation: it reads plain decimal digits.\<close>

fun digits_value :: "string \<Rightarrow> nat \<Rightarrow> nat option" where
  "digits_value [] acc = Some acc"
| "digits_value (c # cs) acc =
     (let n = (of_char c :: nat)
      in if 48 \<le> n \<and> n \<le> 57 then digits_value cs (10 * acc + (n - 48)) else None)"

definition plain_floats :: float_lib where
  "plain_floats =
     \<lparr>format_float = (\<lambda>w. decimal_int (uint w)),
      parse_float_int64 = (\<lambda>s. if s = [] then None else map_option of_nat (digits_value s 0))\<rparr>"

end
