(* ===== verification/Observation.thy ===== *)
theory Observation
  imports Prelude
begin

text \<open>
  \<open>internal/observation/execution.go\<close>: the normalized record of one observed tool call, the
  key on which signals are joined, the shape of an operation id, and the classification of
  the ids found on the contributing signals.

  A \<open>time.Time\<close> is \<open>None\<close> when it is the zero time and \<open>Some ns\<close> otherwise. The entries of
  \<open>Disagreements\<close> are kept as the arguments of the format string that prints them
  (\<open>Merge.disagreement_text\<close> prints them).
\<close>

section \<open>The record\<close>

type_synonym gotime = "int option"

datatype correlation = Correlated | Unattributed | Ambiguous

datatype status = StatusSuccess | StatusError | StatusCancelled | StatusUnknown

datatype availability = Present | Absent | NotEmitted | OmittedSize | RefusedRaw

fun correlation_text :: "correlation \<Rightarrow> string" where
  "correlation_text Correlated = ''correlated''"
| "correlation_text Unattributed = ''unattributed''"
| "correlation_text Ambiguous = ''ambiguous''"

fun status_text :: "status \<Rightarrow> string" where
  "status_text StatusSuccess = ''success''"
| "status_text StatusError = ''error''"
| "status_text StatusCancelled = ''cancelled''"
| "status_text StatusUnknown = ''unknown''"

fun availability_text :: "availability \<Rightarrow> string" where
  "availability_text Present = ''present''"
| "availability_text Absent = ''absent''"
| "availability_text NotEmitted = ''not_emitted_by_source''"
| "availability_text OmittedSize = ''omitted_oversize''"
| "availability_text RefusedRaw = ''refused_raw_present_at_source''"

datatype disagreement =
    FieldDisagreement string string string
  | StatusDisagreement "string list" status "string list" status

record source =
  ObserverType :: string
  ObserverID :: string
  ObserverVersion :: string
  Transport :: string
  ServiceName :: string
  ProtocolVersion :: string
  NetworkTransport :: string
  SessionID :: string

record execution =
  TraceID :: string
  SpanID :: string
  ParentSpanID :: string
  SpanKind :: string
  OperationID :: string
  Correlation :: correlation
  CorrelationDetail :: string
  Target :: string
  Tool :: string
  StartedAt :: gotime
  FinishedAt :: gotime
  DurationMS :: int
  Status :: status
  ErrorType :: string
  ErrorCode :: string
  ArgumentsFingerprint :: string
  ArgumentsFingerprintStatus :: availability
  ResultFingerprint :: string
  ResultFingerprintStatus :: availability
  ReadOnlyDeclared :: bool
  ReadOnlyAnnotationKnown :: bool
  AnnotationsVerified :: bool
  Source :: source
  SeenFrom :: "string list"
  Disagreements :: "disagreement list"

section \<open>The join key\<close>

definition JoinKey :: "string \<Rightarrow> string \<Rightarrow> string" where
  "JoinKey traceID spanID =
     (let traceID = trim_space traceID; spanID = trim_space spanID
      in if traceID = [] \<or> spanID = [] then [] else traceID @ ''/'' @ spanID)"

lemma JoinKey_eq_Nil: "JoinKey t s = [] \<longleftrightarrow> trim_space t = [] \<or> trim_space s = []"
  by (simp add: JoinKey_def Let_def)

lemma JoinKey_trim: "JoinKey (trim_space t) (trim_space s) = JoinKey t s"
  by (simp add: JoinKey_def)

lemma JoinKey_inject:
  assumes "JoinKey t s = JoinKey t' s'" and "JoinKey t s \<noteq> []"
    and "CHR ''/'' \<notin> set t" and "CHR ''/'' \<notin> set t'"
  shows "trim_space t = trim_space t' \<and> trim_space s = trim_space s'"
proof -
  have sub: "set (trim_space x) \<subseteq> set x" for x
  proof -
    obtain p where "x = p @ trim_left x"
      using trim_by_suffix by (metis trim_left_def)
    moreover obtain q where "trim_left x = trim_space x @ q"
      using trim_right_prefix by (metis trim_space_def)
    ultimately have "x = p @ trim_space x @ q" by simp
    then show ?thesis by (metis Un_subset_iff order_refl set_append)
  qed
  from assms(1,2) have "trim_space t @ CHR ''/'' # trim_space s = trim_space t' @ CHR ''/'' # trim_space s'"
    by (auto simp: JoinKey_def Let_def split: if_splits)
  moreover have "CHR ''/'' \<notin> set (trim_space t)" "CHR ''/'' \<notin> set (trim_space t')"
    using assms(3,4) sub by blast+
  ultimately show ?thesis by (intro append_sep_inject) auto
qed

section \<open>Operation ids\<close>

text \<open>The pattern \<open>^EV-[0-9A-HJKMNP-TV-Z]{26}$\<close>.\<close>

definition crockford :: "char \<Rightarrow> bool" where
  "crockford c \<longleftrightarrow>
     (let n = (of_char c :: nat)
      in (48 \<le> n \<and> n \<le> 57) \<or> (65 \<le> n \<and> n \<le> 72) \<or> n = 74 \<or> n = 75 \<or> n = 77 \<or> n = 78
         \<or> (80 \<le> n \<and> n \<le> 84) \<or> (86 \<le> n \<and> n \<le> 90))"

definition operationIDPattern :: "string \<Rightarrow> bool" where
  "operationIDPattern s \<longleftrightarrow>
     has_prefix ''EV-'' s \<and> length (drop 3 s) = 26 \<and> list_all crockford (drop 3 s)"

definition ValidOperationID :: "string \<Rightarrow> bool" where
  "ValidOperationID i = operationIDPattern (trim_space i)"

lemma operationIDPattern_nonempty: "operationIDPattern s \<Longrightarrow> s \<noteq> []"
  by (auto simp: operationIDPattern_def)

lemma ValidOperationID_nonempty: "ValidOperationID i \<Longrightarrow> trim_space i \<noteq> []"
  by (simp add: ValidOperationID_def operationIDPattern_nonempty)

section \<open>Classification\<close>

definition present_ids :: "string list \<Rightarrow> string list" where
  "present_ids found = filter (\<lambda>i. i \<noteq> []) (map trim_space found)"

text \<open>The variadic \<open>ClassifyOperation\<close>; the loop over \<open>present[1:]\<close> looks for a different id.\<close>

definition ClassifyOperation :: "string list \<Rightarrow> correlation \<times> string \<times> string" where
  "ClassifyOperation found =
     (case present_ids found of
        [] \<Rightarrow> (Unattributed, [], ''no explicit operation id on any contributing signal'')
      | first # rest \<Rightarrow>
          if list_ex (\<lambda>i. i \<noteq> first) rest
          then (Ambiguous, [],
                ''conflicting operation ids: '' @ join_with '' vs '' (present_ids found))
          else if \<not> ValidOperationID first
          then (Ambiguous, [], ''operation id is not well formed: '' @ first)
          else (Correlated, first, []))"

lemma present_ids_append [simp]: "present_ids (xs @ ys) = present_ids xs @ present_ids ys"
  by (simp add: present_ids_def)

lemma present_ids_Nil [simp]: "present_ids [] = []"
  by (simp add: present_ids_def)

lemma present_ids_Cons:
  "present_ids (x # xs) = (if trim_space x = [] then present_ids xs else trim_space x # present_ids xs)"
  by (simp add: present_ids_def)

lemma present_ids_idem [simp]: "present_ids (present_ids xs) = present_ids xs"
  by (induction xs) (auto simp: present_ids_Cons)

lemma present_ids_trimmed: "i \<in> set (present_ids xs) \<Longrightarrow> trim_space i = i \<and> i \<noteq> []"
  by (auto simp: present_ids_def)

subsection \<open>The abstract classification\<close>

text \<open>
  What the classification means, over the set of ids present: nothing, one valid id, or
  anything else.
\<close>

datatype attribution = NoId | OneId string | Conflict

definition attribution_of :: "string set \<Rightarrow> attribution" where
  "attribution_of ids =
     (if ids = {} then NoId
      else if \<exists>i. ids = {i} \<and> ValidOperationID i then OneId (the_elem ids) else Conflict)"

fun attribution_view :: "correlation \<times> string \<Rightarrow> attribution" where
  "attribution_view (Unattributed, _) = NoId"
| "attribution_view (Correlated, i) = OneId i"
| "attribution_view (Ambiguous, _) = Conflict"

lemma attribution_of_simps [simp]:
  "attribution_of {} = NoId"
  "attribution_of {i} = (if ValidOperationID i then OneId i else Conflict)"
  by (auto simp: attribution_of_def)

lemma attribution_of_two: "i \<in> ids \<Longrightarrow> j \<in> ids \<Longrightarrow> i \<noteq> j \<Longrightarrow> attribution_of ids = Conflict"
  by (auto simp: attribution_of_def)

lemma ClassifyOperation_refines:
  "(case ClassifyOperation found of (c, i, d) \<Rightarrow> attribution_view (c, i))
     = attribution_of (set (present_ids found))"
proof (cases "present_ids found")
  case (Cons first rest)
  show ?thesis
  proof (cases "list_ex (\<lambda>i. i \<noteq> first) rest")
    case True
    then obtain j where "j \<in> set rest" "j \<noteq> first" by (auto simp: list_ex_iff)
    with Cons have "attribution_of (set (present_ids found)) = Conflict"
      by (intro attribution_of_two [of first _ j]) auto
    with Cons True show ?thesis by (simp add: ClassifyOperation_def)
  next
    case False
    with Cons have "set (present_ids found) = {first}" by (auto simp: list_ex_iff)
    then have "attribution_of (set (present_ids found)) = attribution_of {first}" by simp
    with Cons False show ?thesis by (simp add: ClassifyOperation_def del: set_simps)
  qed
qed (simp add: ClassifyOperation_def)

text \<open>
  The id and the correlation of a classification cannot drift apart: an id is there exactly
  when the record is correlated, and then it is well formed and trimmed.
\<close>

definition corr_wf :: "correlation \<Rightarrow> string \<Rightarrow> bool" where
  "corr_wf c i \<longleftrightarrow>
     (c = Correlated \<longrightarrow> ValidOperationID i \<and> trim_space i = i) \<and> (c \<noteq> Correlated \<longrightarrow> i = [])"

lemma corr_wf_nonempty: "corr_wf c i \<Longrightarrow> i \<noteq> [] \<longleftrightarrow> c = Correlated"
  by (auto simp: corr_wf_def ValidOperationID_def operationIDPattern_def has_prefix_def)

lemma ClassifyOperation_wf [wf_intros]:
  "ClassifyOperation found = (c, i, d) \<Longrightarrow> corr_wf c i"
proof (cases "present_ids found")
  case (Cons first rest)
  assume c: "ClassifyOperation found = (c, i, d)"
  from Cons have "trim_space first = first"
    using present_ids_trimmed [of first found] by simp
  with c Cons show ?thesis
    by (auto simp: ClassifyOperation_def corr_wf_def split: if_splits)
qed (auto simp: ClassifyOperation_def corr_wf_def)

lemma ClassifyOperation_id_found:
  "ClassifyOperation found = (Correlated, i, d) \<Longrightarrow> i \<in> set (present_ids found)"
  by (auto simp: ClassifyOperation_def split: list.splits if_splits)

lemma ClassifyOperation_detail_correlated:
  "ClassifyOperation found = (Correlated, i, d) \<Longrightarrow> d = []"
  by (auto simp: ClassifyOperation_def split: list.splits if_splits)

subsection \<open>Properties\<close>

text \<open>
  The classification depends only on which ids are present, not on their order or on how
  often they occur: two lists of ids with the same trimmed non-empty values get the same
  correlation and the same operation id.
\<close>

theorem classify_order_independent:
  assumes "set (present_ids xs) = set (present_ids ys)"
  shows "(case ClassifyOperation xs of (c, i, d) \<Rightarrow> (c, i))
       = (case ClassifyOperation ys of (c, i, d) \<Rightarrow> (c, i))"
proof -
  obtain c i d c' i' d' where e:
    "ClassifyOperation xs = (c, i, d)" "ClassifyOperation ys = (c', i', d')"
    by (metis prod_cases3)
  with assms have "attribution_view (c, i) = attribution_view (c', i')"
    using ClassifyOperation_refines [of xs] ClassifyOperation_refines [of ys] by simp
  moreover have "corr_wf c i" "corr_wf c' i'" using e by (auto intro: ClassifyOperation_wf)
  ultimately show ?thesis using e by (cases c; cases c') (auto simp: corr_wf_def)
qed

theorem classify_order_independent_witness:
  "(case ClassifyOperation [''a'', '' b '', ''''] of (c, i, d) \<Rightarrow> (c, i))
     = (case ClassifyOperation [''b'', ''a''] of (c, i, d) \<Rightarrow> (c, i))"
proof -
  have "set (present_ids [''a'', '' b '', '''']) = set (present_ids [''b'', ''a''])"
    by code_simp
  then show ?thesis by (rule classify_order_independent)
qed

text \<open>
  C30. An execution is classified as correlated exactly when every signal that carries an id
  carries the same one, at least one does, and it has the shape of an Evidra operation id;
  that id, trimmed, is then the operation id. No other id is ever attached.
\<close>

theorem classify_correlated_iff:
  "(\<exists>d. ClassifyOperation found = (Correlated, i, d))
     \<longleftrightarrow> set (present_ids found) = {i} \<and> ValidOperationID i"
proof -
  obtain c j d where e: "ClassifyOperation found = (c, j, d)" by (metis prod_cases3)
  have v: "attribution_view (c, j) = attribution_of (set (present_ids found))"
    using ClassifyOperation_refines [of found] e by simp
  show ?thesis
  proof
    assume "\<exists>d. ClassifyOperation found = (Correlated, i, d)"
    with e v have "attribution_of (set (present_ids found)) = OneId i" by auto
    then show "set (present_ids found) = {i} \<and> ValidOperationID i"
      by (auto simp: attribution_of_def split: if_splits)
  next
    assume "set (present_ids found) = {i} \<and> ValidOperationID i"
    with v have "attribution_view (c, j) = OneId i" by simp
    with e show "\<exists>d. ClassifyOperation found = (Correlated, i, d)" by (cases c) auto
  qed
qed

end
