(* ===== verification/Normalize.thy ===== *)
theory Normalize
  imports Otlp Observation
begin

text \<open>
  \<open>internal/normalize\<close>: the alias table (\<open>aliases.go\<close>) and the normalization of one log record
  or span into an execution (\<open>agentgateway.go\<close>). A result that the Go code pairs with
  \<open>false\<close> is \<open>None\<close>. The lemmas show which attributes are read at all, that raw payloads and
  HTTP statuses are read only for their presence, when a call is graded a success, and that
  the join key of a pair of binary ids identifies the pair.
\<close>

section \<open>Attributes\<close>

text \<open>Looking up an absent key of a Go map yields the zero value.\<close>

definition gets :: "(string, string) fmap \<Rightarrow> string \<Rightarrow> string" where
  "gets m k = (case fmlookup m k of None \<Rightarrow> [] | Some v \<Rightarrow> v)"

fun anyValueString :: "float_lib \<Rightarrow> any_value \<Rightarrow> string" where
  "anyValueString fl (StringValue s) = s"
| "anyValueString fl (BoolValue b) = (if b then ''true'' else ''false'')"
| "anyValueString fl (IntValue i) = decimal_int (sint i)"
| "anyValueString fl (DoubleValue d) = format_float fl d"
| "anyValueString fl OtherValue = []"

definition attributeMap :: "float_lib \<Rightarrow> key_value option list \<Rightarrow> (string, string) fmap" where
  "attributeMap fl attributes =
     fold (\<lambda>attribute values.
         case attribute of
           None \<Rightarrow> values
         | Some a \<Rightarrow>
             (case kv_Value a of
                None \<Rightarrow> values
              | Some v \<Rightarrow> fmupd (kv_Key a) (anyValueString fl v) values))
       attributes fmempty"

definition semconvOf :: "(string \<times> string list) list" where
  "semconvOf =
     [(''gen_ai.tool.name'', [''mcp.tool.name'', ''mcp.resource.name'']),
      (''mcp.method.name'', [''mcp.method'']),
      (''mcp.session.id'', [''mcp.session_id'']),
      (''rpc.response.status_code'', [''mcp.error.code'']),
      (''gen_ai.usage.input_tokens'', [''gen_ai.usage.prompt_tokens'']),
      (''gen_ai.usage.output_tokens'', [''gen_ai.usage.completion_tokens'']),
      (''gen_ai.request.model'', [''gen_ai.model'']),
      (''mcp.protocol.version'', [''mcp.protocol_version'']),
      (''gen_ai.operation.name'', [''gen_ai.operation'']),
      (''gen_ai.provider.name'', [''gen_ai.system''])]"

definition aliases_of :: "string \<Rightarrow> string list" where
  "aliases_of canonical = (case map_of semconvOf canonical of None \<Rightarrow> [] | Some as \<Rightarrow> as)"

text \<open>The first non-empty value among the canonical key and its aliases, in that order.\<close>

fun first_value :: "(string, string) fmap \<Rightarrow> string list \<Rightarrow> string" where
  "first_value attrs [] = []"
| "first_value attrs (k # ks) =
     (case fmlookup attrs k of
        Some v \<Rightarrow> if v \<noteq> [] then v else first_value attrs ks
      | None \<Rightarrow> first_value attrs ks)"

definition attr :: "(string, string) fmap \<Rightarrow> string \<Rightarrow> string" where
  "attr attrs canonical = first_value attrs (canonical # aliases_of canonical)"

definition OperationIDKeys :: "string list" where
  "OperationIDKeys = [''evidra.operation.id'', ''evidra_op'', ''evidra_operation_id'']"

fun gather_ids :: "string list \<Rightarrow> string set \<Rightarrow> string list" where
  "gather_ids [] seen = []"
| "gather_ids (v # vs) seen =
     (let v = trim_space v
      in if v = [] \<or> v \<in> seen then gather_ids vs seen else v # gather_ids vs (insert v seen))"

definition operationID :: "(string, string) fmap \<Rightarrow> string list" where
  "operationID attrs =
     gather_ids (concat (map (\<lambda>key. split_on (CHR '','') (gets attrs key)) OperationIDKeys)) {}"

section \<open>Helpers of agentgateway.go\<close>

definition SignalLogs :: string where "SignalLogs = ''logs''"
definition SignalTraces :: string where "SignalTraces = ''traces''"
definition TransportLogs :: string where "TransportLogs = ''otlp_logs''"
definition TransportTraces :: string where "TransportTraces = ''otlp_traces''"
definition GatewayObserverType :: string where "GatewayObserverType = ''agentgateway_otlp''"
definition SpanKindClient :: string where "SpanKindClient = ''client''"
definition SpanKindServer :: string where "SpanKindServer = ''server''"
definition methodToolsCall :: string where "methodToolsCall = ''tools/call''"
definition toolResourceType :: string where "toolResourceType = ''tool''"

definition rawPayloadKeys :: "string list" where
  "rawPayloadKeys = [''gen_ai.tool.call.arguments'', ''gen_ai.tool.call.result'']"

definition callerFaultCodes :: "string list" where
  "callerFaultCodes = [''-32700'', ''-32600'', ''-32601'', ''-32602'', ''-32002'']"

fun firstNonEmpty :: "string list \<Rightarrow> string" where
  "firstNonEmpty [] = []"
| "firstNonEmpty (v # vs) = (if trim_space v \<noteq> [] then v else firstNonEmpty vs)"

definition hex_digit :: "nat \<Rightarrow> char" where
  "hex_digit n = (if n < 10 then char_of (48 + n) else char_of (87 + n))"

definition hex_byte :: "8 word \<Rightarrow> string" where
  "hex_byte b = [hex_digit (unat b div 16), hex_digit (unat b mod 16)]"

definition hexID :: "bytes \<Rightarrow> string" where
  "hexID i = concat (map hex_byte i)"

text \<open>\<open>time.Unix(0, int64(n))\<close>: the conversion reads the word as two's complement.\<close>

definition timestampFromUnixNano :: "64 word \<Rightarrow> gotime" where
  "timestampFromUnixNano n = (if n = 0 then None else Some (sint n))"

fun spanKindName :: "span_kind \<Rightarrow> string" where
  "spanKindName SPAN_KIND_CLIENT = SpanKindClient"
| "spanKindName SPAN_KIND_SERVER = SpanKindServer"
| "spanKindName SPAN_KIND_INTERNAL = ''internal''"
| "spanKindName SPAN_KIND_PRODUCER = ''producer''"
| "spanKindName SPAN_KIND_CONSUMER = ''consumer''"
| "spanKindName SPAN_KIND_UNSPECIFIED = []"
| "spanKindName (SPAN_KIND_OTHER _) = []"

text \<open>
  \<open>t.Sub(u)\<close> saturates at the bounds of an int64 duration; \<open>Milliseconds\<close> truncates.
\<close>

definition time_sub :: "int \<Rightarrow> int \<Rightarrow> int" where
  "time_sub t u = max (- (2 ^ 63)) (min (2 ^ 63 - 1) (t - u))"

definition milliseconds :: "int \<Rightarrow> int" where
  "milliseconds d = quot d 1000000"

fun durationMS :: "float_lib \<Rightarrow> string list \<Rightarrow> int" where
  "durationMS fl [] = 0"
| "durationMS fl (v # vs) =
     (let v = trim_space (trim_suffix ''ms'' v)
      in if v = [] then durationMS fl vs
         else (case parse_float_int64 fl v of Some n \<Rightarrow> sint n | None \<Rightarrow> durationMS fl vs))"

definition isToolCall :: "(string, string) fmap \<Rightarrow> bool" where
  "isToolCall attrs =
     (if attr attrs ''mcp.method.name'' \<noteq> methodToolsCall then False
      else let rt = gets attrs ''mcp.resource.type''
           in if rt \<noteq> [] \<and> rt \<noteq> toolResourceType then False else True)"

definition statusFrom ::
  "(string, string) fmap \<Rightarrow> status_code \<Rightarrow> bool \<Rightarrow> status \<times> string \<times> string" where
  "statusFrom attrs spanCode completed =
     (let errType = attr attrs ''error.type'';
          code = attr attrs ''rpc.response.status_code''
      in if contains_str ''cancel'' (ascii_lower errType) then (StatusCancelled, errType, code)
         else if errType \<noteq> [] \<and> errType \<noteq> ''_OTHER'' then (StatusError, errType, code)
         else if code \<noteq> [] then
           (if code \<in> set callerFaultCodes
            then (StatusError, ''caller_jsonrpc_'' @ trim_prefix ''-'' code, code)
            else (StatusError, firstNonEmpty [errType, ''jsonrpc_'' @ code], code))
         else if spanCode = STATUS_CODE_ERROR
           then (StatusError, firstNonEmpty [errType, ''span_error''], code)
         else if errType = ''_OTHER'' then (StatusError, errType, code)
         else if completed \<or> spanCode = STATUS_CODE_OK then (StatusSuccess, [], code)
         else (StatusUnknown, [], []))"

definition logCompleted :: "(string, string) fmap \<Rightarrow> bool" where
  "logCompleted attrs \<longleftrightarrow>
     gets attrs ''duration'' \<noteq> [] \<or> gets attrs ''duration_ms'' \<noteq> [] \<or>
     gets attrs ''http.status'' \<noteq> [] \<or> gets attrs ''http.status_code'' \<noteq> []"

definition payloadAvailability :: "(string, string) fmap \<Rightarrow> availability \<times> availability" where
  "payloadAvailability attrs =
     fold (\<lambda>key (args, result).
         if gets attrs key = [] then (args, result)
         else if contains_str ''arguments'' key then (RefusedRaw, result)
         else (args, RefusedRaw))
       rawPayloadKeys (NotEmitted, NotEmitted)"

definition classify :: "(string, string) fmap \<Rightarrow> correlation \<times> string \<times> string" where
  "classify attrs = ClassifyOperation (operationID attrs)"

definition sourceFrom :: "(string, string) fmap \<Rightarrow> string \<Rightarrow> source" where
  "sourceFrom attrs transport =
     \<lparr>ObserverType = GatewayObserverType, ObserverID = [], ObserverVersion = [],
      Transport = transport,
      ServiceName = gets attrs ''service.name'',
      ProtocolVersion = attr attrs ''mcp.protocol.version'',
      NetworkTransport = gets attrs ''network.transport'',
      SessionID = attr attrs ''mcp.session.id''\<rparr>"

section \<open>FromLogRecord and FromSpan\<close>

definition log_execution ::
  "float_lib \<Rightarrow> (string, string) fmap \<Rightarrow> log_record \<Rightarrow> execution" where
  "log_execution fl attrs record =
     (let (args, result) = payloadAvailability attrs;
          (st, errType, errCode) = statusFrom attrs STATUS_CODE_UNSET (logCompleted attrs);
          (corr, opID, detail) = classify attrs
      in \<lparr>TraceID = firstNonEmpty [hexID (lr_TraceId record), gets attrs ''trace.id''],
          SpanID = firstNonEmpty [hexID (lr_SpanId record), gets attrs ''span.id''],
          ParentSpanID = [], SpanKind = [],
          OperationID = opID, Correlation = corr, CorrelationDetail = detail,
          Target = gets attrs ''mcp.target'', Tool = attr attrs ''gen_ai.tool.name'',
          StartedAt = timestampFromUnixNano (lr_TimeUnixNano record), FinishedAt = None,
          DurationMS = durationMS fl [gets attrs ''duration'', gets attrs ''duration_ms''],
          Status = st, ErrorType = errType, ErrorCode = errCode,
          ArgumentsFingerprint = [], ArgumentsFingerprintStatus = args,
          ResultFingerprint = [], ResultFingerprintStatus = result,
          ReadOnlyDeclared = False, ReadOnlyAnnotationKnown = False,
          AnnotationsVerified = False,
          Source = sourceFrom attrs TransportLogs,
          SeenFrom = [SignalLogs], Disagreements = []\<rparr>)"

definition FromLogRecord :: "float_lib \<Rightarrow> log_record option \<Rightarrow> execution option" where
  "FromLogRecord fl record =
     (case record of
        None \<Rightarrow> None
      | Some r \<Rightarrow>
          let attrs = attributeMap fl (lr_Attributes r)
          in if \<not> isToolCall attrs then None
             else let ex = log_execution fl attrs r
                  in if Tool ex \<noteq> [] then Some ex else None)"

definition span_execution :: "(string, string) fmap \<Rightarrow> span \<Rightarrow> execution" where
  "span_execution attrs s =
     (let spanCode = (case sp_Status s of None \<Rightarrow> STATUS_CODE_UNSET | Some c \<Rightarrow> c);
          completed = (sp_EndTimeUnixNano s \<noteq> 0);
          started = timestampFromUnixNano (sp_StartTimeUnixNano s);
          finished = timestampFromUnixNano (sp_EndTimeUnixNano s);
          (args, result) = payloadAvailability attrs;
          (st, errType, errCode) = statusFrom attrs spanCode completed;
          (corr, opID, detail) = classify attrs
      in \<lparr>TraceID = firstNonEmpty [hexID (sp_TraceId s), gets attrs ''trace.id''],
          SpanID = firstNonEmpty [hexID (sp_SpanId s), gets attrs ''span.id''],
          ParentSpanID = hexID (sp_ParentSpanId s), SpanKind = spanKindName (sp_Kind s),
          OperationID = opID, Correlation = corr, CorrelationDetail = detail,
          Target = gets attrs ''mcp.target'', Tool = attr attrs ''gen_ai.tool.name'',
          StartedAt = started, FinishedAt = finished,
          DurationMS = (case (started, finished) of
              (Some a, Some b) \<Rightarrow> milliseconds (time_sub b a) | _ \<Rightarrow> 0),
          Status = st, ErrorType = errType, ErrorCode = errCode,
          ArgumentsFingerprint = [], ArgumentsFingerprintStatus = args,
          ResultFingerprint = [], ResultFingerprintStatus = result,
          ReadOnlyDeclared = False, ReadOnlyAnnotationKnown = False,
          AnnotationsVerified = False,
          Source = sourceFrom attrs TransportTraces,
          SeenFrom = [SignalTraces], Disagreements = []\<rparr>)"

definition FromSpan :: "float_lib \<Rightarrow> span option \<Rightarrow> execution option" where
  "FromSpan fl sp =
     (case sp of
        None \<Rightarrow> None
      | Some s \<Rightarrow>
          let attrs = attributeMap fl (sp_Attributes s)
          in if \<not> isToolCall attrs then None
             else let ex = span_execution attrs s
                  in if Tool ex \<noteq> [] then Some ex else None)"

section \<open>Which attributes are read\<close>

text \<open>
  The names whose values reach a record, and the names of which only the presence is looked
  at. No other attribute is read.
\<close>

definition value_keys :: "string list" where
  "value_keys =
     [''mcp.method.name'', ''mcp.method'', ''mcp.resource.type'', ''error.type'',
      ''rpc.response.status_code'', ''mcp.error.code'', ''evidra.operation.id'', ''evidra_op'',
      ''evidra_operation_id'', ''gen_ai.tool.name'', ''mcp.tool.name'', ''mcp.resource.name'',
      ''mcp.target'', ''trace.id'', ''span.id'', ''duration'', ''duration_ms'',
      ''service.name'', ''mcp.protocol.version'', ''mcp.protocol_version'',
      ''network.transport'', ''mcp.session.id'', ''mcp.session_id'']"

definition presence_keys :: "string list" where
  "presence_keys =
     [''gen_ai.tool.call.arguments'', ''gen_ai.tool.call.result'', ''http.status'',
      ''http.status_code'']"

definition same_view :: "(string, string) fmap \<Rightarrow> (string, string) fmap \<Rightarrow> bool" where
  "same_view m m' \<longleftrightarrow>
     list_all (\<lambda>k. gets m k = gets m' k) value_keys \<and>
     list_all (\<lambda>k. (gets m k = []) = (gets m' k = [])) presence_keys"

lemma first_value_gets:
  "first_value m (k # ks) = (if gets m k \<noteq> [] then gets m k else first_value m ks)"
  by (auto simp: gets_def split: option.splits)

lemmas attr_reads = attr_def aliases_of_def semconvOf_def first_value_gets

lemma attr_tables [go_str]:
  "aliases_of ''gen_ai.tool.name'' = [''mcp.tool.name'', ''mcp.resource.name'']"
  "aliases_of ''mcp.method.name'' = [''mcp.method'']"
  "aliases_of ''mcp.session.id'' = [''mcp.session_id'']"
  "aliases_of ''rpc.response.status_code'' = [''mcp.error.code'']"
  "aliases_of ''mcp.protocol.version'' = [''mcp.protocol_version'']"
  "aliases_of ''error.type'' = []"
  by (simp_all add: aliases_of_def semconvOf_def)

lemma same_view_attr:
  assumes "same_view m m'"
  shows "attr m ''gen_ai.tool.name'' = attr m' ''gen_ai.tool.name''"
    and "attr m ''mcp.method.name'' = attr m' ''mcp.method.name''"
    and "attr m ''mcp.session.id'' = attr m' ''mcp.session.id''"
    and "attr m ''rpc.response.status_code'' = attr m' ''rpc.response.status_code''"
    and "attr m ''mcp.protocol.version'' = attr m' ''mcp.protocol.version''"
    and "attr m ''error.type'' = attr m' ''error.type''"
  using assms
  by (simp_all add: attr_def attr_tables first_value_gets same_view_def value_keys_def
      del: first_value.simps(2))

lemma same_view_gets:
  assumes "same_view m m'"
  shows "gets m ''mcp.resource.type'' = gets m' ''mcp.resource.type''"
    and "gets m ''mcp.target'' = gets m' ''mcp.target''"
    and "gets m ''trace.id'' = gets m' ''trace.id''"
    and "gets m ''span.id'' = gets m' ''span.id''"
    and "gets m ''duration'' = gets m' ''duration''"
    and "gets m ''duration_ms'' = gets m' ''duration_ms''"
    and "gets m ''service.name'' = gets m' ''service.name''"
    and "gets m ''network.transport'' = gets m' ''network.transport''"
    and "operationID m = operationID m'"
    and "(gets m ''http.status'' = []) = (gets m' ''http.status'' = [])"
    and "(gets m ''http.status_code'' = []) = (gets m' ''http.status_code'' = [])"
    and "(gets m ''gen_ai.tool.call.arguments'' = []) = (gets m' ''gen_ai.tool.call.arguments'' = [])"
    and "(gets m ''gen_ai.tool.call.result'' = []) = (gets m' ''gen_ai.tool.call.result'' = [])"
  using assms
  by (simp_all add: same_view_def value_keys_def presence_keys_def operationID_def
      OperationIDKeys_def)

lemma payloadAvailability_alt:
  "payloadAvailability m =
     (if gets m ''gen_ai.tool.call.arguments'' = [] then NotEmitted else RefusedRaw,
      if gets m ''gen_ai.tool.call.result'' = [] then NotEmitted else RefusedRaw)"
proof -
  have c: "contains_str ''arguments'' ''gen_ai.tool.call.arguments''"
    "\<not> contains_str ''arguments'' ''gen_ai.tool.call.result''" by code_simp+
  show ?thesis
    by (simp add: payloadAvailability_def rawPayloadKeys_def c del: contains_str.simps)
qed

lemma same_view_parts:
  assumes "same_view m m'"
  shows "statusFrom m = statusFrom m'" and "logCompleted m = logCompleted m'"
    and "classify m = classify m'" and "payloadAvailability m = payloadAvailability m'"
    and "sourceFrom m = sourceFrom m'" and "isToolCall m = isToolCall m'"
  using same_view_gets [OF assms] same_view_attr [OF assms]
  by (simp_all add: fun_eq_iff statusFrom_def logCompleted_def classify_def
      payloadAvailability_alt sourceFrom_def isToolCall_def)

lemma same_view_log: "same_view m m' \<Longrightarrow> log_execution fl m r = log_execution fl m' r"
  by (simp add: log_execution_def same_view_parts [of m m'] same_view_gets [of m m']
      same_view_attr [of m m'])

lemma same_view_span: "same_view m m' \<Longrightarrow> span_execution m s = span_execution m' s"
  by (simp add: span_execution_def same_view_parts [of m m'] same_view_gets [of m m']
      same_view_attr [of m m'])

text \<open>
  Scrubbing a list of attributes: an attribute whose value is read stays, one of which only
  the presence is looked at keeps a flag, every other one becomes nil.
\<close>

definition scrub :: "float_lib \<Rightarrow> key_value option \<Rightarrow> key_value option" where
  "scrub fl attribute =
     (case attribute of
        None \<Rightarrow> None
      | Some a \<Rightarrow>
          if kv_Key a \<in> set value_keys then Some a
          else if kv_Key a \<in> set presence_keys then
            Some (a\<lparr>kv_Value := map_option
              (\<lambda>v. StringValue (if anyValueString fl v = [] then [] else ''x'')) (kv_Value a)\<rparr>)
          else None)"

definition scrub_view :: "string \<Rightarrow> string \<Rightarrow> string" where
  "scrub_view k v =
     (if k \<in> set value_keys then v
      else if k \<in> set presence_keys \<and> v \<noteq> [] then ''x'' else [])"

lemma attributeMap_snoc:
  "attributeMap fl (as @ [a]) =
     (case a of None \<Rightarrow> attributeMap fl as
      | Some a \<Rightarrow> (case kv_Value a of None \<Rightarrow> attributeMap fl as
                   | Some v \<Rightarrow> fmupd (kv_Key a) (anyValueString fl v) (attributeMap fl as)))"
  by (simp add: attributeMap_def split: option.split)

lemma gets_fmupd: "gets (fmupd k v m) k' = (if k = k' then v else gets m k')"
  by (simp add: gets_def)

lemma gets_scrub:
  "gets (attributeMap fl (map (scrub fl) as)) k = scrub_view k (gets (attributeMap fl as) k)"
proof (induction as rule: rev_induct)
  case Nil
  show ?case by (simp add: attributeMap_def gets_def scrub_view_def)
next
  case (snoc a as)
  then show ?case
    by (auto simp: attributeMap_snoc scrub_def scrub_view_def gets_fmupd
        split: option.splits)
qed

lemma same_view_scrub: "same_view (attributeMap fl (map (scrub fl) as)) (attributeMap fl as)"
proof -
  have "list_all (\<lambda>k. k \<notin> set value_keys) presence_keys" by code_simp
  then show ?thesis
    by (auto simp: same_view_def gets_scrub scrub_view_def list_all_iff)
qed

definition scrub_log :: "float_lib \<Rightarrow> log_record \<Rightarrow> log_record" where
  "scrub_log fl r = r\<lparr>lr_Attributes := map (scrub fl) (lr_Attributes r)\<rparr>"

definition scrub_span :: "float_lib \<Rightarrow> span \<Rightarrow> span" where
  "scrub_span fl s = s\<lparr>sp_Attributes := map (scrub fl) (sp_Attributes s)\<rparr>"

lemma log_execution_scrub: "log_execution fl m (scrub_log fl r) = log_execution fl m r"
  by (simp add: log_execution_def scrub_log_def)

lemma span_execution_scrub: "span_execution m (scrub_span fl s) = span_execution m s"
  by (simp add: span_execution_def scrub_span_def)

lemma normalize_scrub:
  "FromLogRecord fl (Some (scrub_log fl r)) = FromLogRecord fl (Some r) \<and>
   FromSpan fl (Some (scrub_span fl s)) = FromSpan fl (Some s)"
proof -
  have l: "same_view (attributeMap fl (lr_Attributes (scrub_log fl r)))
      (attributeMap fl (lr_Attributes r))"
    by (simp add: scrub_log_def same_view_scrub)
  have s: "same_view (attributeMap fl (sp_Attributes (scrub_span fl s)))
      (attributeMap fl (sp_Attributes s))"
    by (simp add: scrub_span_def same_view_scrub)
  show ?thesis
    by (simp add: FromLogRecord_def FromSpan_def Let_def log_execution_scrub span_execution_scrub
        same_view_log [OF l] same_view_span [OF s] same_view_parts [OF l] same_view_parts [OF s])
qed

text \<open>
  No raw payload and no HTTP status reaches a record. Replacing every attribute whose
  value the bridge may read by itself, every payload and HTTP-status attribute by a bare
  mark that it was present, and dropping all others does not change what a log record or a
  span is normalized to.
\<close>

theorem normalize_reads_no_payload:
  "FromLogRecord fl (Some (scrub_log fl r)) = FromLogRecord fl (Some r) \<and>
   FromSpan fl (Some (scrub_span fl s)) = FromSpan fl (Some s)"
  by (rule normalize_scrub)

section \<open>The terminal status\<close>

definition error_evidence :: "(string, string) fmap \<Rightarrow> status_code \<Rightarrow> bool" where
  "error_evidence attrs spanCode \<longleftrightarrow>
     attr attrs ''error.type'' \<noteq> [] \<or> attr attrs ''rpc.response.status_code'' \<noteq> [] \<or>
     spanCode = STATUS_CODE_ERROR"

lemma not_cancel_Nil [simp]: "\<not> contains_str ''cancel'' (ascii_lower [])"
  by (simp add: ascii_lower_def)

text \<open>
  C29. The status is a complete decision over protocol evidence: a call is a success exactly
  when nothing reports an error and there is completion evidence; unknown exactly when there
  is neither; every other call is an error or, where the error type names a cancellation,
  cancelled.
\<close>

theorem statusFrom_decision:
  "fst (statusFrom attrs spanCode completed) =
     (if error_evidence attrs spanCode
      then (if contains_str ''cancel'' (ascii_lower (attr attrs ''error.type''))
            then StatusCancelled else StatusError)
      else if completed \<or> spanCode = STATUS_CODE_OK then StatusSuccess else StatusUnknown)"
  by (auto simp: statusFrom_def error_evidence_def Let_def)

section \<open>Join keys of binary ids\<close>

lemma hex_digit_facts:
  assumes "n < 16"
  shows "plain_char (hex_digit n) \<and> hex_digit n \<noteq> CHR ''/''"
proof -
  have "list_all (\<lambda>n. plain_char (hex_digit n) \<and> hex_digit n \<noteq> CHR ''/'') [0..<16]"
    by code_simp
  with assms show ?thesis by (simp add: list_all_iff)
qed

lemma hex_digit_inj: "m < 16 \<Longrightarrow> n < 16 \<Longrightarrow> hex_digit m = hex_digit n \<Longrightarrow> m = n"
proof -
  have "distinct (map hex_digit [0..<16])" by code_simp
  then have "inj_on hex_digit {0..<16}" by (simp add: distinct_map)
  then show "m < 16 \<Longrightarrow> n < 16 \<Longrightarrow> hex_digit m = hex_digit n \<Longrightarrow> m = n"
    by (auto dest: inj_onD)
qed

lemma hex_byte_bounds: "unat (b :: 8 word) div 16 < 16" "unat (b :: 8 word) mod 16 < 16"
proof -
  have "unat b < 256" using unsigned_less [of b, where ?'a = nat] by simp
  then show "unat b div 16 < 16" by (simp add: less_mult_imp_div_less)
qed simp

lemma hex_byte_inj: "hex_byte a = hex_byte b \<Longrightarrow> a = b"
proof -
  assume h: "hex_byte a = hex_byte b"
  then have "unat a div 16 = unat b div 16" and "unat a mod 16 = unat b mod 16"
    by (auto simp: hex_byte_def intro: hex_digit_inj hex_byte_bounds)
  then have "unat a = unat b" by (metis div_mult_mod_eq)
  then show "a = b" by (rule unsigned_word_eqI)
qed

lemma hexID_inj: "hexID a = hexID b \<Longrightarrow> a = b"
proof (induction a arbitrary: b)
  case Nil
  then show ?case by (cases b) (simp_all add: hexID_def hex_byte_def)
next
  case (Cons x a)
  then obtain y b' where b: "b = y # b'"
    by (cases b) (simp_all add: hexID_def hex_byte_def)
  with Cons.prems have "hex_byte x = hex_byte y" and "hexID a = hexID b'"
    by (simp_all add: hexID_def hex_byte_def)
  with Cons.IH b show ?case by (auto dest: hex_byte_inj)
qed

lemma hexID_chars: "c \<in> set (hexID i) \<Longrightarrow> plain_char c \<and> c \<noteq> CHR ''/''"
  by (auto simp: hexID_def hex_byte_def hex_digit_facts hex_byte_bounds)

lemma hexID_trim [simp]: "trim_space (hexID i) = hexID i"
  by (intro trim_space_plain) (auto simp: hexID_chars [of _ i])

lemma hexID_Nil [simp]: "hexID i = [] \<longleftrightarrow> i = []"
  by (auto simp: hexID_def hex_byte_def)

lemma JoinKey_hexID: "t \<noteq> [] \<Longrightarrow> s \<noteq> [] \<Longrightarrow> JoinKey (hexID t) (hexID s) = hexID t @ ''/'' @ hexID s"
  by (simp add: JoinKey_def)

text \<open>
  C31. The join is exact for signals that carry binary trace and span ids: their join keys
  are equal exactly when both ids are. Neither a shared trace id nor ids of other lengths can
  make two spans collide.
\<close>

theorem join_key_exact:
  assumes "t \<noteq> []" and "s \<noteq> []"
  shows "JoinKey (hexID t) (hexID s) = JoinKey (hexID t') (hexID s') \<longleftrightarrow> t = t' \<and> s = s'"
proof
  assume k: "JoinKey (hexID t) (hexID s) = JoinKey (hexID t') (hexID s')"
  have "JoinKey (hexID t) (hexID s) \<noteq> []" using assms by (simp add: JoinKey_hexID)
  moreover have "CHR ''/'' \<notin> set (hexID t)" "CHR ''/'' \<notin> set (hexID t')"
    using hexID_chars by blast+
  ultimately have "hexID t = hexID t' \<and> hexID s = hexID s'"
    using JoinKey_inject [OF k] by simp
  then show "t = t' \<and> s = s'" by (auto dest: hexID_inj)
qed simp

theorem join_key_exact_witness:
  "JoinKey (hexID [0x4b, 0xf9]) (hexID [0x00]) \<noteq> JoinKey (hexID [0x4b]) (hexID [0xf9, 0x00])"
  using join_key_exact [of "[0x4b, 0xf9]" "[0x00]" "[0x4b]" "[0xf9, 0x00]"] by simp

section \<open>Well-formed records\<close>

text \<open>What every normalized record satisfies, and every assembled one keeps.\<close>

definition int64_time :: "gotime \<Rightarrow> bool" where
  "int64_time t \<longleftrightarrow> (case t of None \<Rightarrow> True | Some ns \<Rightarrow> - (2 ^ 63) \<le> ns \<and> ns < 2 ^ 63)"

lemma int64_time_None [simp]: "int64_time None"
  by (simp add: int64_time_def)

lemma timestamp_int64 [simp]: "int64_time (timestampFromUnixNano n)"
  using sint_lt [of n] sint_ge [of n] by (simp add: timestampFromUnixNano_def int64_time_def)

definition is_int64 :: "int \<Rightarrow> bool" where
  "is_int64 i \<longleftrightarrow> - (2 ^ 63) \<le> i \<and> i < 2 ^ 63"

lemma sint_int64 [simp]: "is_int64 (sint (w :: 64 word))"
  using sint_lt [of w] sint_ge [of w] by (simp add: is_int64_def)

lemma is_int64_0 [simp]: "is_int64 0"
  by (simp add: is_int64_def)

lemma durationMS_int64 [simp]: "is_int64 (durationMS fl vs)"
  by (induction vs) (simp_all add: Let_def split: option.split)

lemma milliseconds_int64 [simp]: "is_int64 (milliseconds (time_sub a b))"
proof -
  have bound: "\<bar>quot d 1000000\<bar> \<le> \<bar>d\<bar> div 1000000" for d
    by (simp add: quot_def abs_mult sgn_if)
  have "\<bar>time_sub a b\<bar> div 1000000 \<le> 2 ^ 63 div 1000000"
    by (rule zdiv_mono1) (auto simp: time_sub_def)
  then have "\<bar>milliseconds (time_sub a b)\<bar> \<le> 2 ^ 63 div 1000000"
    using bound [of "time_sub a b"] by (simp add: milliseconds_def)
  then show ?thesis by (simp add: is_int64_def abs_le_iff)
qed

definition exec_wf :: "execution \<Rightarrow> bool" where
  "exec_wf ex \<longleftrightarrow>
     corr_wf (Correlation ex) (OperationID ex) \<and>
     Tool ex \<noteq> [] \<and>
     ArgumentsFingerprint ex = [] \<and> ResultFingerprint ex = [] \<and>
     \<not> AnnotationsVerified ex \<and>
     SeenFrom ex \<noteq> [] \<and> sorted (SeenFrom ex) \<and> distinct (SeenFrom ex) \<and>
     set (SeenFrom ex) \<subseteq> {SignalLogs, SignalTraces} \<and>
     int64_time (StartedAt ex) \<and> int64_time (FinishedAt ex) \<and> is_int64 (DurationMS ex)"

lemma FromLogRecord_Some:
  assumes "FromLogRecord fl r = Some ex"
  obtains r' where "r = Some r'" "isToolCall (attributeMap fl (lr_Attributes r'))"
    "ex = log_execution fl (attributeMap fl (lr_Attributes r')) r'" "Tool ex \<noteq> []"
  using assms by (auto simp: FromLogRecord_def Let_def split: option.splits if_splits)

lemma FromSpan_Some:
  assumes "FromSpan fl s = Some ex"
  obtains s' where "s = Some s'" "isToolCall (attributeMap fl (sp_Attributes s'))"
    "ex = span_execution (attributeMap fl (sp_Attributes s')) s'" "Tool ex \<noteq> []"
  using assms by (auto simp: FromSpan_def Let_def split: option.splits if_splits)

lemma log_execution_fields [simp]:
  "Correlation (log_execution fl m r) = fst (classify m)"
  "OperationID (log_execution fl m r) = fst (snd (classify m))"
  "Tool (log_execution fl m r) = attr m ''gen_ai.tool.name''"
  "Status (log_execution fl m r) = fst (statusFrom m STATUS_CODE_UNSET (logCompleted m))"
  "ArgumentsFingerprint (log_execution fl m r) = []"
  "ResultFingerprint (log_execution fl m r) = []"
  "AnnotationsVerified (log_execution fl m r) = False"
  "SeenFrom (log_execution fl m r) = [SignalLogs]"
  "SpanKind (log_execution fl m r) = []"
  "StartedAt (log_execution fl m r) = timestampFromUnixNano (lr_TimeUnixNano r)"
  "FinishedAt (log_execution fl m r) = None"
  by (simp_all add: log_execution_def case_prod_beta Let_def)

lemma span_execution_fields [simp]:
  "Correlation (span_execution m s) = fst (classify m)"
  "OperationID (span_execution m s) = fst (snd (classify m))"
  "Tool (span_execution m s) = attr m ''gen_ai.tool.name''"
  "Status (span_execution m s) =
     fst (statusFrom m (case sp_Status s of None \<Rightarrow> STATUS_CODE_UNSET | Some c \<Rightarrow> c)
       (sp_EndTimeUnixNano s \<noteq> 0))"
  "ArgumentsFingerprint (span_execution m s) = []"
  "ResultFingerprint (span_execution m s) = []"
  "AnnotationsVerified (span_execution m s) = False"
  "SeenFrom (span_execution m s) = [SignalTraces]"
  "SpanKind (span_execution m s) = spanKindName (sp_Kind s)"
  "StartedAt (span_execution m s) = timestampFromUnixNano (sp_StartTimeUnixNano s)"
  "FinishedAt (span_execution m s) = timestampFromUnixNano (sp_EndTimeUnixNano s)"
  by (simp_all add: span_execution_def case_prod_beta Let_def)

lemma log_execution_duration [simp]: "is_int64 (DurationMS (log_execution fl m r))"
  by (simp add: log_execution_def case_prod_beta Let_def del: durationMS.simps)

lemma span_execution_duration [simp]: "is_int64 (DurationMS (span_execution m s))"
  by (simp add: span_execution_def case_prod_beta Let_def split: option.split)

lemma classify_wf [wf_intros]: "corr_wf (fst (classify m)) (fst (snd (classify m)))"
  by (cases "classify m") (auto simp: classify_def intro: ClassifyOperation_wf)

lemma FromLogRecord_wf [wf_intros]: "FromLogRecord fl r = Some ex \<Longrightarrow> exec_wf ex"
  by (erule FromLogRecord_Some) (simp add: exec_wf_def classify_wf)

lemma FromSpan_wf [wf_intros]: "FromSpan fl s = Some ex \<Longrightarrow> exec_wf ex"
  by (erule FromSpan_Some) (simp add: exec_wf_def classify_wf)

end
