(* ===== verification/Samples.thy ===== *)
theory Samples
  imports Normalize
begin

text \<open>
  Concrete messages at which the theorems are applied: the access-log record and the span of
  one \<open>tools/call\<close> as AgentGateway v1.5.0 exports them, in the shape that the repository's
  own tests use (\<open>gatewayLog\<close> and \<open>gatewaySpan\<close> of \<open>processor_test.go\<close>).
\<close>

definition opA :: string where "opA = ''EV-01M2FAS00J36FTV4EG5EJC1D7S''"
definition opB :: string where "opB = ''EV-01M2EB52K0000000000000000A''"

definition kv :: "string \<Rightarrow> string \<Rightarrow> key_value option" where
  "kv k v = Some \<lparr>kv_Key = k, kv_Value = Some (StringValue v)\<rparr>"

definition gatewayLog :: "bytes \<Rightarrow> bytes \<Rightarrow> string \<Rightarrow> string \<Rightarrow> string \<Rightarrow> log_record" where
  "gatewayLog t s tool target opID =
     \<lparr>lr_TimeUnixNano = 1757872938000000000, lr_TraceId = t, lr_SpanId = s,
      lr_Attributes =
        [kv ''mcp.method.name'' ''tools/call'', kv ''mcp.target'' target,
         kv ''mcp.resource.type'' ''tool'', kv ''gen_ai.tool.name'' tool,
         kv ''http.status'' ''200'', kv ''duration'' ''6'', kv ''evidra_op'' opID]\<rparr>"

definition gatewaySpan ::
  "bytes \<Rightarrow> bytes \<Rightarrow> bytes \<Rightarrow> span_kind \<Rightarrow> string \<Rightarrow> string \<Rightarrow> status_code \<Rightarrow> span" where
  "gatewaySpan t s p kind tool target code =
     \<lparr>sp_TraceId = t, sp_SpanId = s, sp_ParentSpanId = p, sp_Kind = kind,
      sp_StartTimeUnixNano = 1757872938000000000, sp_EndTimeUnixNano = 1757872938006000000,
      sp_Status = Some code,
      sp_Attributes =
        [kv ''mcp.method.name'' ''tools/call'', kv ''mcp.target'' target,
         kv ''gen_ai.tool.name'' tool]\<rparr>"

definition log_of :: "bytes \<Rightarrow> bytes \<Rightarrow> string \<Rightarrow> execution" where
  "log_of t s opID =
     the (FromLogRecord plain_floats (Some (gatewayLog t s ''restart'' ''alpha'' opID)))"

definition span_of :: "bytes \<Rightarrow> bytes \<Rightarrow> bytes \<Rightarrow> span_kind \<Rightarrow> execution" where
  "span_of t s p kind =
     the (FromSpan plain_floats
       (Some (gatewaySpan t s p kind ''restart'' ''alpha'' STATUS_CODE_UNSET)))"

text \<open>One call: its access-log record, its client span and the server span that is its parent.\<close>

definition ex_log :: execution where "ex_log = log_of [1] [2] opA"
definition ex_client :: execution where "ex_client = span_of [1] [3] [2] SPAN_KIND_CLIENT"
definition ex_server :: execution where "ex_server = span_of [1] [2] [] SPAN_KIND_SERVER"

lemma samples_Some:
  "FromLogRecord plain_floats (Some (gatewayLog [1] [2] ''restart'' ''alpha'' opA)) = Some ex_log"
  "FromSpan plain_floats
     (Some (gatewaySpan [1] [3] [2] SPAN_KIND_CLIENT ''restart'' ''alpha'' STATUS_CODE_UNSET))
     = Some ex_client"
  "FromSpan plain_floats
     (Some (gatewaySpan [1] [2] [] SPAN_KIND_SERVER ''restart'' ''alpha'' STATUS_CODE_UNSET))
     = Some ex_server"
  by code_simp+

lemma samples_wf [simp]: "exec_wf ex_log" "exec_wf ex_client" "exec_wf ex_server"
  by (rule FromLogRecord_wf FromSpan_wf, rule samples_Some)+

lemma sample_fields:
  "Correlation ex_log = Correlated" "OperationID ex_log = opA"
  "Correlation ex_client = Unattributed" "Status ex_client = StatusSuccess"
  "Status ex_log = StatusSuccess" "DurationMS ex_log = 6" "DurationMS ex_client = 6"
  by code_simp+

end
