(* ===== verification/Merge.thy ===== *)
theory Merge
  imports Samples "HOL-Library.Product_Order"
begin

text \<open>
  The merge of two records of one execution, \<open>internal/bridge/processor.go\<close> from line 483.
  The abstract specification is a semilattice: every field that says something about how the
  call went or whom it belongs to is merged by taking a least upper bound, so the result does
  not depend on the order in which signals arrived (\<open>merge_refines\<close>,
  \<open>fold_merge_order_independent\<close>). The other lemmas give the disagreements a merge records
  and show that it keeps the well-formedness of normalized records (\<open>exec_wf\<close>).
\<close>

section \<open>The code\<close>

fun merge_firstNonEmpty :: "string list \<Rightarrow> string" where
  "merge_firstNonEmpty [] = []"
| "merge_firstNonEmpty (v # vs) =
     (if trim_space v \<noteq> [] then v else merge_firstNonEmpty vs)"

fun union_loop :: "string list \<Rightarrow> string set \<Rightarrow> string list" where
  "union_loop [] seen = []"
| "union_loop (v # vs) seen =
     (if v = [] \<or> v \<in> seen then union_loop vs seen else v # union_loop vs (insert v seen))"

definition union_names :: "string list \<Rightarrow> string list \<Rightarrow> string list" where
  "union_names a b = sort (union_loop (a @ b) {})"

definition transportOf :: "string list \<Rightarrow> string" where
  "transportOf seenFrom =
     (case seenFrom of
        [] \<Rightarrow> []
      | [s] \<Rightarrow> ''otlp_'' @ s
      | _ \<Rightarrow> join_with ''+'' (map (\<lambda>s. ''otlp_'' @ s) seenFrom))"

text \<open>The value kept and the disagreements with the new objection, if any.\<close>

definition mergeField ::
  "string \<Rightarrow> string \<Rightarrow> string \<Rightarrow> disagreement list \<Rightarrow> string \<times> disagreement list" where
  "mergeField name a b dis =
     (if a = b \<or> b = [] then (a, dis)
      else if a = [] then (b, dis)
      else (a, dis @ [FieldDisagreement name a b]))"

definition mergeSource :: "source \<Rightarrow> source \<Rightarrow> source" where
  "mergeSource a b = a
     \<lparr>ObserverID := if ObserverID a = [] then ObserverID b else ObserverID a,
      ObserverVersion := if ObserverVersion a = [] then ObserverVersion b else ObserverVersion a,
      ServiceName := if ServiceName a = [] then ServiceName b else ServiceName a,
      ProtocolVersion := if ProtocolVersion a = [] then ProtocolVersion b else ProtocolVersion a,
      NetworkTransport :=
        if NetworkTransport a = [] then NetworkTransport b else NetworkTransport a,
      SessionID := if SessionID a = [] then SessionID b else SessionID a\<rparr>"

fun availability_rank :: "availability \<Rightarrow> nat" where
  "availability_rank RefusedRaw = 4"
| "availability_rank OmittedSize = 3"
| "availability_rank Present = 2"
| "availability_rank Absent = 1"
| "availability_rank NotEmitted = 0"

definition strongerAvailability :: "availability \<Rightarrow> availability \<Rightarrow> availability" where
  "strongerAvailability a b = (if availability_rank a \<ge> availability_rank b then a else b)"

definition mergeCorrelation :: "execution \<Rightarrow> execution \<Rightarrow> correlation \<times> string \<times> string" where
  "mergeCorrelation base add =
     (if Correlation base = Ambiguous \<or> Correlation add = Ambiguous
      then (Ambiguous, [],
            if Correlation base = Ambiguous \<and> Correlation add = Ambiguous
               \<and> CorrelationDetail base \<noteq> CorrelationDetail add
            then CorrelationDetail base @ ''; '' @ CorrelationDetail add
            else merge_firstNonEmpty [CorrelationDetail base, CorrelationDetail add])
      else ClassifyOperation [OperationID base, OperationID add])"

definition mergeStatus ::
  "execution \<Rightarrow> execution \<Rightarrow> disagreement list
     \<Rightarrow> (status \<times> string \<times> string) \<times> disagreement list" where
  "mergeStatus base add dis =
     (let a = Status base; b = Status add;
          errType = merge_firstNonEmpty [ErrorType base, ErrorType add];
          errCode = merge_firstNonEmpty [ErrorCode base, ErrorCode add]
      in if a = b then ((a, errType, errCode), dis)
         else if a = StatusUnknown then ((b, errType, errCode), dis)
         else if b = StatusUnknown then ((a, errType, errCode), dis)
         else
           let dis = dis @ [StatusDisagreement (SeenFrom base) a (SeenFrom add) b]
           in if a = StatusError \<or> b = StatusError then ((StatusError, errType, errCode), dis)
              else if a = StatusCancelled \<or> b = StatusCancelled
                then ((StatusCancelled, errType, errCode), dis)
              else ((a, errType, errCode), dis))"

definition merge :: "execution \<Rightarrow> execution \<Rightarrow> execution" where
  "merge base add =
     (let seen = union_names (SeenFrom base) (SeenFrom add);
          dis = Disagreements base;
          (tool, dis) = mergeField ''tool'' (Tool base) (Tool add) dis;
          (target, dis) = mergeField ''target'' (Target base) (Target add) dis;
          started = (if StartedAt base = None then StartedAt add else StartedAt base);
          finished = (if FinishedAt base = None then FinishedAt add else FinishedAt base);
          dur = (if DurationMS base = 0 then DurationMS add else DurationMS base);
          dur = (case (started, finished) of
                   (Some s, Some f) \<Rightarrow> if dur = 0 then milliseconds (time_sub f s) else dur
                 | _ \<Rightarrow> dur);
          ((st, errType, errCode), dis) = mergeStatus base add dis;
          (corr, opID, detail) = mergeCorrelation base add
      in base
        \<lparr>TraceID := if TraceID base = [] then TraceID add else TraceID base,
         SpanID := if SpanID base = [] then SpanID add else SpanID base,
         ParentSpanID := if ParentSpanID base = [] then ParentSpanID add else ParentSpanID base,
         SpanKind := if SpanKind base = [] then SpanKind add else SpanKind base,
         OperationID := opID, Correlation := corr, CorrelationDetail := detail,
         Target := target, Tool := tool,
         StartedAt := started, FinishedAt := finished, DurationMS := dur,
         Status := st, ErrorType := errType, ErrorCode := errCode,
         ArgumentsFingerprintStatus :=
           strongerAvailability (ArgumentsFingerprintStatus base) (ArgumentsFingerprintStatus add),
         ResultFingerprintStatus :=
           strongerAvailability (ResultFingerprintStatus base) (ResultFingerprintStatus add),
         ReadOnlyDeclared :=
           if ReadOnlyAnnotationKnown add then ReadOnlyDeclared add else ReadOnlyDeclared base,
         ReadOnlyAnnotationKnown := ReadOnlyAnnotationKnown base \<or> ReadOnlyAnnotationKnown add,
         Source := (mergeSource (Source base) (Source add))\<lparr>Transport := transportOf seen\<rparr>,
         SeenFrom := seen, Disagreements := dis\<rparr>)"

text \<open>
  The text of a disagreement. \<open>quote\<close> is the verb \<open>%q\<close> of the \<open>fmt\<close> package, which escapes
  what Unicode does not call printable; it is an argument because that table is not part of
  the program.
\<close>

definition disagreement_text :: "(string \<Rightarrow> string) \<Rightarrow> disagreement \<Rightarrow> string" where
  "disagreement_text quote d =
     (case d of
        FieldDisagreement name a b \<Rightarrow>
          name @ '': signals disagreed ('' @ quote a @ '' vs '' @ quote b @ '')''
      | StatusDisagreement sa a sb b \<Rightarrow>
          ''status: '' @ join_with ''+'' sa @ '' signal said '' @ status_text a @ '', ''
            @ join_with ''+'' sb @ '' signal said '' @ status_text b)"

section \<open>The fields of a merged record\<close>

lemma merge_firstNonEmpty_same: "merge_firstNonEmpty vs = firstNonEmpty vs"
  by (induction vs) auto

lemmas merge_unfold = merge_def Let_def case_prod_beta

lemma merge_fields [simp]:
  "SeenFrom (merge a b) = union_names (SeenFrom a) (SeenFrom b)"
  "Correlation (merge a b) = fst (mergeCorrelation a b)"
  "OperationID (merge a b) = fst (snd (mergeCorrelation a b))"
  "CorrelationDetail (merge a b) = snd (snd (mergeCorrelation a b))"
  "Status (merge a b) = fst (fst (mergeStatus a b []))"
  "Tool (merge a b) = fst (mergeField ''tool'' (Tool a) (Tool b) [])"
  "Target (merge a b) = fst (mergeField ''target'' (Target a) (Target b) [])"
  "TraceID (merge a b) = (if TraceID a = [] then TraceID b else TraceID a)"
  "SpanID (merge a b) = (if SpanID a = [] then SpanID b else SpanID a)"
  "ParentSpanID (merge a b) = (if ParentSpanID a = [] then ParentSpanID b else ParentSpanID a)"
  "SpanKind (merge a b) = (if SpanKind a = [] then SpanKind b else SpanKind a)"
  "StartedAt (merge a b) = (if StartedAt a = None then StartedAt b else StartedAt a)"
  "FinishedAt (merge a b) = (if FinishedAt a = None then FinishedAt b else FinishedAt a)"
  "ArgumentsFingerprint (merge a b) = ArgumentsFingerprint a"
  "ResultFingerprint (merge a b) = ResultFingerprint a"
  "AnnotationsVerified (merge a b) = AnnotationsVerified a"
  "ArgumentsFingerprintStatus (merge a b) =
     strongerAvailability (ArgumentsFingerprintStatus a) (ArgumentsFingerprintStatus b)"
  "ResultFingerprintStatus (merge a b) =
     strongerAvailability (ResultFingerprintStatus a) (ResultFingerprintStatus b)"
  "Source (merge a b) =
     (mergeSource (Source a) (Source b))
       \<lparr>Transport := transportOf (union_names (SeenFrom a) (SeenFrom b))\<rparr>"
  by (simp_all add: merge_unfold mergeField_def mergeStatus_def)

subsection \<open>union\<close>

lemma set_union_loop: "set (union_loop vs seen) = set vs - {[]} - seen"
  by (induction vs seen rule: union_loop.induct) auto

lemma distinct_union_loop: "distinct (union_loop vs seen)"
  by (induction vs seen rule: union_loop.induct) (auto simp: set_union_loop)

lemma union_names_set [simp]: "set (union_names a b) = (set a \<union> set b) - {[]}"
  by (simp add: union_names_def set_union_loop)

lemma union_names_sorted [simp]: "sorted (union_names a b)" "distinct (union_names a b)"
  by (simp_all add: union_names_def distinct_union_loop)

lemma union_names_unique:
  "sorted xs \<Longrightarrow> distinct xs \<Longrightarrow> set xs = (set a \<union> set b) - {[]} \<Longrightarrow> union_names a b = xs"
  by (metis sorted_distinct_set_unique union_names_set union_names_sorted)

section \<open>The abstract specification: a semilattice\<close>

text \<open>
  Statuses are ordered by how much they must not be lost: unknown, success, cancelled,
  error. Availabilities are ordered by the code's rank. Attributions form the flat order
  from no id through one id to a conflict.
\<close>

fun status_rank :: "status \<Rightarrow> nat" where
  "status_rank StatusUnknown = 0"
| "status_rank StatusSuccess = 1"
| "status_rank StatusCancelled = 2"
| "status_rank StatusError = 3"

lemma status_rank_inj: "status_rank a = status_rank b \<Longrightarrow> a = b"
  by (cases a; cases b) auto

lemma availability_rank_inj: "availability_rank a = availability_rank b \<Longrightarrow> a = b"
  by (cases a; cases b) auto

instantiation status :: linorder
begin

definition less_eq_status :: "status \<Rightarrow> status \<Rightarrow> bool" where
  "less_eq_status a b \<longleftrightarrow> status_rank a \<le> status_rank b"

definition less_status :: "status \<Rightarrow> status \<Rightarrow> bool" where
  "less_status a b \<longleftrightarrow> status_rank a < status_rank b"

instance
  by standard (auto simp: less_eq_status_def less_status_def dest: status_rank_inj)

end

instantiation status :: semilattice_sup
begin

definition sup_status :: "status \<Rightarrow> status \<Rightarrow> status" where
  "sup_status a b = max a b"

instance
  by standard (auto simp: sup_status_def)

end

instantiation availability :: linorder
begin

definition less_eq_availability :: "availability \<Rightarrow> availability \<Rightarrow> bool" where
  "less_eq_availability a b \<longleftrightarrow> availability_rank a \<le> availability_rank b"

definition less_availability :: "availability \<Rightarrow> availability \<Rightarrow> bool" where
  "less_availability a b \<longleftrightarrow> availability_rank a < availability_rank b"

instance
  by standard (auto simp: less_eq_availability_def less_availability_def
      dest: availability_rank_inj)

end

instantiation availability :: semilattice_sup
begin

definition sup_availability :: "availability \<Rightarrow> availability \<Rightarrow> availability" where
  "sup_availability a b = max a b"

instance
  by standard (auto simp: sup_availability_def)

end

instantiation attribution :: semilattice_sup
begin

definition less_eq_attribution :: "attribution \<Rightarrow> attribution \<Rightarrow> bool" where
  "less_eq_attribution a b \<longleftrightarrow> a = b \<or> a = NoId \<or> b = Conflict"

definition less_attribution :: "attribution \<Rightarrow> attribution \<Rightarrow> bool" where
  "less_attribution a b \<longleftrightarrow> a \<noteq> b \<and> (a = NoId \<or> b = Conflict)"

definition sup_attribution :: "attribution \<Rightarrow> attribution \<Rightarrow> attribution" where
  "sup_attribution a b =
     (if a = NoId \<or> a = b then b else if b = NoId then a else Conflict)"

instance
  by standard (auto simp: less_eq_attribution_def less_attribution_def sup_attribution_def)

end

lemma mergeStatus_sup: "fst (fst (mergeStatus a b dis)) = sup (Status a) (Status b)"
  by (cases "Status a"; cases "Status b")
    (simp_all add: mergeStatus_def sup_status_def max_def less_eq_status_def)

lemma strongerAvailability_sup: "strongerAvailability a b = sup a b"
  by (cases a; cases b)
    (simp_all add: strongerAvailability_def sup_availability_def max_def less_eq_availability_def)

definition exec_attribution :: "execution \<Rightarrow> attribution" where
  "exec_attribution ex = attribution_view (Correlation ex, OperationID ex)"

definition corr_ok :: "execution \<Rightarrow> bool" where
  "corr_ok ex = corr_wf (Correlation ex) (OperationID ex)"

lemma corr_ok_wf: "exec_wf ex \<Longrightarrow> corr_ok ex"
  by (simp add: exec_wf_def corr_ok_def)

lemma samples_corr_ok [simp]: "corr_ok ex_log" "corr_ok ex_client" "corr_ok ex_server"
  by (simp_all add: corr_ok_wf)

lemma mergeCorrelation_wf:
  "corr_wf (fst (mergeCorrelation a b)) (fst (snd (mergeCorrelation a b)))"
  by (cases "ClassifyOperation [OperationID a, OperationID b]")
    (auto simp: mergeCorrelation_def corr_wf_def dest: ClassifyOperation_wf)

lemma merge_corr_ok [wf_intros]: "corr_ok (merge a b)"
  by (simp add: corr_ok_def mergeCorrelation_wf)

lemma mergeCorrelation_sup:
  assumes "corr_ok a" and "corr_ok b"
  shows "exec_attribution (merge a b) = sup (exec_attribution a) (exec_attribution b)"
proof (cases "Correlation a = Ambiguous \<or> Correlation b = Ambiguous")
  case True
  then show ?thesis
    by (cases "exec_attribution a"; cases "exec_attribution b")
      (auto simp: exec_attribution_def mergeCorrelation_def sup_attribution_def)
next
  case False
  then have "exec_attribution (merge a b)
      = attribution_of (set (present_ids [OperationID a, OperationID b]))"
    using ClassifyOperation_refines [of "[OperationID a, OperationID b]"]
    by (simp add: exec_attribution_def mergeCorrelation_def case_prod_beta)
  moreover have "attribution_of {i, j} = Conflict" if "i \<noteq> j" for i j
    using that by (intro attribution_of_two [of i _ j]) auto
  ultimately show ?thesis
    using False assms
    by (cases "Correlation a"; cases "Correlation b")
      (auto simp: corr_ok_def corr_wf_def exec_attribution_def sup_attribution_def
        present_ids_Cons dest: ValidOperationID_nonempty)
qed

text \<open>What a record asserts: its attribution, status, availabilities and signals.\<close>

type_synonym verdict = "attribution \<times> status \<times> availability \<times> availability \<times> string set"

definition verdict :: "execution \<Rightarrow> verdict" where
  "verdict ex =
     (exec_attribution ex, Status ex, ArgumentsFingerprintStatus ex, ResultFingerprintStatus ex,
      set (SeenFrom ex) - {[]})"

lemma verdict_merge:
  "corr_ok a \<Longrightarrow> corr_ok b \<Longrightarrow> verdict (merge a b) = sup (verdict a) (verdict b)"
  using mergeCorrelation_sup [of a b]
  by (auto simp: verdict_def mergeStatus_sup strongerAvailability_sup)

text \<open>
  C22. Merging two records takes the least upper bound of what they assert: conflicting or
  malformed operation ids stay a conflict, a reported failure is never averaged away by a
  success, a refused payload is never downgraded, and no contributing signal is forgotten.
\<close>

theorem merge_refines:
  assumes "corr_ok a" and "corr_ok b"
  shows "verdict (merge a b) = sup (verdict a) (verdict b)"
  using assms by (rule verdict_merge)

theorem merge_refines_witness:
  "verdict (merge ex_log ex_client) = sup (verdict ex_log) (verdict ex_client) \<and>
   corr_ok ex_log \<and> corr_ok ex_client"
  using merge_refines [of ex_log ex_client] by simp


lemma verdict_fold_merge:
  assumes "corr_ok x" and "\<forall>y \<in> set xs. corr_ok y"
  shows "verdict (fold (\<lambda>y acc. merge acc y) xs x) = fold sup (map verdict xs) (verdict x)"
  using assms
  by (induction xs arbitrary: x) (simp_all add: verdict_merge merge_corr_ok sup.commute)

lemma fold_sup_Sup_fin: "fold sup xs x = Sup_fin (insert x (set xs))"
proof (induction xs arbitrary: x)
  case (Cons y xs)
  have "Sup_fin (insert (sup y x) (set xs)) = Sup_fin (insert x (insert y (set xs)))"
    by (cases "set xs = {}") (simp_all add: sup.assoc sup.commute sup.left_commute)
  with Cons show ?case by simp
qed simp

text \<open>
  C21. What an assembled record asserts does not depend on the order in which its signals
  were merged, nor on repetition: any two sequences with the same records give the same
  attribution, status, availabilities and signals.
\<close>

theorem fold_merge_order_independent:
  assumes "set (x # xs) = set (y # ys)" and "list_all corr_ok (x # xs)"
  shows "verdict (fold (\<lambda>e acc. merge acc e) xs x) = verdict (fold (\<lambda>e acc. merge acc e) ys y)"
proof -
  from assms have "corr_ok x" "\<forall>e \<in> set xs. corr_ok e" "corr_ok y" "\<forall>e \<in> set ys. corr_ok e"
    by (auto simp: list_all_iff)
  moreover have "insert (verdict x) (verdict ` set xs) = insert (verdict y) (verdict ` set ys)"
    using assms(1) by (metis image_insert list.set(2))
  ultimately show ?thesis
    by (simp add: verdict_fold_merge fold_sup_Sup_fin)
qed

theorem fold_merge_order_independent_witness:
  "verdict (fold (\<lambda>e acc. merge acc e) [ex_server, ex_client] ex_log)
     = verdict (fold (\<lambda>e acc. merge acc e) [ex_log, ex_server, ex_log] ex_client)"
proof (rule fold_merge_order_independent)
  show "set (ex_log # [ex_server, ex_client]) = set (ex_client # [ex_log, ex_server, ex_log])"
    by auto
qed simp

section \<open>Well-formedness and disagreements\<close>

lemma union_names_nonempty: "v \<in> set a \<Longrightarrow> v \<noteq> [] \<Longrightarrow> union_names a b \<noteq> []"
  by (metis DiffI UnI1 empty_iff list.set(1) singletonD union_names_set)

lemma signal_names_nonempty: "SignalLogs \<noteq> []" "SignalTraces \<noteq> []"
  by (simp_all add: SignalLogs_def SignalTraces_def)

lemma merge_wf [wf_intros]:
  assumes "exec_wf a" and "exec_wf b"
  shows "exec_wf (merge a b)"
proof -
  from assms(1) have "SeenFrom a \<noteq> []" "set (SeenFrom a) \<subseteq> {SignalLogs, SignalTraces}"
    by (auto simp: exec_wf_def)
  then obtain v where "v \<in> set (SeenFrom a)" "v \<noteq> []"
    using signal_names_nonempty by (cases "SeenFrom a") auto
  then have "union_names (SeenFrom a) (SeenFrom b) \<noteq> []" by (rule union_names_nonempty)
  moreover have "is_int64 (DurationMS (merge a b))"
    using assms by (auto simp: merge_unfold exec_wf_def split: option.split)
  ultimately show ?thesis
    using assms by (auto simp: exec_wf_def mergeCorrelation_wf mergeField_def)
qed

definition field_objection :: "string \<Rightarrow> string \<Rightarrow> string \<Rightarrow> disagreement list" where
  "field_objection name a b =
     (if a \<noteq> b \<and> a \<noteq> [] \<and> b \<noteq> [] then [FieldDisagreement name a b] else [])"

definition status_objection :: "execution \<Rightarrow> execution \<Rightarrow> disagreement list" where
  "status_objection a b =
     (if Status a \<noteq> Status b \<and> Status a \<noteq> StatusUnknown \<and> Status b \<noteq> StatusUnknown
      then [StatusDisagreement (SeenFrom a) (Status a) (SeenFrom b) (Status b)] else [])"

text \<open>
  The disagreements of a merged record are those of the first record followed by one
  objection for every field on which both records assert something different: tool, target
  and status. Nothing else is added, and those already recorded on the second record are not
  carried over.
\<close>

theorem merge_disagreements:
  "Disagreements (merge a b) =
     Disagreements a @ field_objection ''tool'' (Tool a) (Tool b)
       @ field_objection ''target'' (Target a) (Target b) @ status_objection a b"
proof -
  have f: "snd (mergeField n x y d) = d @ field_objection n x y" for n x y d
    by (simp add: mergeField_def field_objection_def)
  have s: "snd (mergeStatus a b d) = d @ status_objection a b" for d
    by (auto simp: mergeStatus_def status_objection_def Let_def)
  show ?thesis by (simp add: merge_unfold f s)
qed

end
