(* ===== verification/Processor.thy ===== *)
theory Processor
  imports Merge
begin

text \<open>
  The state of \<open>bridge.Processor\<close> and its operations (\<open>internal/bridge/processor.go\<close>). Every
  definition of the first part is one region that the code runs under \<open>p.mu\<close>, so one atomic
  step; the second part composes them the way the methods do. The sink is a function from
  its own state and an execution to an optional error and a new state; a nil sink is \<open>None\<close>.
  The order in which a map is ranged over and the readings of the clock are arguments.
\<close>

section \<open>State\<close>

record stats =
  LogRecordsSeen :: nat
  SpansSeen :: nat
  ToolCallsIgnored :: nat
  EmittedCount :: nat
  EmittedMerged :: nat
  EmittedLogOnly :: nat
  EmittedSpanOnly :: nat
  SinkWriteFailures :: nat
  LateSignalsIgnored :: nat
  UnjoinableNoSpan :: nat
  ParentsSuppressed :: nat
  CorrelatedCount :: nat
  UnattributedCount :: nat
  AmbiguousCount :: nat
  StillBuffered :: nat

definition zero_stats :: stats where
  "zero_stats =
     \<lparr>LogRecordsSeen = 0, SpansSeen = 0, ToolCallsIgnored = 0, EmittedCount = 0,
      EmittedMerged = 0, EmittedLogOnly = 0, EmittedSpanOnly = 0, SinkWriteFailures = 0,
      LateSignalsIgnored = 0, UnjoinableNoSpan = 0, ParentsSuppressed = 0,
      CorrelatedCount = 0, UnattributedCount = 0, AmbiguousCount = 0, StillBuffered = 0\<rparr>"

record processor =
  maxWait :: int
  observerID :: string
  observerVersion :: string
  spans :: "(string, execution) fmap"
  logs :: "(string, execution) fmap"
  firstSeen :: "(string, int) fmap"
  pendingSpans :: "(string, execution) fmap"
  pendingLogs :: "(string, execution) fmap"
  pendingFirstSeen :: "(string, int) fmap"
  pendingSignals :: "(string, nat) fmap"
  inFlight :: "string set"
  emitted :: "string set"
  stats :: stats

record assembled =
  a_key :: string
  a_consumedKeys :: "string list"
  a_ex :: execution
  a_both :: bool
  a_loggy :: bool
  a_parentsSuppressed :: nat

definition NewProcessor :: "int \<Rightarrow> processor" where
  "NewProcessor wait =
     \<lparr>maxWait = wait, observerID = [], observerVersion = [], spans = fmempty, logs = fmempty,
      firstSeen = fmempty, pendingSpans = fmempty, pendingLogs = fmempty,
      pendingFirstSeen = fmempty, pendingSignals = fmempty, inFlight = {}, emitted = {},
      stats = zero_stats\<rparr>"

definition SetObserver :: "string \<Rightarrow> string \<Rightarrow> processor \<Rightarrow> processor" where
  "SetObserver i version p = p\<lparr>observerID := i, observerVersion := version\<rparr>"

section \<open>Locked regions\<close>

definition count_stat :: "(stats \<Rightarrow> stats) \<Rightarrow> processor \<Rightarrow> processor" where
  "count_stat fn p = p\<lparr>stats := fn (stats p)\<rparr>"

definition log_seen :: "stats \<Rightarrow> stats" where
  "log_seen s = s\<lparr>LogRecordsSeen := LogRecordsSeen s + 1\<rparr>"

definition span_seen :: "stats \<Rightarrow> stats" where
  "span_seen s = s\<lparr>SpansSeen := SpansSeen s + 1\<rparr>"

definition call_ignored :: "stats \<Rightarrow> stats" where
  "call_ignored s = s\<lparr>ToolCallsIgnored := ToolCallsIgnored s + 1\<rparr>"

definition ProcessorStats :: "processor \<Rightarrow> stats" where
  "ProcessorStats p =
     (stats p)\<lparr>StillBuffered := fcard (fmdom (firstSeen p))
        + fcard (ffilter (\<lambda>key. fmlookup (firstSeen p) key = None)
            (fmdom (pendingFirstSeen p)))\<rparr>"

definition hasPending :: "string \<Rightarrow> processor \<Rightarrow> bool" where
  "hasPending key p \<longleftrightarrow> fmlookup (pendingFirstSeen p) key \<noteq> None"

text \<open>Storing a record under its key, merged after one that is there; keeping the first time.\<close>

definition put_merged ::
  "string \<Rightarrow> execution \<Rightarrow> (string, execution) fmap \<Rightarrow> (string, execution) fmap" where
  "put_merged key ex dst =
     fmupd key (case fmlookup dst key of Some prev \<Rightarrow> merge prev ex | None \<Rightarrow> ex) dst"

definition put_first :: "string \<Rightarrow> int \<Rightarrow> (string, int) fmap \<Rightarrow> (string, int) fmap" where
  "put_first key now m = (case fmlookup m key of Some _ \<Rightarrow> m | None \<Rightarrow> fmupd key now m)"

definition stamp :: "processor \<Rightarrow> execution \<Rightarrow> execution" where
  "stamp p ex =
     (if observerID p \<noteq> []
      then ex\<lparr>Source := (Source ex)\<lparr>ObserverID := observerID p,
                                    ObserverVersion := observerVersion p\<rparr>\<rparr>
      else ex)"

definition pending_count :: "string \<Rightarrow> processor \<Rightarrow> nat" where
  "pending_count key p = (case fmlookup (pendingSignals p) key of None \<Rightarrow> 0 | Some n \<Rightarrow> n)"

definition buffer :: "int \<Rightarrow> execution \<Rightarrow> string \<Rightarrow> processor \<Rightarrow> processor" where
  "buffer now ex signal p =
     (let key = JoinKey (TraceID ex) (SpanID ex)
      in if key = [] then count_stat (\<lambda>s. s\<lparr>UnjoinableNoSpan := UnjoinableNoSpan s + 1\<rparr>) p
         else if key \<in> emitted p
           then count_stat (\<lambda>s. s\<lparr>LateSignalsIgnored := LateSignalsIgnored s + 1\<rparr>) p
         else
           let ex = stamp p ex;
               usePending = (key \<in> inFlight p \<or> hasPending key p)
           in if usePending then
                (if signal = SignalLogs then p\<lparr>pendingLogs := put_merged key ex (pendingLogs p)\<rparr>
                 else p\<lparr>pendingSpans := put_merged key ex (pendingSpans p)\<rparr>)
                  \<lparr>pendingFirstSeen := put_first key now (pendingFirstSeen p),
                   pendingSignals := fmupd key (pending_count key p + 1) (pendingSignals p)\<rparr>
              else
                (if signal = SignalLogs then p\<lparr>logs := put_merged key ex (logs p)\<rparr>
                 else p\<lparr>spans := put_merged key ex (spans p)\<rparr>)
                  \<lparr>firstSeen := put_first key now (firstSeen p)\<rparr>)"

subsection \<open>Claiming what is ready\<close>

definition readyKeys :: "int option \<Rightarrow> processor \<Rightarrow> string list" where
  "readyKeys cutoff p =
     filter (\<lambda>key. case cutoff of None \<Rightarrow> True
                   | Some c \<Rightarrow> (case fmlookup (firstSeen p) key of
                                  Some seen \<Rightarrow> seen < c | None \<Rightarrow> False))
       (sorted_keys (firstSeen p))"

definition parent_key :: "execution \<Rightarrow> string" where
  "parent_key sp = TraceID sp @ ''/'' @ ParentSpanID sp"

definition names_parent :: "execution \<Rightarrow> bool" where
  "names_parent sp \<longleftrightarrow> SpanKind sp = SpanKindClient \<and> ParentSpanID sp \<noteq> []"

definition childOf :: "range_fn \<Rightarrow> processor \<Rightarrow> (string, string) fmap" where
  "childOf rng p =
     fold (\<lambda>key m. case fmlookup (spans p) key of
               None \<Rightarrow> m
             | Some sp \<Rightarrow> if names_parent sp then fmupd (parent_key sp) key m else m)
       (rng (fmdom (spans p))) fmempty"

definition mergeParent :: "assembled \<Rightarrow> string \<Rightarrow> processor \<Rightarrow> assembled" where
  "mergeParent a parentKey p =
     (let parent = fmlookup (spans p) parentKey;
          parentLog = fmlookup (logs p) parentKey;
          a = (case parent of None \<Rightarrow> a
               | Some sp \<Rightarrow> a\<lparr>a_ex := merge (a_ex a) sp, a_parentsSuppressed := 1\<rparr>);
          a = (case parentLog of None \<Rightarrow> a | Some l \<Rightarrow> a\<lparr>a_ex := merge (a_ex a) l\<rparr>)
      in if parent \<noteq> None \<or> parentLog \<noteq> None
         then a\<lparr>a_consumedKeys := a_consumedKeys a @ [parentKey]\<rparr> else a)"

definition assembleKey :: "string \<Rightarrow> processor \<Rightarrow> assembled option" where
  "assembleKey key p =
     (case fmlookup (spans p) key of
        None \<Rightarrow>
          (case fmlookup (logs p) key of
             None \<Rightarrow> None
           | Some logRec \<Rightarrow>
               Some \<lparr>a_key = key, a_consumedKeys = [key], a_ex = logRec, a_both = False,
                     a_loggy = True, a_parentsSuppressed = 0\<rparr>)
      | Some sp \<Rightarrow>
          let a = \<lparr>a_key = key, a_consumedKeys = [key], a_ex = sp,
                   a_both = (fmlookup (logs p) key \<noteq> None), a_loggy = False,
                   a_parentsSuppressed = 0\<rparr>;
              a = (if names_parent sp then mergeParent a (parent_key sp) p else a)
          in Some (case fmlookup (logs p) key of
                     None \<Rightarrow> a | Some logRec \<Rightarrow> a\<lparr>a_ex := merge (a_ex a) logRec\<rparr>))"

definition suppressed :: "(string, string) fmap \<Rightarrow> string \<Rightarrow> bool" where
  "suppressed child key \<longleftrightarrow>
     (case fmlookup child key of None \<Rightarrow> False | Some childKey \<Rightarrow> childKey \<noteq> key)"

definition snapshot :: "int option \<Rightarrow> range_fn \<Rightarrow> processor \<Rightarrow> assembled list" where
  "snapshot cutoff rng p =
     (let child = childOf rng p
      in List.map_filter (\<lambda>key. if suppressed child key then None else assembleKey key p)
           (readyKeys cutoff p))"

text \<open>
  The locked part of \<open>assemble\<close>: the snapshot, and every key it consumes marked in flight.
  The result is sorted by key, as the code does after releasing the lock.
\<close>

definition claim :: "int option \<Rightarrow> range_fn \<Rightarrow> processor \<Rightarrow> assembled list \<times> processor" where
  "claim cutoff rng p =
     (let out = snapshot cutoff rng p
      in (sort_key a_key out, p\<lparr>inFlight := inFlight p \<union> set (concat (map a_consumedKeys out))\<rparr>))"

subsection \<open>Acknowledging, failing, restoring\<close>

definition discardPending :: "string \<Rightarrow> processor \<Rightarrow> nat \<times> processor" where
  "discardPending key p =
     (pending_count key p,
      p\<lparr>pendingSpans := fmdrop key (pendingSpans p),
        pendingLogs := fmdrop key (pendingLogs p),
        pendingFirstSeen := fmdrop key (pendingFirstSeen p),
        pendingSignals := fmdrop key (pendingSignals p)\<rparr>)"

definition ack_key :: "string \<Rightarrow> processor \<Rightarrow> processor" where
  "ack_key key p =
     (let p = p\<lparr>spans := fmdrop key (spans p), logs := fmdrop key (logs p),
                firstSeen := fmdrop key (firstSeen p), inFlight := inFlight p - {key}\<rparr>;
          (dropped, p) = discardPending key p
      in (count_stat (\<lambda>s. s\<lparr>LateSignalsIgnored := LateSignalsIgnored s + dropped\<rparr>) p)
           \<lparr>emitted := insert key (emitted p)\<rparr>)"

definition record_emitted :: "assembled \<Rightarrow> stats \<Rightarrow> stats" where
  "record_emitted a s =
     (let s = s\<lparr>ParentsSuppressed := ParentsSuppressed s + a_parentsSuppressed a\<rparr>;
          s = (case Correlation (a_ex a) of
                 Correlated \<Rightarrow> s\<lparr>CorrelatedCount := CorrelatedCount s + 1\<rparr>
               | Ambiguous \<Rightarrow> s\<lparr>AmbiguousCount := AmbiguousCount s + 1\<rparr>
               | Unattributed \<Rightarrow> s\<lparr>UnattributedCount := UnattributedCount s + 1\<rparr>);
          s = s\<lparr>EmittedCount := EmittedCount s + 1\<rparr>
      in if a_both a \<or> length (SeenFrom (a_ex a)) > 1
           then s\<lparr>EmittedMerged := EmittedMerged s + 1\<rparr>
         else if a_loggy a then s\<lparr>EmittedLogOnly := EmittedLogOnly s + 1\<rparr>
         else s\<lparr>EmittedSpanOnly := EmittedSpanOnly s + 1\<rparr>)"

definition acknowledge :: "assembled \<Rightarrow> processor \<Rightarrow> processor" where
  "acknowledge a p = count_stat (record_emitted a) (fold ack_key (a_consumedKeys a) p)"

definition write_failed :: "processor \<Rightarrow> processor" where
  "write_failed p = count_stat (\<lambda>s. s\<lparr>SinkWriteFailures := SinkWriteFailures s + 1\<rparr>) p"

definition fold_back ::
  "string \<Rightarrow> (string, execution) fmap \<Rightarrow> (string, execution) fmap \<Rightarrow> (string, execution) fmap" where
  "fold_back key pend active =
     (case fmlookup pend key of None \<Rightarrow> active | Some ex \<Rightarrow> put_merged key ex active)"

definition mergePendingIntoActive :: "string \<Rightarrow> processor \<Rightarrow> processor" where
  "mergePendingIntoActive key p =
     (case fmlookup (pendingFirstSeen p) key of
        None \<Rightarrow> p
      | Some seen \<Rightarrow>
          p\<lparr>spans := fold_back key (pendingSpans p) (spans p),
            pendingSpans := fmdrop key (pendingSpans p),
            logs := fold_back key (pendingLogs p) (logs p),
            pendingLogs := fmdrop key (pendingLogs p),
            firstSeen := put_first key seen (firstSeen p),
            pendingFirstSeen := fmdrop key (pendingFirstSeen p),
            pendingSignals := fmdrop key (pendingSignals p)\<rparr>)"

definition restore_key :: "string \<Rightarrow> processor \<Rightarrow> processor" where
  "restore_key key p =
     (let p = mergePendingIntoActive key p in p\<lparr>inFlight := inFlight p - {key}\<rparr>)"

text \<open>The set \<open>restored\<close> of the code makes every key be visited once.\<close>

definition restoreReserved :: "assembled list \<Rightarrow> processor \<Rightarrow> processor" where
  "restoreReserved records p = fold restore_key (remdups (concat (map a_consumedKeys records))) p"

section \<open>The methods\<close>

type_synonym ('s, 'e) sink_write = "'s \<Rightarrow> execution \<Rightarrow> 'e option \<times> 's"

definition sink_call ::
  "('s, 'e) sink_write option \<Rightarrow> 's \<Rightarrow> execution \<Rightarrow> 'e option \<times> 's" where
  "sink_call sink s ex = (case sink of None \<Rightarrow> (None, s) | Some write \<Rightarrow> write s ex)"

definition emit ::
  "('s, 'e) sink_write option \<Rightarrow> assembled \<Rightarrow> 's \<times> processor \<Rightarrow> 'e option \<times> 's \<times> processor" where
  "emit sink a sp =
     (let (s, p) = sp
      in if a_key a \<in> emitted p then (None, s, p)
         else (case sink_call sink s (a_ex a) of
                 (Some err, s) \<Rightarrow> (Some err, s, write_failed p)
               | (None, s) \<Rightarrow> (None, s, acknowledge a p)))"

fun emit_all ::
  "('s, 'e) sink_write option \<Rightarrow> assembled list \<Rightarrow> 's \<times> processor
     \<Rightarrow> 'e option \<times> 's \<times> processor" where
  "emit_all sink [] sp = (None, sp)"
| "emit_all sink (a # out) sp =
     (case emit sink a sp of
        (Some err, s, p) \<Rightarrow> (Some err, s, restoreReserved (a # out) p)
      | (None, sp) \<Rightarrow> emit_all sink out sp)"

definition assemble ::
  "('s, 'e) sink_write option \<Rightarrow> range_fn \<Rightarrow> int option \<Rightarrow> 's \<times> processor
     \<Rightarrow> 'e option \<times> 's \<times> processor" where
  "assemble sink rng cutoff sp =
     (let (s, p) = sp
      in if readyKeys cutoff p = [] then (None, s, p)
         else let (out, p) = claim cutoff rng p in emit_all sink out (s, p))"

definition assembleExpired ::
  "('s, 'e) sink_write option \<Rightarrow> range_fn \<Rightarrow> int \<Rightarrow> 's \<times> processor
     \<Rightarrow> 'e option \<times> 's \<times> processor" where
  "assembleExpired sink rng now sp =
     (let (s, p) = sp
      in if maxWait p \<le> 0 then (None, s, p)
         else assemble sink rng (Some (now - maxWait p)) (s, p))"

definition Flush ::
  "('s, 'e) sink_write option \<Rightarrow> range_fn \<Rightarrow> 's \<times> processor \<Rightarrow> 'e option \<times> 's \<times> processor" where
  "Flush sink rng sp = assemble sink rng None sp"

text \<open>One signal: ignored when it is not a tool call, buffered at time \<open>now\<close> otherwise.\<close>

definition take_signal :: "int \<Rightarrow> execution option \<times> string \<Rightarrow> processor \<Rightarrow> processor" where
  "take_signal now es p =
     (case es of (None, _) \<Rightarrow> count_stat call_ignored p | (Some ex, signal) \<Rightarrow> buffer now ex signal p)"

fun consume_logs ::
  "float_lib \<Rightarrow> (nat \<Rightarrow> int) \<Rightarrow> log_record option list \<Rightarrow> processor \<Rightarrow> processor" where
  "consume_logs fl now [] p = p"
| "consume_logs fl now (r # rs) p =
     consume_logs fl (\<lambda>i. now (Suc i)) rs
       (take_signal (now 0) (FromLogRecord fl r, SignalLogs) (count_stat log_seen p))"

fun consume_spans ::
  "float_lib \<Rightarrow> (nat \<Rightarrow> int) \<Rightarrow> span option list \<Rightarrow> processor \<Rightarrow> processor" where
  "consume_spans fl now [] p = p"
| "consume_spans fl now (r # rs) p =
     consume_spans fl (\<lambda>i. now (Suc i)) rs
       (take_signal (now 0) (FromSpan fl r, SignalTraces) (count_stat span_seen p))"

definition ConsumeLogRecords ::
  "float_lib \<Rightarrow> ('s, 'e) sink_write option \<Rightarrow> range_fn \<Rightarrow> (nat \<Rightarrow> int) \<Rightarrow> log_record option list
     \<Rightarrow> 's \<times> processor \<Rightarrow> 'e option \<times> 's \<times> processor" where
  "ConsumeLogRecords fl sink rng now records sp =
     (case sp of (s, p) \<Rightarrow>
        assembleExpired sink rng (now (length records)) (s, consume_logs fl now records p))"

definition ConsumeSpans ::
  "float_lib \<Rightarrow> ('s, 'e) sink_write option \<Rightarrow> range_fn \<Rightarrow> (nat \<Rightarrow> int) \<Rightarrow> span option list
     \<Rightarrow> 's \<times> processor \<Rightarrow> 'e option \<times> 's \<times> processor" where
  "ConsumeSpans fl sink rng now spns sp =
     (case sp of (s, p) \<Rightarrow>
        assembleExpired sink rng (now (length spns)) (s, consume_spans fl now spns p))"

end
