(* ===== verification/ProcessorInv.thy ===== *)
theory ProcessorInv
  imports Processor
begin

text \<open>
  The invariant of the processor's buffers and what every locked region does to it. The
  active maps, the maps of signals that arrived while their key was in flight, and the set of
  emitted keys are kept apart; a record sits under its own join key; what is pending belongs
  to a key in flight, and what is in flight is still buffered. \<open>batch_inv\<close> relates a claimed
  batch to the state while it is written out, \<open>settled\<close> counts the signals accounted for.
\<close>

section \<open>Well-formed buffers\<close>

definition keyed :: "string \<Rightarrow> execution \<Rightarrow> bool" where
  "keyed key ex \<longleftrightarrow> key \<noteq> [] \<and> JoinKey (TraceID ex) (SpanID ex) = key \<and> exec_wf ex"

definition proc_inv :: "processor \<Rightarrow> bool" where
  "proc_inv p \<longleftrightarrow>
     fmpred keyed (spans p) \<and> fmpred keyed (logs p) \<and>
     fmpred keyed (pendingSpans p) \<and> fmpred keyed (pendingLogs p) \<and>
     fmdom' (firstSeen p) = fmdom' (spans p) \<union> fmdom' (logs p) \<and>
     fmdom' (pendingFirstSeen p) = fmdom' (pendingSpans p) \<union> fmdom' (pendingLogs p) \<and>
     fmdom' (pendingSignals p) = fmdom' (pendingFirstSeen p) \<and>
     fmdom' (pendingFirstSeen p) \<subseteq> inFlight p \<and>
     inFlight p \<subseteq> fmdom' (firstSeen p) \<and>
     emitted p \<inter> fmdom' (firstSeen p) = {}"

lemma proc_invD:
  assumes "proc_inv p"
  shows "fmpred keyed (spans p)" and "fmpred keyed (logs p)"
    and "fmdom' (firstSeen p) = fmdom' (spans p) \<union> fmdom' (logs p)"
    and "fmdom' (pendingFirstSeen p) \<subseteq> inFlight p"
    and "inFlight p \<subseteq> fmdom' (firstSeen p)"
    and "emitted p \<inter> fmdom' (firstSeen p) = {}"
    and "fmdom' (pendingSignals p) = fmdom' (pendingFirstSeen p)"
  using assms unfolding proc_inv_def by blast+

lemma keyed_JoinKey: "keyed key ex \<Longrightarrow> TraceID ex \<noteq> [] \<and> SpanID ex \<noteq> []"
  by (auto simp: keyed_def JoinKey_def Let_def split: if_splits)

lemma keyed_merge [wf_intros]: "keyed key a \<Longrightarrow> exec_wf b \<Longrightarrow> keyed key (merge a b)"
  using keyed_JoinKey [of key a] by (auto simp: keyed_def merge_wf)

lemma exec_wf_stamp [simp]: "exec_wf (stamp p ex) = exec_wf ex"
  by (simp add: stamp_def exec_wf_def)

lemma stamp_ids [simp]: "TraceID (stamp p ex) = TraceID ex" "SpanID (stamp p ex) = SpanID ex"
  by (simp_all add: stamp_def)

lemma keyed_stamp [simp]: "keyed key (stamp p ex) = keyed key ex"
  by (simp add: keyed_def)

lemma keyed_wf: "keyed key ex \<Longrightarrow> exec_wf ex"
  by (simp add: keyed_def)

subsection \<open>The storing operations\<close>

lemma fmdom'_put_merged [simp]: "fmdom' (put_merged key ex m) = insert key (fmdom' m)"
  by (simp add: put_merged_def)

lemma fmdom'_put_first [simp]: "fmdom' (put_first key t m) = insert key (fmdom' m)"
  by (auto simp: put_first_def fmlookup_dom'_iff split: option.splits)

lemma fmdom'_fold_back:
  "fmdom' (fold_back key pend m) = (if key \<in> fmdom' pend then insert key (fmdom' m) else fmdom' m)"
  by (auto simp: fold_back_def in_fmdom'_iff split: option.splits)

lemma keyed_put_merged [wf_intros]:
  assumes "fmpred keyed m" and "keyed key ex"
  shows "fmpred keyed (put_merged key ex m)"
  using assms
  by (auto simp: put_merged_def split: option.split
      intro!: fmpred_upd keyed_merge keyed_wf [of key] dest: fmpredD)

lemma keyed_fold_back [wf_intros]:
  "fmpred keyed m \<Longrightarrow> fmpred keyed pend \<Longrightarrow> fmpred keyed (fold_back key pend m)"
  by (auto simp: fold_back_def split: option.split intro: keyed_put_merged dest: fmpredD)

section \<open>The regions keep the invariant\<close>

lemma proc_inv_new: "proc_inv (NewProcessor wait)"
  by (simp add: proc_inv_def NewProcessor_def)

lemma count_fields [simp]:
  "spans (count_stat fn p) = spans p" "logs (count_stat fn p) = logs p"
  "firstSeen (count_stat fn p) = firstSeen p" "pendingSpans (count_stat fn p) = pendingSpans p"
  "pendingLogs (count_stat fn p) = pendingLogs p"
  "pendingFirstSeen (count_stat fn p) = pendingFirstSeen p"
  "pendingSignals (count_stat fn p) = pendingSignals p" "inFlight (count_stat fn p) = inFlight p"
  "emitted (count_stat fn p) = emitted p" "stats (count_stat fn p) = fn (stats p)"
  "maxWait (count_stat fn p) = maxWait p" "observerID (count_stat fn p) = observerID p"
  "observerVersion (count_stat fn p) = observerVersion p"
  by (simp_all add: count_stat_def)

lemma proc_inv_count_stat [simp]: "proc_inv (count_stat fn p) = proc_inv p"
  by (simp add: proc_inv_def)

lemma proc_inv_write_failed [simp]: "proc_inv (write_failed p) = proc_inv p"
  by (simp add: write_failed_def)

lemma proc_inv_SetObserver [simp]: "proc_inv (SetObserver i v p) = proc_inv p"
  by (simp add: proc_inv_def SetObserver_def)

lemma hasPending_iff: "hasPending key p \<longleftrightarrow> key \<in> fmdom' (pendingFirstSeen p)"
  by (simp add: hasPending_def in_fmdom'_iff)

lemma proc_inv_buffer:
  assumes "proc_inv p" and "exec_wf ex"
  shows "proc_inv (buffer now ex signal p)"
proof (cases "JoinKey (TraceID ex) (SpanID ex) = [] \<or> JoinKey (TraceID ex) (SpanID ex) \<in> emitted p")
  case True
  with assms(1) show ?thesis by (auto simp: buffer_def Let_def)
next
  case False
  let ?key = "JoinKey (TraceID ex) (SpanID ex)"
  from False assms(2) have k: "keyed ?key (stamp p ex)" by (simp add: keyed_def)
  have "hasPending ?key p \<Longrightarrow> ?key \<in> inFlight p"
    using assms(1) by (auto simp: hasPending_iff proc_inv_def)
  then show ?thesis
    using False assms(1) keyed_put_merged [OF _ k]
    by (cases "signal = SignalLogs"; cases "?key \<in> inFlight p")
      (auto simp: buffer_def Let_def proc_inv_def)
qed

lemma buffer_frame [simp]:
  "inFlight (buffer now ex signal p) = inFlight p"
  "emitted (buffer now ex signal p) = emitted p"
  by (simp_all add: buffer_def Let_def)

lemma discardPending_simps:
  "discardPending key p = (pending_count key p,
     p\<lparr>pendingSpans := fmdrop key (pendingSpans p),
       pendingLogs := fmdrop key (pendingLogs p),
       pendingFirstSeen := fmdrop key (pendingFirstSeen p),
       pendingSignals := fmdrop key (pendingSignals p)\<rparr>)"
  by (rule discardPending_def)

lemma ack_key_fields [simp]:
  "spans (ack_key key p) = fmdrop key (spans p)"
  "logs (ack_key key p) = fmdrop key (logs p)"
  "firstSeen (ack_key key p) = fmdrop key (firstSeen p)"
  "pendingSpans (ack_key key p) = fmdrop key (pendingSpans p)"
  "pendingLogs (ack_key key p) = fmdrop key (pendingLogs p)"
  "pendingFirstSeen (ack_key key p) = fmdrop key (pendingFirstSeen p)"
  "pendingSignals (ack_key key p) = fmdrop key (pendingSignals p)"
  "inFlight (ack_key key p) = inFlight p - {key}"
  "emitted (ack_key key p) = insert key (emitted p)"
  "stats (ack_key key p) =
     (stats p)\<lparr>LateSignalsIgnored := LateSignalsIgnored (stats p) + pending_count key p\<rparr>"
  by (simp_all add: ack_key_def discardPending_def Let_def pending_count_def)

lemma proc_inv_ack_key: "proc_inv p \<Longrightarrow> proc_inv (ack_key key p)"
  by (auto simp: proc_inv_def intro: fmpred_drop)

lemma proc_inv_fold:
  "(\<And>q k. proc_inv q \<Longrightarrow> proc_inv (f k q)) \<Longrightarrow> proc_inv p \<Longrightarrow> proc_inv (fold f ks p)"
  by (induction ks arbitrary: p) auto

lemma fold_ack_fields [simp]:
  "inFlight (fold ack_key ks p) = inFlight p - set ks"
  "emitted (fold ack_key ks p) = emitted p \<union> set ks"
  "fmdom' (firstSeen (fold ack_key ks p)) = fmdom' (firstSeen p) - set ks"
  by (induction ks arbitrary: p) auto

lemma acknowledge_fields [simp]:
  "inFlight (acknowledge a p) = inFlight p - set (a_consumedKeys a)"
  "emitted (acknowledge a p) = emitted p \<union> set (a_consumedKeys a)"
  "fmdom' (firstSeen (acknowledge a p)) = fmdom' (firstSeen p) - set (a_consumedKeys a)"
  by (simp_all add: acknowledge_def)

lemma proc_inv_acknowledge: "proc_inv p \<Longrightarrow> proc_inv (acknowledge a p)"
  by (simp add: acknowledge_def proc_inv_fold proc_inv_ack_key)

lemma restore_key_fields:
  assumes "proc_inv p"
  shows "inFlight (restore_key key p) = inFlight p - {key}"
    and "emitted (restore_key key p) = emitted p"
    and "fmdom' (firstSeen (restore_key key p)) = fmdom' (firstSeen p)"
    and "stats (restore_key key p) = stats p"
    and "pendingSignals (restore_key key p) = fmdrop key (pendingSignals p)"
proof -
  have "key \<in> fmdom' (pendingFirstSeen p) \<Longrightarrow> key \<in> fmdom' (firstSeen p)"
    using assms unfolding proc_inv_def by blast
  moreover have "key \<notin> fmdom' (pendingFirstSeen p) \<Longrightarrow> fmdrop key (pendingSignals p) = pendingSignals p"
    using assms by (intro fmdrop_idle') (auto simp: proc_inv_def)
  ultimately show "inFlight (restore_key key p) = inFlight p - {key}"
    "emitted (restore_key key p) = emitted p"
    "fmdom' (firstSeen (restore_key key p)) = fmdom' (firstSeen p)"
    "stats (restore_key key p) = stats p"
    "pendingSignals (restore_key key p) = fmdrop key (pendingSignals p)"
    by (auto simp: restore_key_def mergePendingIntoActive_def in_fmdom'_iff split: option.splits)
qed

lemma proc_inv_restore_key:
  assumes "proc_inv p"
  shows "proc_inv (restore_key key p)"
proof (cases "fmlookup (pendingFirstSeen p) key")
  case None
  then have "key \<notin> fmdom' (pendingFirstSeen p)" by (simp add: in_fmdom'_iff)
  with None assms show ?thesis
    by (auto simp: proc_inv_def restore_key_def mergePendingIntoActive_def)
next
  case (Some seen)
  then have "key \<in> fmdom' (pendingFirstSeen p)" by (simp add: in_fmdom'_iff)
  with assms have "key \<in> fmdom' (firstSeen p)"
    "key \<in> fmdom' (pendingSpans p) \<union> fmdom' (pendingLogs p)" unfolding proc_inv_def by blast+
  with Some assms show ?thesis
    by (auto simp: proc_inv_def restore_key_def mergePendingIntoActive_def fmdom'_fold_back
        intro: fmpred_drop keyed_fold_back)
qed

lemma fold_restore_fields:
  assumes "proc_inv p"
  shows "proc_inv (fold restore_key ks p)"
    and "inFlight (fold restore_key ks p) = inFlight p - set ks"
    and "emitted (fold restore_key ks p) = emitted p"
    and "fmdom' (firstSeen (fold restore_key ks p)) = fmdom' (firstSeen p)"
    and "stats (fold restore_key ks p) = stats p"
  using assms
  by (induction ks arbitrary: p) (auto simp: proc_inv_restore_key restore_key_fields)

lemma restoreReserved_fields:
  assumes "proc_inv p"
  shows "proc_inv (restoreReserved out p)"
    and "inFlight (restoreReserved out p) = inFlight p - set (concat (map a_consumedKeys out))"
    and "emitted (restoreReserved out p) = emitted p"
    and "fmdom' (firstSeen (restoreReserved out p)) = fmdom' (firstSeen p)"
    and "stats (restoreReserved out p) = stats p"
  using fold_restore_fields [OF assms, of "remdups (concat (map a_consumedKeys out))"]
  by (simp_all only: restoreReserved_def set_remdups)

end
