(* ===== verification/Batch.thy ===== *)
theory Batch
  imports ProcessorInv
begin

text \<open>
  Claiming a batch: what \<open>readyKeys\<close>, \<open>childOf\<close>, \<open>assembleKey\<close> and \<open>claim\<close> yield, and the
  relation \<open>batch_inv\<close> between a claimed batch and the processor that writing it out keeps.
\<close>

section \<open>readyKeys and childOf\<close>

definition is_ready :: "int option \<Rightarrow> processor \<Rightarrow> string \<Rightarrow> bool" where
  "is_ready cutoff p key \<longleftrightarrow>
     (\<exists>seen. fmlookup (firstSeen p) key = Some seen \<and> (case cutoff of None \<Rightarrow> True | Some c \<Rightarrow> seen < c))"

lemma set_readyKeys: "set (readyKeys cutoff p) = {key. is_ready cutoff p key}"
  by (auto simp: readyKeys_def is_ready_def in_fmdom'_iff split: option.splits)

lemma sorted_distinct_readyKeys: "sorted (readyKeys cutoff p)" "distinct (readyKeys cutoff p)"
  by (simp_all add: readyKeys_def sorted_filter [where f = "\<lambda>x. x", simplified])

lemma is_ready_firstSeen: "is_ready cutoff p key \<Longrightarrow> key \<in> fmdom' (firstSeen p)"
  by (auto simp: is_ready_def in_fmdom'_iff)

lemma is_ready_Flush: "is_ready None p key \<longleftrightarrow> key \<in> fmdom' (firstSeen p)"
  by (auto simp: is_ready_def in_fmdom'_iff)

text \<open>A client span stored at \<open>c\<close> names \<open>key\<close> as its parent.\<close>

definition claims_parent :: "processor \<Rightarrow> string \<Rightarrow> string \<Rightarrow> bool" where
  "claims_parent p c key \<longleftrightarrow>
     (\<exists>sp. fmlookup (spans p) c = Some sp \<and> names_parent sp \<and> parent_key sp = key)"

lemma childOf_fold:
  "fmlookup (fold (\<lambda>key m. case fmlookup (spans p) key of
        None \<Rightarrow> m
      | Some sp \<Rightarrow> if names_parent sp then fmupd (parent_key sp) key m else m) ks m0) k =
   (case find (\<lambda>c. claims_parent p c k) (rev ks) of Some c \<Rightarrow> Some c | None \<Rightarrow> fmlookup m0 k)"
proof (induction ks rule: rev_induct)
  case (snoc c ks)
  then show ?case
    by (cases "fmlookup (spans p) c") (auto simp: claims_parent_def)
qed simp

lemma childOf_lookup:
  "fmlookup (childOf rng p) k = find (\<lambda>c. claims_parent p c k) (rev (rng (fmdom (spans p))))"
  unfolding childOf_def childOf_fold by (simp split: option.split)

lemma childOf_Some: "fmlookup (childOf rng p) k = Some c \<Longrightarrow> claims_parent p c k"
  by (auto simp: childOf_lookup find_Some_iff)

lemma childOf_None:
  assumes "range_order rng" and "fmlookup (childOf rng p) k = None"
  shows "\<not> claims_parent p c k"
proof
  assume c: "claims_parent p c k"
  then have "c \<in> set (rng (fmdom (spans p)))"
    using range_order_set [OF assms(1)] by (auto simp: claims_parent_def fmdomI)
  with assms(2) c show False by (auto simp: childOf_lookup find_None_iff)
qed

lemma suppressed_cases:
  assumes "range_order rng" and "\<not> suppressed (childOf rng p) key"
  shows "(\<forall>c. \<not> claims_parent p c key) \<or> claims_parent p key key"
  using assms childOf_None [OF assms(1)] childOf_Some [of rng p key]
  by (auto simp: suppressed_def split: option.splits)

lemma suppressed_claimed:
  "suppressed (childOf rng p) key \<Longrightarrow> \<exists>c. c \<noteq> key \<and> claims_parent p c key"
  by (auto simp: suppressed_def split: option.splits dest: childOf_Some)

lemma claimed_suppressed:
  assumes "range_order rng" and "claims_parent p c key" and "\<not> claims_parent p key key"
  shows "suppressed (childOf rng p) key"
  using assms suppressed_cases [OF assms(1), of p key] by blast

section \<open>assembleKey\<close>

lemma assembleKey_None:
  "assembleKey key p = None \<longleftrightarrow> fmlookup (spans p) key = None \<and> fmlookup (logs p) key = None"
  by (auto simp: assembleKey_def Let_def split: option.splits)

lemma mergeParent_fields [simp]:
  "a_key (mergeParent a k p) = a_key a"
  "a_consumedKeys (mergeParent a k p) =
     a_consumedKeys a @ (if k \<in> fmdom' (spans p) \<union> fmdom' (logs p) then [k] else [])"
  by (auto simp: mergeParent_def Let_def in_fmdom'_iff split: option.splits)

lemma assembleKey_consumed:
  assumes "assembleKey key p = Some a"
  shows "a_key a = key"
    and "a_consumedKeys a =
      key # (case fmlookup (spans p) key of
          None \<Rightarrow> []
        | Some sp \<Rightarrow>
            if names_parent sp \<and> parent_key sp \<in> fmdom' (spans p) \<union> fmdom' (logs p)
            then [parent_key sp] else [])"
  using assms
  by (auto simp: assembleKey_def Let_def split: option.splits if_splits)

lemma mergeParent_keyed:
  assumes "keyed key (a_ex a)" and "fmpred keyed (spans p)" and "fmpred keyed (logs p)"
  shows "keyed key (a_ex (mergeParent a k p))"
  using assms
  by (auto simp: mergeParent_def Let_def split: option.split
      intro!: keyed_merge intro: keyed_wf dest: fmpredD)

lemma assembleKey_keyed:
  assumes "assembleKey key p = Some a" and "proc_inv p"
  shows "keyed key (a_ex a)"
proof -
  from assms(2) have f: "fmpred keyed (spans p)" "fmpred keyed (logs p)"
    by (auto simp: proc_inv_def)
  then have l: "exec_wf e" if "fmlookup (logs p) k = Some e" for k e
    using that keyed_wf by (meson fmpredD)
  show ?thesis
  proof (cases "fmlookup (spans p) key")
    case None
    with assms(1) f show ?thesis
      by (auto simp: assembleKey_def split: option.splits dest: fmpredD)
  next
    case (Some sp)
    with f have "keyed key sp" by (auto dest: fmpredD)
    with f have "keyed key (a_ex (mergeParent b k p))" if "a_ex b = sp" for b k
      using that mergeParent_keyed by simp
    with Some assms(1) \<open>keyed key sp\<close> show ?thesis
      by (auto simp: assembleKey_def Let_def split: option.splits
          intro!: keyed_merge intro: l)
  qed
qed

section \<open>The snapshot\<close>

lemma set_map_filter: "set (List.map_filter f xs) = {y. \<exists>x \<in> set xs. f x = Some y}"
  by (induction xs) (auto simp: List.map_filter_simps split: option.splits)

lemma in_snapshot:
  "a \<in> set (snapshot cutoff rng p) \<longleftrightarrow>
     (\<exists>key. is_ready cutoff p key \<and> \<not> suppressed (childOf rng p) key \<and> assembleKey key p = Some a)"
  by (auto simp: snapshot_def Let_def set_map_filter set_readyKeys split: if_splits)

lemma keys_map_filter:
  assumes "\<And>x y. f x = Some y \<Longrightarrow> g y = x"
  shows "map g (List.map_filter f xs) = filter (\<lambda>x. f x \<noteq> None) xs"
  using assms by (induction xs) (auto simp: List.map_filter_simps split: option.split)

lemma snapshot_keys:
  "map a_key (snapshot cutoff rng p) =
     filter (\<lambda>key. \<not> suppressed (childOf rng p) key \<and> assembleKey key p \<noteq> None)
       (readyKeys cutoff p)"
proof -
  let ?f = "\<lambda>key. if suppressed (childOf rng p) key then None else assembleKey key p"
  have "map a_key (List.map_filter ?f (readyKeys cutoff p)) =
      filter (\<lambda>key. ?f key \<noteq> None) (readyKeys cutoff p)"
    by (rule keys_map_filter) (auto split: if_splits dest: assembleKey_consumed)
  then show ?thesis by (simp add: snapshot_def Let_def cong: conj_cong)
qed

lemma snapshot_sorted:
  "sorted (map a_key (snapshot cutoff rng p))" "distinct (map a_key (snapshot cutoff rng p))"
  using sorted_distinct_readyKeys [of cutoff p]
  by (simp_all add: snapshot_keys sorted_filter [where f = "\<lambda>x. x", simplified])

text \<open>The snapshot is in key order already, so the sort after it changes nothing.\<close>

lemma claim_snapshot:
  "claim cutoff rng p =
     (snapshot cutoff rng p,
      p\<lparr>inFlight := inFlight p \<union> set (concat (map a_consumedKeys (snapshot cutoff rng p)))\<rparr>)"
  by (simp add: claim_def Let_def sort_key_id_if_sorted snapshot_sorted)

section \<open>A batch and the state it was claimed from\<close>

definition consumed :: "assembled list \<Rightarrow> string set" where
  "consumed out = set (concat (map a_consumedKeys out))"

lemma consumed_simps [simp]:
  "consumed [] = {}" "consumed (a # out) = set (a_consumedKeys a) \<union> consumed out"
  by (simp_all add: consumed_def)

lemma in_consumed: "a \<in> set out \<Longrightarrow> set (a_consumedKeys a) \<subseteq> consumed out"
  by (auto simp: consumed_def)

definition batch_inv :: "processor \<Rightarrow> assembled list \<Rightarrow> bool" where
  "batch_inv p out \<longleftrightarrow>
     distinct (map a_key out) \<and>
     (\<forall>a \<in> set out. keyed (a_key a) (a_ex a) \<and> a_key a \<in> set (a_consumedKeys a) \<and>
        set (a_consumedKeys a) \<subseteq> inFlight p \<union> emitted p) \<and>
     inFlight p \<subseteq> consumed out \<and>
     (\<forall>a \<in> set out. \<forall>b \<in> set out. a_key a \<in> set (a_consumedKeys b) \<longrightarrow>
        a = b \<or> set (a_consumedKeys a) = {a_key a}) \<and>
     (\<forall>a \<in> set out. a_key a \<in> emitted p \<longrightarrow> set (a_consumedKeys a) = {a_key a})"

lemma snapshot_members:
  assumes "proc_inv p" and "a \<in> set (snapshot cutoff rng p)"
  shows "keyed (a_key a) (a_ex a)" and "a_key a \<in> set (a_consumedKeys a)"
    and "set (a_consumedKeys a) \<subseteq> fmdom' (firstSeen p)"
    and "\<not> suppressed (childOf rng p) (a_key a)"
    and "k \<in> set (a_consumedKeys a) \<Longrightarrow> k = a_key a \<or> claims_parent p (a_key a) k"
    and "claims_parent p (a_key a) k \<Longrightarrow> set (a_consumedKeys a) \<subseteq> {a_key a, k}"
proof -
  from assms(2) obtain key where
    key: "is_ready cutoff p key" "\<not> suppressed (childOf rng p) key" "assembleKey key p = Some a"
    by (auto simp: in_snapshot)
  note c = assembleKey_consumed [OF key(3)]
  show "keyed (a_key a) (a_ex a)" using assembleKey_keyed [OF key(3) assms(1)] c by simp
  show "a_key a \<in> set (a_consumedKeys a)" using c by simp
  show "\<not> suppressed (childOf rng p) (a_key a)" using key c by simp
  show "set (a_consumedKeys a) \<subseteq> fmdom' (firstSeen p)"
    using c is_ready_firstSeen [OF key(1)] assms(1)
    by (auto simp: proc_inv_def split: option.splits if_splits)
  show "k \<in> set (a_consumedKeys a) \<Longrightarrow> k = a_key a \<or> claims_parent p (a_key a) k"
    using c by (auto simp: claims_parent_def split: option.splits if_splits)
  show "claims_parent p (a_key a) k \<Longrightarrow> set (a_consumedKeys a) \<subseteq> {a_key a, k}"
    using c by (auto simp: claims_parent_def split: option.splits if_splits)
qed

lemma claim_inv:
  assumes "proc_inv p" and "range_order rng" and "inFlight p = {}"
    and "claim cutoff rng p = (out, p')"
  shows "proc_inv p'" and "batch_inv p' out" and "inFlight p' = consumed out"
    and "emitted p' = emitted p"
proof -
  have out: "out = snapshot cutoff rng p"
    and p': "p' = p\<lparr>inFlight := inFlight p \<union> consumed out\<rparr>"
    using assms(4) by (auto simp: claim_snapshot consumed_def)
  note mem = snapshot_members [OF assms(1), of _ cutoff rng, folded out]
  have sub: "consumed out \<subseteq> fmdom' (firstSeen p)"
    using mem(3) by (auto simp: consumed_def)
  with assms(1,3) show "proc_inv p'" by (auto simp: p' proc_inv_def)
  show "inFlight p' = consumed out" "emitted p' = emitted p" by (simp_all add: p' assms(3))
  have self: "set (a_consumedKeys a) = {a_key a}"
    if "a \<in> set out" "b \<in> set out" "a_key a \<in> set (a_consumedKeys b)" "a \<noteq> b" for a b
  proof -
    have "a_key a \<noteq> a_key b"
      using that(1,2,4) snapshot_sorted(2) [of cutoff rng p] by (auto simp: out distinct_map inj_on_def)
    with that mem(5) [of b] have "claims_parent p (a_key b) (a_key a)" by blast
    with mem(4) [OF that(1)] have "claims_parent p (a_key a) (a_key a)"
      using suppressed_cases [OF assms(2)] by blast
    then show ?thesis using mem(2,6) [OF that(1)] by blast
  qed
  have "a_key a \<notin> emitted p" if "a \<in> set out" for a
    using mem(2,3) [OF that] assms(1) by (auto simp: proc_inv_def)
  then have "\<forall>a \<in> set out. a_key a \<in> emitted p' \<longrightarrow> set (a_consumedKeys a) = {a_key a}"
    by (simp add: p')
  moreover have "\<forall>a \<in> set out. keyed (a_key a) (a_ex a) \<and> a_key a \<in> set (a_consumedKeys a) \<and>
      set (a_consumedKeys a) \<subseteq> inFlight p' \<union> emitted p'"
    using mem(1,2) in_consumed [of _ out] by (auto simp: p')
  moreover have "\<forall>a \<in> set out. \<forall>b \<in> set out. a_key a \<in> set (a_consumedKeys b) \<longrightarrow>
      a = b \<or> set (a_consumedKeys a) = {a_key a}"
    using self by blast
  moreover have "inFlight p' \<subseteq> consumed out" by (simp add: p' assms(3))
  moreover have "distinct (map a_key out)" by (simp add: out snapshot_sorted)
  ultimately show "batch_inv p' out" by (simp add: batch_inv_def)
qed

subsection \<open>Writing a batch out keeps the relation\<close>

lemma batch_inv_frame:
  "inFlight q = inFlight p \<Longrightarrow> emitted q = emitted p \<Longrightarrow> batch_inv q out = batch_inv p out"
  by (simp add: batch_inv_def)

lemma batch_inv_Nil: "batch_inv p [] \<longleftrightarrow> inFlight p = {}"
  by (auto simp: batch_inv_def)

lemma batch_inv_ack:
  assumes "batch_inv p (a # out)"
  shows "batch_inv (acknowledge a p) out"
  using assms unfolding batch_inv_def by auto

lemma batch_inv_skip:
  assumes "proc_inv p" and "batch_inv p (a # out)" and "a_key a \<in> emitted p"
  shows "batch_inv p out"
proof -
  have "set (a_consumedKeys a) = {a_key a}" using assms(2,3) by (simp add: batch_inv_def)
  moreover have "a_key a \<notin> inFlight p" using assms(1,3) unfolding proc_inv_def by blast
  ultimately show ?thesis using assms(2) by (auto simp: batch_inv_def)
qed

lemma batch_inv_restore:
  assumes "proc_inv p" and "batch_inv p out"
  shows "inFlight (restoreReserved out p) = {}"
  using assms restoreReserved_fields(2) [OF assms(1), of out]
  by (simp add: batch_inv_def consumed_def Diff_eq_empty_iff)

section \<open>Signals accounted for\<close>

definition fmsum :: "('k, nat) fmap \<Rightarrow> nat" where
  "fmsum m = (\<Sum>k \<in> fmdom' m. the (fmlookup m k))"

definition fmget :: "'k \<Rightarrow> ('k, nat) fmap \<Rightarrow> nat" where
  "fmget k m = (case fmlookup m k of None \<Rightarrow> 0 | Some n \<Rightarrow> n)"

lemma finite_fmdom' [simp]: "finite (fmdom' m)"
  by (simp add: fmdom'_alt_def)

lemma fmsum_split: "fmsum m = fmget k m + fmsum (fmdrop k m)"
proof -
  have "fmsum (fmdrop k m) = (\<Sum>j \<in> fmdom' m - {k}. the (fmlookup m j))"
    unfolding fmsum_def by (rule sum.cong) auto
  then show ?thesis
    by (cases "fmlookup m k")
      (auto simp: fmsum_def fmget_def in_fmdom'_iff sum.remove [of _ k] Diff_triv)
qed

lemma fmdrop_upd_same: "fmdrop k (fmupd k v m) = fmdrop k m"
  by (rule fmap_ext) simp

lemma fmsum_upd: "fmsum (fmupd k n m) = n + fmsum (fmdrop k m)"
  using fmsum_split [of "fmupd k n m" k] by (simp add: fmget_def fmdrop_upd_same)

lemma pending_count_fmget: "pending_count k p = fmget k (pendingSignals p)"
  by (simp add: pending_count_def fmget_def)

text \<open>
  Signals whose fate is decided or that are held: not tool calls, without a key, late or
  dropped, pending, and one for every key that is buffered or emitted.
\<close>

definition settled :: "processor \<Rightarrow> nat" where
  "settled p =
     ToolCallsIgnored (stats p) + UnjoinableNoSpan (stats p) + LateSignalsIgnored (stats p)
       + fmsum (pendingSignals p) + card (fmdom' (firstSeen p)) + card (emitted p)"

definition seen :: "processor \<Rightarrow> nat" where
  "seen p = LogRecordsSeen (stats p) + SpansSeen (stats p)"

lemma settled_buffer:
  assumes "proc_inv p"
  shows "settled (buffer now ex signal p) \<le> settled p + 1"
    and "seen (buffer now ex signal p) = seen p"
proof -
  let ?key = "JoinKey (TraceID ex) (SpanID ex)"
  have s: "fmsum (fmupd ?key (pending_count ?key p + 1) (pendingSignals p))
      = fmsum (pendingSignals p) + 1"
    using fmsum_split [of "pendingSignals p" ?key] by (simp add: fmsum_upd pending_count_fmget)
  have c: "card (insert ?key (fmdom' (firstSeen p))) \<le> card (fmdom' (firstSeen p)) + 1"
    by (simp add: card_insert_if)
  show "settled (buffer now ex signal p) \<le> settled p + 1"
    using s c by (auto simp: buffer_def Let_def settled_def)
  show "seen (buffer now ex signal p) = seen p"
    by (auto simp: buffer_def Let_def seen_def)
qed

lemma settled_ack_key:
  assumes "key \<in> fmdom' (firstSeen p) \<union> emitted p" and "proc_inv p" and "finite (emitted p)"
  shows "settled (ack_key key p) = settled p"
proof -
  have d: "emitted p \<inter> fmdom' (firstSeen p) = {}" using assms(2) by (rule proc_invD)
  have "card (fmdom' (firstSeen p) - {key}) + card (insert key (emitted p))
      = card (fmdom' (firstSeen p)) + card (emitted p)"
  proof (cases "key \<in> emitted p")
    case True
    with d have "key \<notin> fmdom' (firstSeen p)" by auto
    with True show ?thesis by (simp add: insert_absorb)
  next
    case False
    with assms(1) have f: "key \<in> fmdom' (firstSeen p)" by simp
    have "card (fmdom' (firstSeen p) - {key}) + 1 = card (fmdom' (firstSeen p))"
      using card_Suc_Diff1 [OF finite_fmdom' f] by simp
    with False assms(3) show ?thesis by simp
  qed
  then show ?thesis
    using fmsum_split [of "pendingSignals p" key]
    by (simp add: settled_def pending_count_fmget)
qed

lemma settled_fold_ack:
  assumes "set ks \<subseteq> fmdom' (firstSeen p) \<union> emitted p" and "proc_inv p" and "finite (emitted p)"
  shows "settled (fold ack_key ks p) = settled p"
  using assms
proof (induction ks arbitrary: p)
  case (Cons k ks)
  then have "settled (ack_key k p) = settled p" by (intro settled_ack_key) auto
  moreover have "settled (fold ack_key ks (ack_key k p)) = settled (ack_key k p)"
    using Cons.prems by (intro Cons.IH) (auto simp: proc_inv_ack_key)
  ultimately show ?case by simp
qed simp

lemma record_emitted_fields [simp]:
  "ToolCallsIgnored (record_emitted a s) = ToolCallsIgnored s"
  "UnjoinableNoSpan (record_emitted a s) = UnjoinableNoSpan s"
  "LateSignalsIgnored (record_emitted a s) = LateSignalsIgnored s"
  "LogRecordsSeen (record_emitted a s) = LogRecordsSeen s"
  "SpansSeen (record_emitted a s) = SpansSeen s"
  "EmittedCount (record_emitted a s) = EmittedCount s + 1"
  "SinkWriteFailures (record_emitted a s) = SinkWriteFailures s"
  by (simp_all add: record_emitted_def Let_def split: correlation.split)

lemma settled_acknowledge:
  assumes "set (a_consumedKeys a) \<subseteq> fmdom' (firstSeen p) \<union> emitted p" and "proc_inv p"
    and "finite (emitted p)"
  shows "settled (acknowledge a p) = settled p"
  using settled_fold_ack [OF assms] by (simp add: acknowledge_def settled_def)

lemma settled_restore_key:
  assumes "proc_inv p"
  shows "settled (restore_key key p) \<le> settled p" and "seen (restore_key key p) = seen p"
  using restore_key_fields [OF assms, of key] fmsum_split [of "pendingSignals p" key]
  by (simp_all add: settled_def seen_def)

lemma settled_restoreReserved:
  assumes "proc_inv p"
  shows "settled (restoreReserved out p) \<le> settled p" and "seen (restoreReserved out p) = seen p"
proof -
  have "settled (fold restore_key ks p) \<le> settled p \<and> seen (fold restore_key ks p) = seen p" for ks
    using assms
  proof (induction ks arbitrary: p)
    case (Cons k ks)
    have "proc_inv (restore_key k p)" using Cons.prems by (rule proc_inv_restore_key)
    with Cons.IH [OF this] show ?case
      using settled_restore_key [OF Cons.prems, of k] by simp
  qed simp
  then show "settled (restoreReserved out p) \<le> settled p" "seen (restoreReserved out p) = seen p"
    by (simp_all add: restoreReserved_def)
qed

section \<open>The counters partition the emitted records\<close>

definition stats_partition :: "stats \<Rightarrow> bool" where
  "stats_partition s \<longleftrightarrow>
     EmittedCount s = CorrelatedCount s + UnattributedCount s + AmbiguousCount s \<and>
     EmittedCount s = EmittedMerged s + EmittedLogOnly s + EmittedSpanOnly s"

lemma stats_partition_emitted: "stats_partition s \<Longrightarrow> stats_partition (record_emitted a s)"
  by (simp add: stats_partition_def record_emitted_def Let_def split: correlation.split)

lemma stats_partition_late [simp]:
  "stats_partition (s\<lparr>LateSignalsIgnored := n\<rparr>) = stats_partition s"
  by (simp add: stats_partition_def)

lemma fold_ack_stats:
  "EmittedCount (stats (fold ack_key ks p)) = EmittedCount (stats p) \<and>
   LogRecordsSeen (stats (fold ack_key ks p)) = LogRecordsSeen (stats p) \<and>
   SpansSeen (stats (fold ack_key ks p)) = SpansSeen (stats p) \<and>
   stats_partition (stats (fold ack_key ks p)) = stats_partition (stats p)"
  by (induction ks arbitrary: p) simp_all

lemma acknowledge_stats:
  "EmittedCount (stats (acknowledge a p)) = EmittedCount (stats p) + 1"
  "seen (acknowledge a p) = seen p"
  "stats_partition (stats p) \<Longrightarrow> stats_partition (stats (acknowledge a p))"
  using fold_ack_stats [of "a_consumedKeys a" p]
  by (simp_all add: acknowledge_def seen_def stats_partition_emitted)

lemma buffer_stats:
  "EmittedCount (stats (buffer now ex signal p)) = EmittedCount (stats p)"
  "stats_partition (stats (buffer now ex signal p)) = stats_partition (stats p)"
  by (auto simp: buffer_def Let_def stats_partition_def)

end
