(* ===== verification/Interleaving.thy ===== *)
theory Interleaving
  imports Batch "HOL-Library.Multiset"
begin

text \<open>
  The processor under concurrency. Receivers call \<open>ConsumeLogRecords\<close> and \<open>ConsumeSpans\<close>
  from many goroutines, and one assembler at a time (the holder of \<open>assembleMu\<close>) claims a
  batch and writes it, releasing \<open>p.mu\<close> before every write. A step is one locked region or
  one sink call; between two steps of the assembler any number of signals may arrive.
  \<open>sys_inv\<close> holds in every reachable state. The sequential methods of
  \<open>Processor\<close> are runs of this system (\<open>emit_all_steps\<close>).
\<close>

section \<open>States and steps\<close>

datatype phase =
    Idle
  | Emitting "assembled list"
  | Writing assembled "assembled list"
  | Written assembled "assembled list"
  | Failed assembled "assembled list"
  | Restoring "assembled list"

text \<open>
  \<open>received\<close> holds the normalized signals that have been counted as seen but not yet
  buffered or counted as ignored; \<open>written\<close> is the history of records the sink accepted.
\<close>

record 's sys =
  proc :: processor
  phase :: phase
  sinkst :: 's
  received :: "(execution option \<times> string) multiset"
  written :: "assembled list"

definition init_sys :: "int \<Rightarrow> 's \<Rightarrow> 's sys" where
  "init_sys wait s0 =
     \<lparr>proc = NewProcessor wait, phase = Idle, sinkst = s0, received = {#}, written = []\<rparr>"

inductive step ::
  "float_lib \<Rightarrow> ('s, 'e) sink_write option \<Rightarrow> 's sys \<Rightarrow> 's sys \<Rightarrow> bool" for fl sink where
  set_observer:
    "step fl sink s (s\<lparr>proc := SetObserver i v (proc s)\<rparr>)"
| receive_log:
    "step fl sink s (s\<lparr>proc := count_stat log_seen (proc s),
       received := add_mset (FromLogRecord fl r, SignalLogs) (received s)\<rparr>)"
| receive_span:
    "step fl sink s (s\<lparr>proc := count_stat span_seen (proc s),
       received := add_mset (FromSpan fl sp, SignalTraces) (received s)\<rparr>)"
| process:
    "es \<in># received s \<Longrightarrow>
     step fl sink s (s\<lparr>proc := take_signal now es (proc s), received := received s - {#es#}\<rparr>)"
| begin_assembly:
    "phase s = Idle \<Longrightarrow> range_order rng \<Longrightarrow> claim cutoff rng (proc s) = (out, p') \<Longrightarrow>
     step fl sink s (s\<lparr>proc := p', phase := Emitting out\<rparr>)"
| emit_skip:
    "phase s = Emitting (a # out) \<Longrightarrow> a_key a \<in> emitted (proc s) \<Longrightarrow>
     step fl sink s (s\<lparr>phase := Emitting out\<rparr>)"
| emit_start:
    "phase s = Emitting (a # out) \<Longrightarrow> a_key a \<notin> emitted (proc s) \<Longrightarrow>
     step fl sink s (s\<lparr>phase := Writing a out\<rparr>)"
| write_ok:
    "phase s = Writing a out \<Longrightarrow> sink_call sink (sinkst s) (a_ex a) = (None, s') \<Longrightarrow>
     step fl sink s (s\<lparr>phase := Written a out, sinkst := s', written := written s @ [a]\<rparr>)"
| write_err:
    "phase s = Writing a out \<Longrightarrow> sink_call sink (sinkst s) (a_ex a) = (Some e, s') \<Longrightarrow>
     step fl sink s (s\<lparr>phase := Failed a out, sinkst := s'\<rparr>)"
| ack:
    "phase s = Written a out \<Longrightarrow>
     step fl sink s (s\<lparr>proc := acknowledge a (proc s), phase := Emitting out\<rparr>)"
| count_failure:
    "phase s = Failed a out \<Longrightarrow>
     step fl sink s (s\<lparr>proc := write_failed (proc s), phase := Restoring (a # out)\<rparr>)"
| restore:
    "phase s = Restoring out \<Longrightarrow>
     step fl sink s (s\<lparr>proc := restoreReserved out (proc s), phase := Idle\<rparr>)"
| finish:
    "phase s = Emitting [] \<Longrightarrow> step fl sink s (s\<lparr>phase := Idle\<rparr>)"

inductive reachable ::
  "float_lib \<Rightarrow> ('s, 'e) sink_write option \<Rightarrow> int \<Rightarrow> 's \<Rightarrow> 's sys \<Rightarrow> bool" for fl sink wait s0 where
  start: "reachable fl sink wait s0 (init_sys wait s0)"
| more: "reachable fl sink wait s0 s \<Longrightarrow> step fl sink s t \<Longrightarrow> reachable fl sink wait s0 t"

section \<open>The invariant\<close>

fun remaining :: "phase \<Rightarrow> assembled list" where
  "remaining Idle = []"
| "remaining (Emitting out) = out"
| "remaining (Writing a out) = a # out"
| "remaining (Written a out) = a # out"
| "remaining (Failed a out) = a # out"
| "remaining (Restoring out) = out"

text \<open>The record that is in the sink but not yet acknowledged, and the one being written.\<close>

fun unacked :: "phase \<Rightarrow> assembled list" where
  "unacked (Written a out) = [a]"
| "unacked _ = []"

fun current :: "phase \<Rightarrow> assembled list" where
  "current (Writing a out) = [a]"
| "current (Written a out) = [a]"
| "current _ = []"

definition log_inv :: "'s sys \<Rightarrow> bool" where
  "log_inv s \<longleftrightarrow>
     distinct (map a_key (written s)) \<and>
     (\<forall>a \<in> set (written s). keyed (a_key a) (a_ex a)) \<and>
     a_key ` set (written s) \<subseteq> emitted (proc s) \<union> a_key ` set (unacked (phase s)) \<and>
     (\<forall>a \<in> set (current (phase s)). a_key a \<notin> emitted (proc s)) \<and>
     length (written s) = EmittedCount (stats (proc s)) + length (unacked (phase s))"

definition count_inv :: "'s sys \<Rightarrow> bool" where
  "count_inv s \<longleftrightarrow>
     finite (emitted (proc s)) \<and>
     EmittedCount (stats (proc s)) \<le> card (emitted (proc s)) \<and>
     settled (proc s) + size (received s) \<le> seen (proc s) \<and>
     stats_partition (stats (proc s))"

definition sys_inv :: "'s sys \<Rightarrow> bool" where
  "sys_inv s \<longleftrightarrow>
     proc_inv (proc s) \<and> batch_inv (proc s) (remaining (phase s)) \<and> log_inv s \<and> count_inv s \<and>
     (\<forall>ex sg. (Some ex, sg) \<in># received s \<longrightarrow> exec_wf ex)"

lemma sys_invD:
  assumes "sys_inv s"
  shows "proc_inv (proc s)" and "batch_inv (proc s) (remaining (phase s))" and "log_inv s"
    and "count_inv s" and "(Some ex, sg) \<in># received s \<Longrightarrow> exec_wf ex"
  using assms by (auto simp: sys_inv_def)

lemma NewProcessor_facts [simp]:
  "inFlight (NewProcessor wait) = {}" "emitted (NewProcessor wait) = {}"
  "stats (NewProcessor wait) = zero_stats" "pendingSignals (NewProcessor wait) = fmempty"
  "firstSeen (NewProcessor wait) = fmempty"
  by (simp_all add: NewProcessor_def)

lemma zero_stats_facts: "settled (NewProcessor wait) = 0" "seen (NewProcessor wait) = 0"
  "EmittedCount zero_stats = 0" "stats_partition zero_stats"
  by (simp_all add: settled_def seen_def fmsum_def zero_stats_def stats_partition_def)

lemma sys_inv_init: "sys_inv (init_sys wait s0)"
  by (simp add: sys_inv_def init_sys_def proc_inv_new batch_inv_Nil log_inv_def count_inv_def
      zero_stats_facts)

subsection \<open>What a step of a receiver does\<close>

lemma call_ignored_partition: "stats_partition (call_ignored t) = stats_partition t"
  by (simp add: call_ignored_def stats_partition_def)

text \<open>A step of a receiver changes neither what is in flight nor what is emitted.\<close>

lemma take_signal_frame [simp]:
  "inFlight (take_signal now es p) = inFlight p"
  "emitted (take_signal now es p) = emitted p"
  "EmittedCount (stats (take_signal now es p)) = EmittedCount (stats p)"
  "stats_partition (stats (take_signal now es p)) = stats_partition (stats p)"
  by (simp_all add: take_signal_def buffer_stats call_ignored_partition
      split: option.split prod.split)
    (simp add: call_ignored_def)

lemma take_signal_inv:
  assumes "proc_inv p" and "\<forall>ex sg. es = (Some ex, sg) \<longrightarrow> exec_wf ex"
  shows "proc_inv (take_signal now es p)"
    and "settled (take_signal now es p) \<le> settled p + 1"
    and "seen (take_signal now es p) = seen p"
  using assms settled_buffer [OF assms(1)]
  by (auto simp: take_signal_def proc_inv_buffer call_ignored_def settled_def seen_def
      split: option.split prod.split)

lemma seen_counts [simp]:
  "seen (count_stat log_seen p) = seen p + 1" "seen (count_stat span_seen p) = seen p + 1"
  "settled (count_stat log_seen p) = settled p" "settled (count_stat span_seen p) = settled p"
  "stats_partition (log_seen t) = stats_partition t"
  "stats_partition (span_seen t) = stats_partition t"
  "EmittedCount (log_seen t) = EmittedCount t" "EmittedCount (span_seen t) = EmittedCount t"
  by (simp_all add: seen_def settled_def log_seen_def span_seen_def stats_partition_def)

lemma SetObserver_frame [simp]:
  "inFlight (SetObserver i v p) = inFlight p" "emitted (SetObserver i v p) = emitted p"
  "stats (SetObserver i v p) = stats p" "settled (SetObserver i v p) = settled p"
  "seen (SetObserver i v p) = seen p"
  by (simp_all add: SetObserver_def settled_def seen_def)

text \<open>
  A step that changes the processor's counters and buffers, but neither what is in flight
  nor what is emitted, and that leaves the assembler where it is.
\<close>

lemma receiver_step:
  assumes "sys_inv s" and "proc_inv p'"
    and "inFlight p' = inFlight (proc s)" and "emitted p' = emitted (proc s)"
    and "EmittedCount (stats p') = EmittedCount (stats (proc s))"
    and "stats_partition (stats p') = stats_partition (stats (proc s))"
    and "settled p' + size rcv \<le> seen p'"
    and "\<And>ex sg. (Some ex, sg) \<in># rcv \<Longrightarrow> exec_wf ex"
  shows "sys_inv (s\<lparr>proc := p', received := rcv\<rparr>)"
  using assms batch_inv_frame [of p' "proc s" "remaining (phase s)"]
  by (auto simp: sys_inv_def log_inv_def count_inv_def)

subsection \<open>Every step keeps the invariant\<close>

lemma write_failed_frame [simp]:
  "inFlight (write_failed p) = inFlight p" "emitted (write_failed p) = emitted p"
  "settled (write_failed p) = settled p" "seen (write_failed p) = seen p"
  "EmittedCount (stats (write_failed p)) = EmittedCount (stats p)"
  "stats_partition (stats (write_failed p)) = stats_partition (stats p)"
  by (simp_all add: write_failed_def settled_def seen_def stats_partition_def)

lemma batch_member_settled:
  assumes "proc_inv p" and "batch_inv p (a # out)"
  shows "set (a_consumedKeys a) \<subseteq> fmdom' (firstSeen p) \<union> emitted p"
proof -
  have "set (a_consumedKeys a) \<subseteq> inFlight p \<union> emitted p"
    using assms(2) by (simp add: batch_inv_def)
  then show ?thesis using proc_invD(5) [OF assms(1)] by blast
qed

lemma inv_begin:
  assumes "sys_inv s" and "phase s = Idle" and "range_order rng"
    and "claim cutoff rng (proc s) = (out, p')"
  shows "sys_inv (s\<lparr>proc := p', phase := Emitting out\<rparr>)"
proof -
  have "inFlight (proc s) = {}" using sys_invD(2) [OF assms(1)] assms(2) by (simp add: batch_inv_Nil)
  note c = claim_inv [OF sys_invD(1) [OF assms(1)] assms(3) this assms(4)]
  obtain X where p': "p' = (proc s)\<lparr>inFlight := X\<rparr>"
    using assms(4) by (auto simp: claim_snapshot)
  have "log_inv (s\<lparr>proc := p', phase := Emitting out\<rparr>)"
    using sys_invD(3) [OF assms(1)] assms(2) by (simp add: log_inv_def p')
  moreover have "count_inv (s\<lparr>proc := p', phase := Emitting out\<rparr>)"
    using sys_invD(4) [OF assms(1)] by (simp add: count_inv_def p' settled_def seen_def)
  ultimately show ?thesis
    using sys_invD(5) [OF assms(1)] c(1,2) by (auto simp: sys_inv_def)
qed

lemma inv_skip:
  assumes "sys_inv s" and "phase s = Emitting (a # out)" and "a_key a \<in> emitted (proc s)"
  shows "sys_inv (s\<lparr>phase := Emitting out\<rparr>)"
proof -
  have "batch_inv (proc s) (a # out)" using sys_invD(2) [OF assms(1)] assms(2) by simp
  then have "batch_inv (proc s) out"
    by (rule batch_inv_skip [OF sys_invD(1) [OF assms(1)] _ assms(3)])
  with assms(1,2) show ?thesis by (simp add: sys_inv_def log_inv_def count_inv_def)
qed

lemma inv_written:
  assumes "sys_inv s" and "phase s = Writing a out"
  shows "sys_inv (s\<lparr>phase := Written a out, sinkst := s', written := written s @ [a]\<rparr>)"
proof -
  have "a_key a \<notin> emitted (proc s)" "a_key ` set (written s) \<subseteq> emitted (proc s)"
    using sys_invD(3) [OF assms(1)] assms(2) by (auto simp: log_inv_def)
  then have "a_key a \<notin> a_key ` set (written s)" by blast
  moreover have "keyed (a_key a) (a_ex a)"
    using sys_invD(2) [OF assms(1)] assms(2) by (simp add: batch_inv_def)
  ultimately show ?thesis
    using assms by (auto simp: sys_inv_def log_inv_def count_inv_def)
qed

lemma inv_ack:
  assumes "sys_inv s" and "phase s = Written a out"
  shows "sys_inv (s\<lparr>proc := acknowledge a (proc s), phase := Emitting out\<rparr>)"
proof -
  note i = sys_invD [OF assms(1)]
  have b: "batch_inv (proc s) (a # out)" using i(2) assms(2) by simp
  note m = batch_member_settled [OF i(1) b]
  have fin: "finite (emitted (proc s))" using i(4) by (simp add: count_inv_def)
  have a: "a_key a \<in> set (a_consumedKeys a)" using b by (simp add: batch_inv_def)
  have "a_key a \<notin> emitted (proc s)" using i(3) assms(2) by (simp add: log_inv_def)
  then have "card (emitted (proc s)) < card (emitted (proc s) \<union> set (a_consumedKeys a))"
    using a fin by (intro psubset_card_mono) auto
  then have "count_inv (s\<lparr>proc := acknowledge a (proc s), phase := Emitting out\<rparr>)"
    using i(4) settled_acknowledge [OF m i(1) fin]
    by (auto simp: count_inv_def acknowledge_stats)
  moreover have "log_inv (s\<lparr>proc := acknowledge a (proc s), phase := Emitting out\<rparr>)"
    using i(3) assms(2) a by (auto simp: log_inv_def acknowledge_stats)
  ultimately show ?thesis
    using assms(1) b proc_inv_acknowledge [OF i(1)] batch_inv_ack [OF b]
    by (simp add: sys_inv_def)
qed

lemma inv_restore:
  assumes "sys_inv s" and "phase s = Restoring out"
  shows "sys_inv (s\<lparr>proc := restoreReserved out (proc s), phase := Idle\<rparr>)"
proof -
  note i = sys_invD [OF assms(1)]
  have b: "batch_inv (proc s) out" using i(2) assms(2) by simp
  have "batch_inv (restoreReserved out (proc s)) []"
    using batch_inv_restore [OF i(1) b] by (simp add: batch_inv_Nil)
  moreover have "count_inv (s\<lparr>proc := restoreReserved out (proc s), phase := Idle\<rparr>)"
    using i(4) settled_restoreReserved [OF i(1), of out] restoreReserved_fields [OF i(1), of out]
    by (simp add: count_inv_def)
  moreover have "log_inv (s\<lparr>proc := restoreReserved out (proc s), phase := Idle\<rparr>)"
    using i(3) assms(2) restoreReserved_fields [OF i(1), of out] by (simp add: log_inv_def)
  ultimately show ?thesis
    using assms(1) restoreReserved_fields(1) [OF i(1)] by (simp add: sys_inv_def)
qed

lemma step_inv:
  assumes "step fl sink s t" and "sys_inv s"
  shows "sys_inv t"
  using assms
proof (cases rule: step.cases)
  case (set_observer i v)
  have "sys_inv (s\<lparr>proc := SetObserver i v (proc s), received := received s\<rparr>)"
    using sys_invD(1,4,5) [OF assms(2)]
    by (intro receiver_step [OF assms(2)]) (auto simp: count_inv_def)
  with set_observer show ?thesis by simp
next
  case (receive_log r)
  have "sys_inv (s\<lparr>proc := count_stat log_seen (proc s),
      received := add_mset (FromLogRecord fl r, SignalLogs) (received s)\<rparr>)"
    using sys_invD(1,4,5) [OF assms(2)]
    by (intro receiver_step [OF assms(2)])
      (auto simp: count_inv_def dest: FromLogRecord_wf [OF sym])
  with receive_log show ?thesis by simp
next
  case (receive_span sp)
  have "sys_inv (s\<lparr>proc := count_stat span_seen (proc s),
      received := add_mset (FromSpan fl sp, SignalTraces) (received s)\<rparr>)"
    using sys_invD(1,4,5) [OF assms(2)]
    by (intro receiver_step [OF assms(2)])
      (auto simp: count_inv_def dest: FromSpan_wf [OF sym])
  with receive_span show ?thesis by simp
next
  case (process es now)
  have wf: "\<forall>ex sg. es = (Some ex, sg) \<longrightarrow> exec_wf ex"
    using process(2) sys_invD(5) [OF assms(2)] by blast
  have sz: "size (received s) = Suc (size (received s - {#es#}))"
    using process(2) by (metis insert_DiffM size_add_mset)
  note t = take_signal_inv [OF sys_invD(1) [OF assms(2)] wf, of now]
  have "sys_inv (s\<lparr>proc := take_signal now es (proc s), received := received s - {#es#}\<rparr>)"
    using t sz sys_invD(4,5) [OF assms(2)]
    by (intro receiver_step [OF assms(2)]) (auto simp: count_inv_def dest: in_diffD)
  with process show ?thesis by simp
next
  case (begin_assembly rng cutoff out p')
  then show ?thesis using inv_begin [OF assms(2)] by simp
next
  case (emit_skip a out)
  then show ?thesis using inv_skip [OF assms(2)] by simp
next
  case (emit_start a out)
  then show ?thesis using assms(2) by (simp add: sys_inv_def log_inv_def count_inv_def)
next
  case (write_ok a out s')
  then show ?thesis using inv_written [OF assms(2)] by simp
next
  case (write_err a out e s')
  then show ?thesis using assms(2) by (simp add: sys_inv_def log_inv_def count_inv_def)
next
  case (ack a out)
  then show ?thesis using inv_ack [OF assms(2)] by simp
next
  case (count_failure a out)
  then show ?thesis
    using assms(2) batch_inv_frame [of "write_failed (proc s)" "proc s" "a # out"]
    by (simp add: sys_inv_def log_inv_def count_inv_def)
next
  case (restore out)
  then show ?thesis using inv_restore [OF assms(2)] by simp
next
  case finish
  then show ?thesis using assms(2) by (simp add: sys_inv_def log_inv_def count_inv_def)
qed

lemma reachable_inv: "reachable fl sink wait s0 s \<Longrightarrow> sys_inv s"
  by (induction rule: reachable.induct) (auto intro: sys_inv_init step_inv)

section \<open>The methods are runs of the system\<close>

definition sys_of ::
  "processor \<Rightarrow> phase \<Rightarrow> 's \<Rightarrow> (execution option \<times> string) multiset \<Rightarrow> assembled list \<Rightarrow> 's sys" where
  "sys_of p ph s rcv wr = \<lparr>proc = p, phase = ph, sinkst = s, received = rcv, written = wr\<rparr>"

lemma sys_of_update [simp]:
  "(sys_of p ph s rcv wr)\<lparr>proc := p'\<rparr> = sys_of p' ph s rcv wr"
  "(sys_of p ph s rcv wr)\<lparr>phase := ph'\<rparr> = sys_of p ph' s rcv wr"
  "(sys_of p ph s rcv wr)\<lparr>sinkst := s'\<rparr> = sys_of p ph s' rcv wr"
  "(sys_of p ph s rcv wr)\<lparr>received := rcv'\<rparr> = sys_of p ph s rcv' wr"
  "(sys_of p ph s rcv wr)\<lparr>written := wr'\<rparr> = sys_of p ph s rcv wr'"
  "proc (sys_of p ph s rcv wr) = p" "phase (sys_of p ph s rcv wr) = ph"
  "sinkst (sys_of p ph s rcv wr) = s" "received (sys_of p ph s rcv wr) = rcv"
  "written (sys_of p ph s rcv wr) = wr"
  by (simp_all add: sys_of_def)

text \<open>The assembler's steps on such states, without the record updates.\<close>

lemma run_steps:
  "a_key a \<in> emitted p \<Longrightarrow>
     step fl sink (sys_of p (Emitting (a # out)) s rcv wr) (sys_of p (Emitting out) s rcv wr)"
  "a_key a \<notin> emitted p \<Longrightarrow>
     step fl sink (sys_of p (Emitting (a # out)) s rcv wr) (sys_of p (Writing a out) s rcv wr)"
  "sink_call sink s (a_ex a) = (None, s') \<Longrightarrow>
     step fl sink (sys_of p (Writing a out) s rcv wr) (sys_of p (Written a out) s' rcv (wr @ [a]))"
  "sink_call sink s (a_ex a) = (Some e, s') \<Longrightarrow>
     step fl sink (sys_of p (Writing a out) s rcv wr) (sys_of p (Failed a out) s' rcv wr)"
  "step fl sink (sys_of p (Written a out) s rcv wr)
     (sys_of (acknowledge a p) (Emitting out) s rcv wr)"
  "step fl sink (sys_of p (Failed a out) s rcv wr)
     (sys_of (write_failed p) (Restoring (a # out)) s rcv wr)"
  "step fl sink (sys_of p (Restoring out) s rcv wr)
     (sys_of (restoreReserved out p) Idle s rcv wr)"
  "step fl sink (sys_of p (Emitting []) s rcv wr) (sys_of p Idle s rcv wr)"
  using emit_skip [of "sys_of p (Emitting (a # out)) s rcv wr" a out fl sink]
    emit_start [of "sys_of p (Emitting (a # out)) s rcv wr" a out fl sink]
    write_ok [of "sys_of p (Writing a out) s rcv wr" a out sink s' fl]
    write_err [of "sys_of p (Writing a out) s rcv wr" a out sink e s' fl]
    ack [of "sys_of p (Written a out) s rcv wr" a out fl sink]
    count_failure [of "sys_of p (Failed a out) s rcv wr" a out fl sink]
    restore [of "sys_of p (Restoring out) s rcv wr" out fl sink]
    finish [of "sys_of p (Emitting []) s rcv wr" fl sink]
  by simp_all

lemma emit_all_steps:
  "emit_all sink out (s, p) = (r, s', p') \<Longrightarrow>
   \<exists>w. (step fl sink)\<^sup>*\<^sup>* (sys_of p (Emitting out) s rcv wr) (sys_of p' Idle s' rcv (wr @ w))"
proof (induction out arbitrary: s p wr)
  case Nil
  then have "(step fl sink)\<^sup>*\<^sup>* (sys_of p (Emitting []) s rcv wr) (sys_of p' Idle s' rcv (wr @ []))"
    using run_steps(8) [of fl sink p s rcv wr] by auto
  then show ?case by blast
next
  case (Cons a out)
  note rt = converse_rtranclp_into_rtranclp [of "step fl sink"]
  show ?case
  proof (cases "a_key a \<in> emitted p")
    case True
    with Cons.prems have "emit_all sink out (s, p) = (r, s', p')" by (simp add: emit_def)
    from Cons.IH [OF this, of wr] show ?thesis
      using rt [OF run_steps(1) [OF True]] by blast
  next
    case False
    note st = run_steps(2) [OF False]
    obtain res s1 where w: "sink_call sink s (a_ex a) = (res, s1)" by fastforce
    show ?thesis
    proof (cases res)
      case None
      with w have ok: "sink_call sink s (a_ex a) = (None, s1)" by simp
      with Cons.prems False have "emit_all sink out (s1, acknowledge a p) = (r, s', p')"
        by (simp add: emit_def)
      from Cons.IH [OF this, of "wr @ [a]"] obtain w' where
        "(step fl sink)\<^sup>*\<^sup>* (sys_of (acknowledge a p) (Emitting out) s1 rcv (wr @ [a]))
           (sys_of p' Idle s' rcv ((wr @ [a]) @ w'))" by blast
      then have "(step fl sink)\<^sup>*\<^sup>* (sys_of p (Emitting (a # out)) s rcv wr)
           (sys_of p' Idle s' rcv ((wr @ [a]) @ w'))"
        by (intro rt [OF st] rt [OF run_steps(3) [OF ok]] rt [OF run_steps(5)])
      then show ?thesis by auto
    next
      case (Some e)
      with w have bad: "sink_call sink s (a_ex a) = (Some e, s1)" by simp
      with Cons.prems False have
        e: "p' = restoreReserved (a # out) (write_failed p)" "s' = s1"
        by (auto simp: emit_def)
      have "(step fl sink)\<^sup>*\<^sup>* (sys_of p (Emitting (a # out)) s rcv wr) (sys_of p' Idle s' rcv wr)"
        unfolding e
        by (intro rt [OF st] rt [OF run_steps(4) [OF bad]] rt [OF run_steps(6)]
            rt [OF run_steps(7)]) simp
      then show ?thesis by (metis append_Nil2)
    qed
  qed
qed

lemma assemble_steps:
  assumes "assemble sink rng cutoff (s, p) = (r, s', p')" and "range_order rng"
  shows "\<exists>w. (step fl sink)\<^sup>*\<^sup>* (sys_of p Idle s rcv wr) (sys_of p' Idle s' rcv (wr @ w))"
proof (cases "readyKeys cutoff p = []")
  case True
  with assms(1) have "s' = s" "p' = p" by (simp_all add: assemble_def)
  then show ?thesis by (metis append_Nil2 rtranclp.rtrancl_refl)
next
  case False
  obtain out q where c: "claim cutoff rng p = (out, q)" by fastforce
  with False assms(1) have "emit_all sink out (s, q) = (r, s', p')" by (simp add: assemble_def)
  from emit_all_steps [OF this] obtain w where
    "(step fl sink)\<^sup>*\<^sup>* (sys_of q (Emitting out) s rcv wr) (sys_of p' Idle s' rcv (wr @ w))" by blast
  moreover have "step fl sink (sys_of p Idle s rcv wr) (sys_of q (Emitting out) s rcv wr)"
    using begin_assembly [of "sys_of p Idle s rcv wr" rng cutoff out q fl sink] c assms(2) by simp
  ultimately show ?thesis by (blast intro: converse_rtranclp_into_rtranclp)
qed

lemma take_signal_steps:
  "step fl sink (sys_of p ph s (add_mset es rcv) wr) (sys_of (take_signal now es p) ph s rcv wr)"
  using process [of es "sys_of p ph s (add_mset es rcv) wr" fl sink now] by simp

lemma consume_logs_steps:
  "(step fl sink)\<^sup>*\<^sup>* (sys_of p ph s rcv wr) (sys_of (consume_logs fl now rs p) ph s rcv wr)"
proof (induction rs arbitrary: p now)
  case (Cons r rs)
  let ?q = "count_stat log_seen p" and ?e = "(FromLogRecord fl r, SignalLogs)"
  have "step fl sink (sys_of p ph s rcv wr) (sys_of ?q ph s (add_mset ?e rcv) wr)"
    using receive_log [of fl sink "sys_of p ph s rcv wr" r] by simp
  moreover have "step fl sink (sys_of ?q ph s (add_mset ?e rcv) wr)
      (sys_of (take_signal (now 0) ?e ?q) ph s rcv wr)" by (rule take_signal_steps)
  ultimately show ?case
    using Cons.IH by (simp add: converse_rtranclp_into_rtranclp)
qed simp

lemma consume_spans_steps:
  "(step fl sink)\<^sup>*\<^sup>* (sys_of p ph s rcv wr) (sys_of (consume_spans fl now rs p) ph s rcv wr)"
proof (induction rs arbitrary: p now)
  case (Cons r rs)
  let ?q = "count_stat span_seen p" and ?e = "(FromSpan fl r, SignalTraces)"
  have "step fl sink (sys_of p ph s rcv wr) (sys_of ?q ph s (add_mset ?e rcv) wr)"
    using receive_span [of fl sink "sys_of p ph s rcv wr" r] by simp
  moreover have "step fl sink (sys_of ?q ph s (add_mset ?e rcv) wr)
      (sys_of (take_signal (now 0) ?e ?q) ph s rcv wr)" by (rule take_signal_steps)
  ultimately show ?case
    using Cons.IH by (simp add: converse_rtranclp_into_rtranclp)
qed simp

lemma assembleExpired_steps:
  assumes "assembleExpired sink rng now (s, p) = (r, s', p')" and "range_order rng"
  shows "\<exists>w. (step fl sink)\<^sup>*\<^sup>* (sys_of p Idle s rcv wr) (sys_of p' Idle s' rcv (wr @ w))"
proof (cases "maxWait p \<le> 0")
  case True
  with assms(1) have "s' = s" "p' = p" by (simp_all add: assembleExpired_def)
  then show ?thesis by (metis append_Nil2 rtranclp.rtrancl_refl)
next
  case False
  with assms show ?thesis by (intro assemble_steps) (simp_all add: assembleExpired_def)
qed

text \<open>One call of a method of the processor.\<close>

datatype call =
    CallLogs range_fn "nat \<Rightarrow> int" "log_record option list"
  | CallSpans range_fn "nat \<Rightarrow> int" "span option list"
  | CallFlush range_fn

fun call_order :: "call \<Rightarrow> range_fn" where
  "call_order (CallLogs rng now rs) = rng"
| "call_order (CallSpans rng now ss) = rng"
| "call_order (CallFlush rng) = rng"

fun run_call ::
  "float_lib \<Rightarrow> ('s, 'e) sink_write option \<Rightarrow> call \<Rightarrow> 's \<times> processor \<Rightarrow> 'e option \<times> 's \<times> processor" where
  "run_call fl sink (CallLogs rng now rs) sp = ConsumeLogRecords fl sink rng now rs sp"
| "run_call fl sink (CallSpans rng now ss) sp = ConsumeSpans fl sink rng now ss sp"
| "run_call fl sink (CallFlush rng) sp = Flush sink rng sp"

lemma run_call_steps:
  assumes "run_call fl sink c (s, p) = (r, s', p')" and "range_order (call_order c)"
  shows "\<exists>w. (step fl sink)\<^sup>*\<^sup>* (sys_of p Idle s rcv wr) (sys_of p' Idle s' rcv (wr @ w))"
proof (cases c)
  case (CallLogs rng now rs)
  let ?q = "consume_logs fl now rs p"
  from assms CallLogs have "assembleExpired sink rng (now (length rs)) (s, ?q) = (r, s', p')"
    by (simp add: ConsumeLogRecords_def)
  from assembleExpired_steps [OF this] assms(2) CallLogs obtain w where
    "(step fl sink)\<^sup>*\<^sup>* (sys_of ?q Idle s rcv wr) (sys_of p' Idle s' rcv (wr @ w))" by fastforce
  then have "(step fl sink)\<^sup>*\<^sup>* (sys_of p Idle s rcv wr) (sys_of p' Idle s' rcv (wr @ w))"
    by (rule rtranclp_trans [OF consume_logs_steps])
  then show ?thesis by blast
next
  case (CallSpans rng now ss)
  let ?q = "consume_spans fl now ss p"
  from assms CallSpans have "assembleExpired sink rng (now (length ss)) (s, ?q) = (r, s', p')"
    by (simp add: ConsumeSpans_def)
  from assembleExpired_steps [OF this] assms(2) CallSpans obtain w where
    "(step fl sink)\<^sup>*\<^sup>* (sys_of ?q Idle s rcv wr) (sys_of p' Idle s' rcv (wr @ w))" by fastforce
  then have "(step fl sink)\<^sup>*\<^sup>* (sys_of p Idle s rcv wr) (sys_of p' Idle s' rcv (wr @ w))"
    by (rule rtranclp_trans [OF consume_spans_steps])
  then show ?thesis by blast
next
  case (CallFlush rng)
  with assms show ?thesis by (intro assemble_steps) (simp_all add: Flush_def)
qed

lemma reachable_steps:
  "(step fl sink)\<^sup>*\<^sup>* s t \<Longrightarrow> reachable fl sink wait s0 s \<Longrightarrow> reachable fl sink wait s0 t"
  by (induction rule: rtranclp_induct) (auto intro: reachable.more)

section \<open>The contract of a sink\<close>

text \<open>
  What the processor relies on when it calls \<open>Sink.Write\<close>: a write that returns nil has
  appended the encoded record to the sink's contents, and a write that returns an error has
  left the contents as they were. The contents are the lines a reader will find.
\<close>

locale sink_contract =
  fixes do_write :: "('s, 'e) sink_write"
    and contents :: "'s \<Rightarrow> string list"
    and enc :: "execution \<Rightarrow> string option"
    and inv :: "'s \<Rightarrow> bool"
  assumes write_inv: "inv s \<Longrightarrow> inv (snd (do_write s ex))"
    and write_accepts: "inv s \<Longrightarrow> do_write s ex = (None, s') \<Longrightarrow>
      \<exists>line. enc ex = Some line \<and> contents s' = contents s @ [line]"
    and write_rejects: "inv s \<Longrightarrow> do_write s ex = (Some e, s') \<Longrightarrow> contents s' = contents s"
begin

definition holds_written :: "'s \<Rightarrow> 's sys \<Rightarrow> bool" where
  "holds_written s0 s \<longleftrightarrow>
     inv (sinkst s) \<and>
     (\<forall>a \<in> set (written s). enc (a_ex a) \<noteq> None) \<and>
     contents (sinkst s) = contents s0 @ map (\<lambda>a. the (enc (a_ex a))) (written s)"

lemma step_holds_written:
  assumes "step fl (Some do_write) s t" and "holds_written s0 s"
  shows "holds_written s0 t"
  using assms
proof (cases rule: step.cases)
  case (write_ok a out s')
  then have w: "do_write (sinkst s) (a_ex a) = (None, s')" by (simp add: sink_call_def)
  have i: "inv (sinkst s)" using assms(2) by (simp add: holds_written_def)
  obtain line where l: "enc (a_ex a) = Some line" "contents s' = contents (sinkst s) @ [line]"
    using write_accepts [OF i w] by blast
  have "inv s'" using write_inv [OF i, of "a_ex a"] w by simp
  with l assms(2) write_ok(1) show ?thesis by (auto simp: holds_written_def)
next
  case (write_err a out e s')
  then have w: "do_write (sinkst s) (a_ex a) = (Some e, s')" by (simp add: sink_call_def)
  have i: "inv (sinkst s)" using assms(2) by (simp add: holds_written_def)
  have "inv s'" using write_inv [OF i, of "a_ex a"] w by simp
  with write_rejects [OF i w] assms(2) write_err(1) show ?thesis by (auto simp: holds_written_def)
qed (auto simp: holds_written_def)

lemma reachable_holds_written:
  "reachable fl (Some do_write) wait s0 s \<Longrightarrow> inv s0 \<Longrightarrow> holds_written s0 s"
proof (induction rule: reachable.induct)
  case start
  then show ?case by (simp add: holds_written_def init_sys_def)
next
  case (more s t)
  then show ?case by (blast intro: step_holds_written)
qed

end

section \<open>Properties\<close>

text \<open>The join key of a written record.\<close>

definition record_key :: "execution \<Rightarrow> string" where
  "record_key ex = JoinKey (TraceID ex) (SpanID ex)"

lemma written_keys: "sys_inv s \<Longrightarrow> map (\<lambda>a. record_key (a_ex a)) (written s) = map a_key (written s)"
  by (auto simp: sys_inv_def log_inv_def keyed_def record_key_def)

end
