(* ===== verification/Flushing.thy ===== *)
theory Flushing
  imports Interleaving
begin

text \<open>
  What one call of \<open>assemble\<close>, \<open>assembleExpired\<close> or \<open>Flush\<close> does to the buffers when no other
  goroutine interferes: nothing is lost when the sink fails, what leaves the buffer is in
  the sink, and which keys a Flush leaves behind.
\<close>

section \<open>The records the sink accepts\<close>

fun accepted ::
  "('s, 'e) sink_write option \<Rightarrow> assembled list \<Rightarrow> 's \<times> processor \<Rightarrow> assembled list" where
  "accepted sink [] sp = []"
| "accepted sink (a # out) (s, p) =
     (if a_key a \<in> emitted p then accepted sink out (s, p)
      else (case sink_call sink s (a_ex a) of
              (Some err, s') \<Rightarrow> []
            | (None, s') \<Rightarrow> a # accepted sink out (s', acknowledge a p)))"

definition keeps :: "processor \<Rightarrow> processor \<Rightarrow> string \<Rightarrow> bool" where
  "keeps p q k \<longleftrightarrow>
     fmlookup (spans q) k = fmlookup (spans p) k \<and> fmlookup (logs q) k = fmlookup (logs p) k \<and>
     fmlookup (firstSeen q) k = fmlookup (firstSeen p) k"

lemma keeps_trans: "keeps p q k \<Longrightarrow> keeps q r k \<Longrightarrow> keeps p r k"
  by (simp add: keeps_def)

lemma keeps_refl [simp]: "keeps p p k"
  by (simp add: keeps_def)

lemma keeps_frame [simp]:
  "keeps p (count_stat fn p) k" "keeps p (write_failed p) k" "keeps p (p\<lparr>inFlight := X\<rparr>) k"
  by (simp_all add: keeps_def write_failed_def)

lemma keeps_fold_ack: "k \<notin> set ks \<Longrightarrow> keeps p (fold ack_key ks p) k"
  by (induction ks arbitrary: p) (auto simp: keeps_def)

lemma keeps_acknowledge: "k \<notin> set (a_consumedKeys a) \<Longrightarrow> keeps p (acknowledge a p) k"
  using keeps_fold_ack [of k "a_consumedKeys a" p] by (simp add: keeps_def acknowledge_def)

lemma fmlookup_fold_ack:
  "fmlookup (spans (fold ack_key ks p)) k = (if k \<in> set ks then None else fmlookup (spans p) k)"
  "fmlookup (logs (fold ack_key ks p)) k = (if k \<in> set ks then None else fmlookup (logs p) k)"
  by (induction ks arbitrary: p) auto

lemma pending_fold_ack:
  "pendingFirstSeen p = fmempty \<Longrightarrow> pendingFirstSeen (fold ack_key ks p) = fmempty"
  by (induction ks arbitrary: p) (auto simp: fmdrop_empty)

text \<open>Without pending signals, restoring only clears the in-flight marks.\<close>

lemma restore_key_nothing:
  "pendingFirstSeen p = fmempty \<Longrightarrow> restore_key k p = p\<lparr>inFlight := inFlight p - {k}\<rparr>"
  by (simp add: restore_key_def mergePendingIntoActive_def)

lemma fold_restore_nothing:
  "pendingFirstSeen p = fmempty \<Longrightarrow>
   fold restore_key ks p = p\<lparr>inFlight := inFlight p - set ks\<rparr>"
proof (induction ks arbitrary: p)
  case (Cons k ks)
  then show ?case
    by (simp add: restore_key_nothing) (metis Diff_insert Diff_insert2)
qed simp

lemma restoreReserved_nothing:
  "pendingFirstSeen p = fmempty \<Longrightarrow> restoreReserved out p = p\<lparr>inFlight := inFlight p - consumed out\<rparr>"
  by (simp add: restoreReserved_def fold_restore_nothing consumed_def)

lemma emit_all_outcome:
  assumes "emit_all sink out (s, p) = (r, s', p')" and "proc_inv p" and "batch_inv p out"
    and "pendingFirstSeen p = fmempty"
  shows "emitted p' = emitted p \<union> consumed (accepted sink out (s, p))
    \<and> (\<forall>k. k \<notin> consumed (accepted sink out (s, p)) \<longrightarrow> keeps p p' k)
    \<and> inFlight p' = {} \<and> pendingFirstSeen p' = fmempty \<and> proc_inv p'"
  using assms
proof (induction out arbitrary: s p)
  case Nil
  then show ?case by (simp add: batch_inv_Nil)
next
  case (Cons a out)
  show ?case
  proof (cases "a_key a \<in> emitted p")
    case True
    have "batch_inv p out" using batch_inv_skip [OF Cons.prems(2,3) True] .
    then show ?thesis using Cons.IH [of s p] Cons.prems True by (simp add: emit_def)
  next
    case False
    obtain res s1 where w: "sink_call sink s (a_ex a) = (res, s1)" by fastforce
    show ?thesis
    proof (cases res)
      case None
      let ?q = "acknowledge a p"
      have e: "emit_all sink out (s1, ?q) = (r, s', p')"
        using Cons.prems(1) False w None by (simp add: emit_def)
      have pend: "pendingFirstSeen ?q = fmempty"
        using pending_fold_ack [OF Cons.prems(4)] by (simp add: acknowledge_def)
      note ih = Cons.IH [OF e proc_inv_acknowledge [OF Cons.prems(2)]
          batch_inv_ack [OF Cons.prems(3)] pend]
      have acc: "accepted sink (a # out) (s, p) = a # accepted sink out (s1, ?q)"
        using False w None by simp
      show ?thesis
        using ih keeps_acknowledge [of _ a p] unfolding acc by (auto intro: keeps_trans)
    next
      case (Some err)
      let ?q = "write_failed p"
      have q: "pendingFirstSeen ?q = fmempty" "proc_inv ?q" "batch_inv ?q (a # out)"
        using Cons.prems(2-4) batch_inv_frame [of ?q p "a # out"] by (simp_all add: write_failed_def)
      have p': "p' = restoreReserved (a # out) ?q"
        using Cons.prems(1) False w Some by (auto simp: emit_def)
      have acc: "accepted sink (a # out) (s, p) = []" using False w Some by simp
      have "inFlight p' = {}" using batch_inv_restore [OF q(2,3)] p' by simp
      moreover have "p' = ?q\<lparr>inFlight := inFlight ?q - consumed (a # out)\<rparr>"
        using restoreReserved_nothing [OF q(1)] p' by simp
      moreover have "proc_inv p'" using restoreReserved_fields(1) [OF q(2)] p' by simp
      ultimately show ?thesis
        using q(1) unfolding acc by (auto simp: keeps_def write_failed_def)
    qed
  qed
qed

text \<open>The records one call of \<open>assemble\<close> gets accepted.\<close>

definition assemble_accepted ::
  "('s, 'e) sink_write option \<Rightarrow> range_fn \<Rightarrow> int option \<Rightarrow> 's \<times> processor \<Rightarrow> assembled list" where
  "assemble_accepted sink rng cutoff sp =
     (case sp of (s, p) \<Rightarrow>
        (case claim cutoff rng p of (out, q) \<Rightarrow> accepted sink out (s, q)))"

text \<open>A processor between two assemblies: nothing in flight, nothing pending.\<close>

definition quiescent :: "processor \<Rightarrow> bool" where
  "quiescent p \<longleftrightarrow> proc_inv p \<and> inFlight p = {}"

lemma quiescent_pending: "quiescent p \<Longrightarrow> pendingFirstSeen p = fmempty"
  using proc_invD(4) [of p] by (auto simp: quiescent_def fmdom'_eq_empty)

lemma quiescent_new: "quiescent (NewProcessor wait)"
  by (simp add: quiescent_def proc_inv_new)

lemma readyKeys_claim:
  "readyKeys cutoff p = [] \<Longrightarrow> claim cutoff rng p = ([], p)"
  by (simp add: claim_def snapshot_def Let_def List.map_filter_simps)

lemma assemble_outcome:
  assumes "assemble sink rng cutoff (s, p) = (r, s', p')" and "quiescent p" and "range_order rng"
  shows "emitted p' = emitted p \<union> consumed (assemble_accepted sink rng cutoff (s, p))"
    and "k \<notin> consumed (assemble_accepted sink rng cutoff (s, p)) \<Longrightarrow> keeps p p' k"
    and "quiescent p'"
proof -
  obtain out q where c: "claim cutoff rng p = (out, q)" by fastforce
  have acc: "assemble_accepted sink rng cutoff (s, p) = accepted sink out (s, q)"
    by (simp add: assemble_accepted_def c)
  have ea: "emit_all sink out (s, q) = (r, s', p')"
  proof (cases "readyKeys cutoff p = []")
    case True
    with assms(1) c readyKeys_claim [OF True, of rng] show ?thesis by (simp add: assemble_def)
  next
    case False
    with assms(1) c show ?thesis by (simp add: assemble_def)
  qed
  have f: "inFlight p = {}" "proc_inv p" using assms(2) by (simp_all add: quiescent_def)
  note ci = claim_inv [OF f(2) assms(3) f(1) c]
  obtain X where q: "q = p\<lparr>inFlight := X\<rparr>" using c by (auto simp: claim_snapshot)
  then have pe: "pendingFirstSeen q = fmempty"
    using quiescent_pending [OF assms(2)] by simp
  note o = emit_all_outcome [OF ea ci(1,2) pe]
  then show "emitted p' = emitted p \<union> consumed (assemble_accepted sink rng cutoff (s, p))"
    "quiescent p'" using ci(4) by (simp_all add: acc quiescent_def)
  have "keeps p q k" by (simp add: q)
  then show "k \<notin> consumed (assemble_accepted sink rng cutoff (s, p)) \<Longrightarrow> keeps p p' k"
    using o by (auto simp: acc intro: keeps_trans)
qed

section \<open>What a Flush leaves behind\<close>

definition always_accepts :: "('s, 'e) sink_write option \<Rightarrow> bool" where
  "always_accepts sink \<longleftrightarrow> (\<forall>s ex. fst (sink_call sink s ex) = None)"

lemma emit_all_accepts:
  assumes "always_accepts sink"
  shows "fst (emit_all sink out sp) = None"
proof (induction out arbitrary: sp)
  case (Cons a out)
  obtain s p where sp: "sp = (s, p)" by fastforce
  obtain s1 where "sink_call sink s (a_ex a) = (None, s1)"
    using assms unfolding always_accepts_def by (metis prod.collapse)
  then show ?case using Cons by (simp add: sp emit_def)
qed simp

text \<open>An assembly that reports no error got every key of its batch into the sink.\<close>

lemma emit_all_complete:
  assumes "fst (emit_all sink out (s, p)) = None" and "proc_inv p" and "batch_inv p out"
  shows "emitted p \<union> consumed (accepted sink out (s, p)) = emitted p \<union> consumed out"
  using assms
proof (induction out arbitrary: s p)
  case (Cons a out)
  show ?case
  proof (cases "a_key a \<in> emitted p")
    case True
    then have "set (a_consumedKeys a) \<subseteq> emitted p" using Cons.prems by (simp add: batch_inv_def)
    moreover have "batch_inv p out" using batch_inv_skip [OF Cons.prems(2,3) True] .
    moreover have "fst (emit_all sink out (s, p)) = None"
      using Cons.prems(1) True by (simp add: emit_def)
    ultimately show ?thesis using Cons.IH [of s p] Cons.prems(2) True by auto
  next
    case False
    then obtain s1 where w: "sink_call sink s (a_ex a) = (None, s1)"
      using Cons.prems(1)
      by (cases "sink_call sink s (a_ex a)") (auto simp: emit_def split: option.splits)
    then have "fst (emit_all sink out (s1, acknowledge a p)) = None"
      using Cons.prems(1) False by (simp add: emit_def)
    from Cons.IH [OF this proc_inv_acknowledge [OF Cons.prems(2)] batch_inv_ack [OF Cons.prems(3)]]
    show ?thesis using w False by auto
  qed
qed simp

lemma consumed_snapshot:
  assumes "proc_inv p" and "range_order rng"
  shows "k \<in> consumed (snapshot None rng p) \<longleftrightarrow>
    k \<in> fmdom' (firstSeen p) \<and>
    (\<not> suppressed (childOf rng p) k \<or>
     (\<exists>c. claims_parent p c k \<and> \<not> suppressed (childOf rng p) c))"
proof -
  have present: "\<exists>a. assembleKey c p = Some a \<and> a_key a = c"
    if "c \<in> fmdom' (firstSeen p)" for c
    using that proc_invD(3) [OF assms(1)] assembleKey_None [of c p] assembleKey_consumed(1) [of c p]
    by (auto simp: in_fmdom'_iff)
  show ?thesis
  proof
    assume "k \<in> consumed (snapshot None rng p)"
    then obtain a where a: "a \<in> set (snapshot None rng p)" "k \<in> set (a_consumedKeys a)"
      by (auto simp: consumed_def)
    note m = snapshot_members [OF assms(1) a(1)]
    show "k \<in> fmdom' (firstSeen p) \<and> (\<not> suppressed (childOf rng p) k \<or>
        (\<exists>c. claims_parent p c k \<and> \<not> suppressed (childOf rng p) c))"
      using m(3,4) m(5) [OF a(2)] a(2) by auto
  next
    assume h: "k \<in> fmdom' (firstSeen p) \<and> (\<not> suppressed (childOf rng p) k \<or>
        (\<exists>c. claims_parent p c k \<and> \<not> suppressed (childOf rng p) c))"
    then consider "\<not> suppressed (childOf rng p) k"
      | c where "claims_parent p c k" "\<not> suppressed (childOf rng p) c" by blast
    then show "k \<in> consumed (snapshot None rng p)"
    proof cases
      case 1
      with h present obtain a where "assembleKey k p = Some a" "a_key a = k" by blast
      with h 1 have "a \<in> set (snapshot None rng p)" by (auto simp: in_snapshot is_ready_Flush)
      then show ?thesis
        using in_consumed snapshot_members(2) [OF assms(1)] \<open>a_key a = k\<close> by blast
    next
      case 2
      then have "c \<in> fmdom' (firstSeen p)"
        using proc_invD(3) [OF assms(1)] by (auto simp: claims_parent_def in_fmdom'_iff)
      with present obtain a where a: "assembleKey c p = Some a" "a_key a = c" by blast
      with 2 \<open>c \<in> fmdom' (firstSeen p)\<close> have "a \<in> set (snapshot None rng p)"
        by (auto simp: in_snapshot is_ready_Flush)
      moreover have "k \<in> set (a_consumedKeys a)"
        using assembleKey_consumed(2) [OF a(1)] 2(1) h proc_invD(3) [OF assms(1)]
        by (auto simp: claims_parent_def)
      ultimately show ?thesis using in_consumed by blast
    qed
  qed
qed

lemma Flush_accepts:
  "Flush sink rng (s, p) = (r, s', p') \<Longrightarrow> always_accepts sink \<Longrightarrow> r = None"
  using emit_all_accepts [of sink "fst (claim None rng p)" "(s, snd (claim None rng p))"]
  by (auto simp: Flush_def assemble_def case_prod_beta split: if_splits)

text \<open>
  A Flush that returns nil leaves exactly the keys that are claimed by a client span and all
  of whose claimants are themselves claimed.
\<close>

lemma Flush_leaves:
  assumes "Flush sink rng (s, p) = (None, s', p')" and "quiescent p" and "range_order rng"
  shows "k \<in> fmdom' (firstSeen p') \<longleftrightarrow>
      k \<in> fmdom' (firstSeen p) \<and> suppressed (childOf rng p) k \<and>
      (\<forall>c. claims_parent p c k \<longrightarrow> suppressed (childOf rng p) c)"
proof -
  have as: "assemble sink rng None (s, p) = (None, s', p')" using assms(1) by (simp add: Flush_def)
  have i: "proc_inv p" "inFlight p = {}" using assms(2) by (simp_all add: quiescent_def)
  obtain out q where c: "claim None rng p = (out, q)" by fastforce
  have out: "out = snapshot None rng p" using c by (simp add: claim_snapshot)
  have q: "emitted q = emitted p" "proc_inv q" "batch_inv q out"
    using claim_inv [OF i(1) assms(3) i(2) c] by simp_all
  have "emit_all sink out (s, q) = (None, s', p')"
    using as c readyKeys_claim [of None p rng]
    by (cases "readyKeys None p = []") (simp_all add: assemble_def)
  then have acc: "emitted q \<union> consumed (accepted sink out (s, q)) = emitted q \<union> consumed out"
    using emit_all_complete [OF _ q(2,3), of sink s] by simp
  have A: "assemble_accepted sink rng None (s, p) = accepted sink out (s, q)"
    by (simp add: assemble_accepted_def c)
  have d: "emitted p \<inter> fmdom' (firstSeen p) = {}" by (rule proc_invD(6) [OF i(1)])
  have d': "emitted p' \<inter> fmdom' (firstSeen p') = {}"
    using assemble_outcome(3) [OF as assms(2,3)] proc_invD(6) by (auto simp: quiescent_def)
  have em: "emitted p' = emitted p \<union> consumed out"
    using assemble_outcome(1) [OF as assms(2,3)] acc q(1) by (simp add: A)
  have "k \<in> fmdom' (firstSeen p') \<longleftrightarrow> k \<in> fmdom' (firstSeen p) \<and> k \<notin> consumed out"
  proof (cases "k \<in> emitted p'")
    case True
    then show ?thesis using d d' em by blast
  next
    case False
    then have "k \<notin> consumed (assemble_accepted sink rng None (s, p))" "k \<notin> consumed out"
      using assemble_outcome(1) [OF as assms(2,3)] em by auto
    then show ?thesis
      using assemble_outcome(2) [OF as assms(2,3)] by (auto simp: keeps_def in_fmdom'_iff)
  qed
  then show ?thesis
    using consumed_snapshot [OF i(1) assms(3), of k] by (auto simp: out)
qed

text \<open>No client span of the buffer is itself named as parent by another one.\<close>

definition one_level :: "processor \<Rightarrow> bool" where
  "one_level p \<longleftrightarrow> (\<forall>c d k. claims_parent p c k \<longrightarrow> claims_parent p d c \<longrightarrow> d = c)"

lemma one_level_leaves_nothing:
  assumes "one_level p" and "suppressed (childOf rng p) k"
  shows "\<exists>c. claims_parent p c k \<and> \<not> suppressed (childOf rng p) c"
proof -
  obtain c where c: "claims_parent p c k" "c \<noteq> k"
    using suppressed_claimed [OF assms(2)] by blast
  have "\<not> suppressed (childOf rng p) c"
  proof
    assume "suppressed (childOf rng p) c"
    then obtain d where "d \<noteq> c" "claims_parent p d c" using suppressed_claimed by blast
    with assms(1) c(1) show False by (auto simp: one_level_def)
  qed
  with c(1) show ?thesis by blast
qed

end
