(* ===== verification/Bridge.thy ===== *)
theory Bridge
  imports Flushing
begin

text \<open>
  The properties of \<open>bridge.Processor\<close>: what holds in every interleaving of receivers and
  assembler, and what a single Flush or expiry does. \<open>demo_calls\<close> is the measured shape of
  one \<open>tools/call\<close> (access log, client span, server span, then a Flush), on which the
  theorems are applied.
\<close>

section \<open>Sequences of calls\<close>

fun run_calls ::
  "float_lib \<Rightarrow> ('s, 'e) sink_write option \<Rightarrow> call list \<Rightarrow> 's \<times> processor \<Rightarrow> 's \<times> processor" where
  "run_calls fl sink [] sp = sp"
| "run_calls fl sink (c # cs) sp = run_calls fl sink cs (snd (run_call fl sink c sp))"

lemma run_calls_steps:
  assumes "run_calls fl sink cs (s, p) = (s', p')" and "\<forall>c \<in> set cs. range_order (call_order c)"
  shows "\<exists>w. (step fl sink)\<^sup>*\<^sup>* (sys_of p Idle s rcv wr) (sys_of p' Idle s' rcv (wr @ w))"
  using assms
proof (induction cs arbitrary: s p wr)
  case Nil
  then show ?case by (auto intro: exI [of _ "[]"])
next
  case (Cons c cs)
  obtain r s1 p1 where c: "run_call fl sink c (s, p) = (r, s1, p1)" by (metis prod_cases3)
  with Cons.prems have cs: "run_calls fl sink cs (s1, p1) = (s', p')" by simp
  obtain w1 where
    "(step fl sink)\<^sup>*\<^sup>* (sys_of p Idle s rcv wr) (sys_of p1 Idle s1 rcv (wr @ w1))"
    using run_call_steps [OF c, where rcv = rcv and wr = wr] Cons.prems(2) by force
  moreover obtain w2 where
    "(step fl sink)\<^sup>*\<^sup>* (sys_of p1 Idle s1 rcv (wr @ w1)) (sys_of p' Idle s' rcv ((wr @ w1) @ w2))"
    using Cons.IH [OF cs, where wr = "wr @ w1"] Cons.prems(2) by force
  ultimately have
    "(step fl sink)\<^sup>*\<^sup>* (sys_of p Idle s rcv wr) (sys_of p' Idle s' rcv (wr @ w1 @ w2))"
    by (metis append.assoc rtranclp_trans)
  then show ?case by blast
qed

lemma reachable_calls:
  assumes "run_calls fl sink cs (s0, NewProcessor wait) = (s, p)"
    and "\<forall>c \<in> set cs. range_order (call_order c)"
  shows "\<exists>wr. reachable fl sink wait s0 (sys_of p Idle s {#} wr)"
proof -
  have "init_sys wait s0 = sys_of (NewProcessor wait) Idle s0 {#} []"
    by (simp add: init_sys_def sys_of_def)
  with reachable.start [of fl sink wait s0] have
    "reachable fl sink wait s0 (sys_of (NewProcessor wait) Idle s0 {#} [])" by simp
  moreover obtain w where
    "(step fl sink)\<^sup>*\<^sup>* (sys_of (NewProcessor wait) Idle s0 {#} []) (sys_of p Idle s {#} ([] @ w))"
    using run_calls_steps [OF assms] by blast
  ultimately show ?thesis by (blast intro: reachable_steps)
qed

section \<open>A concrete run\<close>

text \<open>The in-memory sink of the repository's tests.\<close>

definition recordingSink :: "(execution list, string) sink_write" where
  "recordingSink ws ex = (None, ws @ [ex])"

lemma recordingSink_accepts: "always_accepts (Some recordingSink)"
  by (simp add: always_accepts_def sink_call_def recordingSink_def)

definition demo_calls :: "call list" where
  "demo_calls =
     [CallLogs sorted_list_of_fset (\<lambda>_. 0)
        [Some (gatewayLog [1] [2] ''restart'' ''alpha'' opA)],
      CallSpans sorted_list_of_fset (\<lambda>_. 0)
        [Some (gatewaySpan [1] [3] [2] SPAN_KIND_CLIENT ''restart'' ''alpha'' STATUS_CODE_UNSET),
         Some (gatewaySpan [1] [2] [] SPAN_KIND_SERVER ''restart'' ''alpha'' STATUS_CODE_UNSET)],
      CallFlush sorted_list_of_fset]"

definition demo_end :: "execution list \<times> processor" where
  "demo_end = run_calls plain_floats (Some recordingSink) demo_calls ([], NewProcessor 0)"

text \<open>One record, keyed by the client span, correlated through the server span's log.\<close>

definition demo_summary ::
  "execution list \<times> processor \<Rightarrow> (string \<times> string \<times> string list) list \<times> nat list \<times> bool" where
  "demo_summary r =
     (case r of (ws, p) \<Rightarrow>
        (map (\<lambda>ex. (record_key ex, OperationID ex, SeenFrom ex)) ws,
         [EmittedCount (stats p), CorrelatedCount (stats p), ParentsSuppressed (stats p)],
         sorted_keys (firstSeen p) = []))"

lemma demo_summary_eval:
  "demo_summary demo_end = ([(''01/03'', opA, [''logs'', ''traces''])], [1, 1, 1], True)"
  by code_simp

lemma demo_end_eval: "EmittedCount (stats (snd demo_end)) = 1" "firstSeen (snd demo_end) = fmempty"
proof -
  show "EmittedCount (stats (snd demo_end)) = 1"
    using demo_summary_eval by (simp add: demo_summary_def case_prod_beta)
  have "sorted_keys (firstSeen (snd demo_end)) = []"
    using demo_summary_eval by (simp add: demo_summary_def case_prod_beta)
  then have "fmdom' (firstSeen (snd demo_end)) = {}" by (metis list.set(1) set_sorted_keys)
  then show "firstSeen (snd demo_end) = fmempty" by (simp add: fmdom'_eq_empty)
qed

definition demo_sys :: "execution list sys \<Rightarrow> bool" where
  "demo_sys s \<longleftrightarrow> reachable plain_floats (Some recordingSink) 0 [] s \<and> phase s = Idle \<and>
     proc s = snd demo_end \<and> sinkst s = fst demo_end"

lemma demo_sys_exists: "\<exists>s. demo_sys s"
proof -
  have "\<forall>c \<in> set demo_calls. range_order (call_order c)"
    by (simp add: demo_calls_def range_order_sorted)
  then obtain wr where
    "reachable plain_floats (Some recordingSink) 0 [] (sys_of (snd demo_end) Idle (fst demo_end) {#} wr)"
    using reachable_calls [of plain_floats "Some recordingSink" demo_calls "[]" 0
        "fst demo_end" "snd demo_end"] by (auto simp: demo_end_def)
  then have "demo_sys (sys_of (snd demo_end) Idle (fst demo_end) {#} wr)" by (simp add: demo_sys_def)
  then show ?thesis ..
qed

section \<open>Every interleaving\<close>

text \<open>
  C1. One record per execution. Whatever the receivers and the assembler do, and however
  often writes fail and are retried, no two records that the sink accepted have the same
  join key.
\<close>

theorem at_most_once:
  assumes "reachable fl sink wait s0 s"
  shows "distinct (map (\<lambda>a. record_key (a_ex a)) (written s))"
  using reachable_inv [OF assms] by (simp add: written_keys) (simp add: sys_inv_def log_inv_def)

theorem at_most_once_witness:
  "\<exists>s. demo_sys s \<and> distinct (map (\<lambda>a. record_key (a_ex a)) (written s)) \<and> length (written s) = 1"
proof -
  obtain s where s: "demo_sys s" using demo_sys_exists ..
  then have r: "reachable plain_floats (Some recordingSink) 0 [] s" by (simp add: demo_sys_def)
  have "length (written s) = 1"
    using reachable_inv [OF r] s demo_end_eval by (simp add: sys_inv_def log_inv_def demo_sys_def)
  with s at_most_once [OF r] show ?thesis by blast
qed

text \<open>
  C23. Every record in the sink is honest about its attribution: it carries an operation id
  exactly when it is marked correlated, that id has the shape of an Evidra id, and no record
  carries a fingerprint, claims verified annotations or lacks the signals it was built from.
\<close>

theorem written_records_wf:
  assumes "reachable fl sink wait s0 s"
  shows "list_all (\<lambda>a. exec_wf (a_ex a) \<and>
    (OperationID (a_ex a) \<noteq> []) = (Correlation (a_ex a) = Correlated)) (written s)"
proof -
  have "exec_wf (a_ex a)" if "a \<in> set (written s)" for a
    using reachable_inv [OF assms] that by (auto simp: sys_inv_def log_inv_def keyed_def)
  then show ?thesis
    by (auto simp: list_all_iff exec_wf_def dest: corr_wf_nonempty)
qed

theorem written_records_wf_witness:
  "\<exists>s. demo_sys s \<and> list_all (\<lambda>a. exec_wf (a_ex a) \<and>
    (OperationID (a_ex a) \<noteq> []) = (Correlation (a_ex a) = Correlated)) (written s)"
proof -
  obtain s where s: "demo_sys s" using demo_sys_exists ..
  then have "reachable plain_floats (Some recordingSink) 0 [] s" by (simp add: demo_sys_def)
  from written_records_wf [OF this] s show ?thesis by blast
qed

lemma StillBuffered_eq:
  assumes "proc_inv p"
  shows "StillBuffered (ProcessorStats p) = card (fmdom' (firstSeen p))"
proof -
  have n: "fmlookup (firstSeen p) k \<noteq> None" if "k |\<in>| fmdom (pendingFirstSeen p)" for k
  proof -
    have "k \<in> fmdom' (firstSeen p)" using proc_invD(4,5) [OF assms] that by (auto simp: fmdom'_alt_def)
    then show ?thesis by (simp add: in_fmdom'_iff)
  qed
  have "ffilter (\<lambda>key. fmlookup (firstSeen p) key = None) (fmdom (pendingFirstSeen p)) = {||}"
    by (rule fset_eqI) (use n in \<open>simp, blast\<close>)
  then show ?thesis by (simp add: ProcessorStats_def fmdom'_alt_def fcard.rep_eq)
qed

text \<open>
  C18. The counters that \<open>/stats\<close> shows account for every record and never for more than was
  received: the emitted records, the signals ignored, unjoinable or late and the keys still
  buffered add up to at most the signals seen; and each emitted record is counted in exactly
  one correlation class and one source class.
\<close>

theorem stats_account:
  assumes "reachable fl sink wait s0 s" and "st = ProcessorStats (proc s)"
  shows "EmittedCount st + ToolCallsIgnored st + UnjoinableNoSpan st + LateSignalsIgnored st
      + StillBuffered st \<le> LogRecordsSeen st + SpansSeen st
    \<and> EmittedCount st = CorrelatedCount st + UnattributedCount st + AmbiguousCount st
    \<and> EmittedCount st = EmittedMerged st + EmittedLogOnly st + EmittedSpanOnly st"
proof -
  have i: "sys_inv s" using reachable_inv [OF assms(1)] .
  then have c: "count_inv s" and p: "proc_inv (proc s)" by (simp_all add: sys_inv_def)
  have st: "StillBuffered st = card (fmdom' (firstSeen (proc s)))"
    using StillBuffered_eq [OF p] assms(2) by simp
  have eq: "EmittedCount st = EmittedCount (stats (proc s))"
    "ToolCallsIgnored st = ToolCallsIgnored (stats (proc s))"
    "UnjoinableNoSpan st = UnjoinableNoSpan (stats (proc s))"
    "LateSignalsIgnored st = LateSignalsIgnored (stats (proc s))"
    "LogRecordsSeen st = LogRecordsSeen (stats (proc s))"
    "SpansSeen st = SpansSeen (stats (proc s))"
    "CorrelatedCount st = CorrelatedCount (stats (proc s))"
    "UnattributedCount st = UnattributedCount (stats (proc s))"
    "AmbiguousCount st = AmbiguousCount (stats (proc s))"
    "EmittedMerged st = EmittedMerged (stats (proc s))"
    "EmittedLogOnly st = EmittedLogOnly (stats (proc s))"
    "EmittedSpanOnly st = EmittedSpanOnly (stats (proc s))"
    by (simp_all add: assms(2) ProcessorStats_def)
  show ?thesis
    using c by (simp add: eq st count_inv_def stats_partition_def settled_def seen_def)
qed

theorem stats_account_witness:
  "\<exists>s. demo_sys s \<and>
     EmittedCount (ProcessorStats (proc s)) + StillBuffered (ProcessorStats (proc s))
       \<le> LogRecordsSeen (ProcessorStats (proc s)) + SpansSeen (ProcessorStats (proc s))"
proof -
  obtain s where s: "demo_sys s" using demo_sys_exists ..
  then have "reachable plain_floats (Some recordingSink) 0 [] s" by (simp add: demo_sys_def)
  from stats_account [OF this refl] s show ?thesis by fastforce
qed

text \<open>
  C20. The buffers stay apart and nothing is stranded. In every reachable state no emitted
  key is buffered again, every key with a stored signal has its first time and conversely,
  signals are pending only for keys in flight, and between two assemblies nothing is in
  flight or pending.
\<close>

theorem buffers_apart:
  assumes "reachable fl sink wait s0 s"
  shows "emitted (proc s) \<inter> fmdom' (firstSeen (proc s)) = {}
    \<and> fmdom' (firstSeen (proc s)) = fmdom' (spans (proc s)) \<union> fmdom' (logs (proc s))
    \<and> fmdom' (pendingFirstSeen (proc s)) \<subseteq> inFlight (proc s)
    \<and> inFlight (proc s) \<subseteq> consumed (remaining (phase s)) \<inter> fmdom' (firstSeen (proc s))"
proof -
  have i: "proc_inv (proc s)" "batch_inv (proc s) (remaining (phase s))"
    using reachable_inv [OF assms] by (simp_all add: sys_inv_def)
  show ?thesis using proc_invD [OF i(1)] i(2) by (simp add: batch_inv_def)
qed

theorem buffers_apart_witness:
  "\<exists>s. demo_sys s \<and> emitted (proc s) \<inter> fmdom' (firstSeen (proc s)) = {}
    \<and> inFlight (proc s) = {} \<and> pendingFirstSeen (proc s) = fmempty"
proof -
  obtain s where s: "demo_sys s" using demo_sys_exists ..
  then have "reachable plain_floats (Some recordingSink) 0 [] s" by (simp add: demo_sys_def)
  from buffers_apart [OF this] s have "emitted (proc s) \<inter> fmdom' (firstSeen (proc s)) = {}"
    "inFlight (proc s) = {}" "fmdom' (pendingFirstSeen (proc s)) = {}"
    by (auto simp: demo_sys_def)
  with s show ?thesis by (auto simp: fmdom'_eq_empty)
qed

end
