(* ===== verification/Provenance.thy ===== *)
theory Provenance
  imports Bridge
begin

text \<open>
  Where a written record comes from. The steps of \<open>Interleaving\<close> are accompanied by a history
  the program does not keep: for every join key the signals the processor took in under it,
  and those it held when the key was last claimed for assembly. In every reachable state
  (\<open>history_inv\<close>) the buffers hold exactly these signals, each record about to be written or
  already written is a merge of exactly the signals claimed under its consumed keys
  (\<open>built\<close>), and every key that is emitted was consumed by a written record. What a record
  asserts can then be read off its signals, and those come from received log records and
  spans.
\<close>

section \<open>Merging a set of signals\<close>

text \<open>
  \<open>built S ex\<close>: the record \<open>ex\<close> was put together by merging the signals of \<open>S\<close>, each stamped
  with some observer, in some order and grouping.
\<close>

inductive built :: "execution set \<Rightarrow> execution \<Rightarrow> bool" where
  single: "built {ex} (stamp p ex)"
| both: "built A a \<Longrightarrow> built B b \<Longrightarrow> built (A \<union> B) (merge a b)"

lemma built_nonempty: "built S ex \<Longrightarrow> finite S \<and> S \<noteq> {}"
  by (induction rule: built.induct) auto

text \<open>The record stored under a key, if there is one, is built from \<open>S\<close>.\<close>

fun holds_signals :: "execution option \<Rightarrow> execution set \<Rightarrow> bool" where
  "holds_signals None S \<longleftrightarrow> S = {}"
| "holds_signals (Some ex) S \<longleftrightarrow> built S ex"

definition pair_holds :: "execution option \<Rightarrow> execution option \<Rightarrow> execution set \<Rightarrow> bool" where
  "pair_holds sp lg S \<longleftrightarrow> (\<exists>A B. S = A \<union> B \<and> holds_signals sp A \<and> holds_signals lg B)"

lemma pair_holds_None [simp]: "pair_holds None None S \<longleftrightarrow> S = {}"
  by (auto simp: pair_holds_def)

lemma pair_holds_empty: "pair_holds sp lg {} \<longleftrightarrow> sp = None \<and> lg = None"
  by (cases sp; cases lg) (auto simp: pair_holds_def dest: built_nonempty)

text \<open>Storing one more record beside or onto what is held.\<close>

definition merged_onto :: "execution option \<Rightarrow> execution \<Rightarrow> execution" where
  "merged_onto prev ex = (case prev of Some a \<Rightarrow> merge a ex | None \<Rightarrow> ex)"

lemma holds_merged_onto:
  "holds_signals prev A \<Longrightarrow> built B ex \<Longrightarrow> holds_signals (Some (merged_onto prev ex)) (A \<union> B)"
  by (cases prev) (auto simp: merged_onto_def intro: built.both)

lemma lookup_put_merged:
  "fmlookup (put_merged key ex m) k =
     (if k = key then Some (merged_onto (fmlookup m key) ex) else fmlookup m k)"
  by (simp add: put_merged_def merged_onto_def split: option.split)

lemma pair_holds_left:
  assumes "pair_holds sp lg S" and "built T ex"
  shows "pair_holds (Some (merged_onto sp ex)) lg (S \<union> T)"
  using assms holds_merged_onto [of sp _ T ex]
  by (auto simp: pair_holds_def) (metis Un_assoc Un_commute)

lemma pair_holds_right:
  assumes "pair_holds sp lg S" and "built T ex"
  shows "pair_holds sp (Some (merged_onto lg ex)) (S \<union> T)"
  using assms holds_merged_onto [of lg _ T ex]
  by (auto simp: pair_holds_def) (metis Un_assoc)

definition fold_onto :: "execution option \<Rightarrow> execution option \<Rightarrow> execution option" where
  "fold_onto pend active = (case pend of None \<Rightarrow> active | Some ex \<Rightarrow> Some (merged_onto active ex))"

lemma lookup_fold_back:
  "fmlookup (fold_back key pend m) k =
     (if k = key then fold_onto (fmlookup pend key) (fmlookup m key) else fmlookup m k)"
  by (simp add: fold_back_def fold_onto_def lookup_put_merged split: option.split)

lemma holds_fold_onto:
  "holds_signals act A \<Longrightarrow> holds_signals pend B \<Longrightarrow> holds_signals (fold_onto pend act) (A \<union> B)"
  using holds_merged_onto [of act A B] by (cases pend) (auto simp: fold_onto_def)

lemma pair_holds_fold:
  assumes "pair_holds sp lg S" and "pair_holds psp plg T"
  shows "pair_holds (fold_onto psp sp) (fold_onto plg lg) (S \<union> T)"
proof -
  obtain A B C D where e: "S = A \<union> B" "T = C \<union> D" and
    h: "holds_signals sp A" "holds_signals lg B" "holds_signals psp C" "holds_signals plg D"
    using assms by (auto simp: pair_holds_def)
  have "S \<union> T = (A \<union> C) \<union> (B \<union> D)" by (auto simp: e)
  with h show ?thesis unfolding pair_holds_def by (blast intro: holds_fold_onto)
qed

section \<open>The history of a run\<close>

record history =
  taken :: "string \<Rightarrow> execution set"
  claimed :: "string \<Rightarrow> execution set"

definition no_history :: history where
  "no_history = \<lparr>taken = \<lambda>k. {}, claimed = \<lambda>k. {}\<rparr>"

text \<open>
  The signals a step takes in: those that leave \<open>received\<close>, have a join key, and whose key has
  not been emitted. A step that starts an assembly fixes, for every key not yet emitted, the
  signals taken in so far.
\<close>

definition taken_by :: "'s sys \<Rightarrow> 's sys \<Rightarrow> execution set" where
  "taken_by s t =
     {ex. (\<exists>sg. (Some ex, sg) \<in># received s - received t) \<and>
          record_key ex \<noteq> [] \<and> record_key ex \<notin> emitted (proc s)}"

definition observe :: "'s sys \<Rightarrow> 's sys \<Rightarrow> history \<Rightarrow> history" where
  "observe s t h =
     \<lparr>taken = \<lambda>k. taken h k \<union> {ex \<in> taken_by s t. record_key ex = k},
      claimed = if phase s = Idle \<and> phase t \<noteq> Idle
                then (\<lambda>k. if k \<in> emitted (proc s) then claimed h k else taken h k)
                else claimed h\<rparr>"

inductive run_history ::
  "float_lib \<Rightarrow> ('s, 'e) sink_write option \<Rightarrow> int \<Rightarrow> 's \<Rightarrow> 's sys \<Rightarrow> history \<Rightarrow> bool"
  for fl sink wait s0 where
  start: "run_history fl sink wait s0 (init_sys wait s0) no_history"
| more: "run_history fl sink wait s0 s h \<Longrightarrow> step fl sink s t \<Longrightarrow>
    run_history fl sink wait s0 t (observe s t h)"

lemma run_history_reachable: "run_history fl sink wait s0 s h \<Longrightarrow> reachable fl sink wait s0 s"
  by (induction rule: run_history.induct) (auto intro: reachable.intros)

lemma reachable_run_history: "reachable fl sink wait s0 s \<Longrightarrow> \<exists>h. run_history fl sink wait s0 s h"
  by (induction rule: reachable.induct) (blast intro: run_history.intros)+

section \<open>The buffers hold what was taken in\<close>

definition active_pair :: "processor \<Rightarrow> string \<Rightarrow> execution set \<Rightarrow> bool" where
  "active_pair p k S \<longleftrightarrow> pair_holds (fmlookup (spans p) k) (fmlookup (logs p) k) S"

definition pending_pair :: "processor \<Rightarrow> string \<Rightarrow> execution set \<Rightarrow> bool" where
  "pending_pair p k S \<longleftrightarrow> pair_holds (fmlookup (pendingSpans p) k) (fmlookup (pendingLogs p) k) S"

text \<open>
  Under a key that is not emitted the processor holds the signals taken in: the active maps
  some of them, and while the key is in flight exactly those that were claimed, the pending
  maps the rest.
\<close>

definition accounted :: "history \<Rightarrow> processor \<Rightarrow> bool" where
  "accounted h p \<longleftrightarrow>
     (\<forall>k. k \<notin> emitted p \<longrightarrow>
        (\<exists>C D. active_pair p k C \<and> pending_pair p k D \<and> taken h k = C \<union> D \<and>
               (k \<in> inFlight p \<longrightarrow> C = claimed h k)))"

definition claimed_under :: "history \<Rightarrow> assembled \<Rightarrow> execution set" where
  "claimed_under h a = (\<Union>k \<in> set (a_consumedKeys a). claimed h k)"

definition history_inv :: "'s sys \<Rightarrow> history \<Rightarrow> bool" where
  "history_inv s h \<longleftrightarrow>
     accounted h (proc s) \<and>
     (\<forall>a \<in> set (remaining (phase s)) \<union> set (written s). built (claimed_under h a) (a_ex a)) \<and>
     consumed (written s) \<subseteq> emitted (proc s) \<union> consumed (unacked (phase s)) \<and>
     emitted (proc s) \<subseteq> consumed (written s) \<and>
     set (unacked (phase s)) \<subseteq> set (written s) \<and>
     (\<forall>k. claimed h k \<subseteq> taken h k) \<and>
     (\<forall>k. \<forall>ex \<in> taken h k. record_key ex = k)"

lemma no_pending_lookup:
  assumes "proc_inv p" and "fmlookup (pendingFirstSeen p) k = None"
  shows "fmlookup (pendingSpans p) k = None \<and> fmlookup (pendingLogs p) k = None"
proof -
  have "k \<notin> fmdom' (pendingSpans p) \<union> fmdom' (pendingLogs p)"
    using assms by (metis in_fmdom'_iff proc_inv_def)
  then show ?thesis by (simp add: in_fmdom'_iff)
qed

lemma not_in_flight_no_pending:
  assumes "proc_inv p" and "k \<notin> inFlight p"
  shows "fmlookup (pendingSpans p) k = None" and "fmlookup (pendingLogs p) k = None"
  using assms by (auto simp: proc_inv_def fmlookup_dom'_iff)


lemma accounted_buffer:
  assumes "proc_inv p" and "accounted h p"
    and "N = (if record_key ex = [] \<or> record_key ex \<in> emitted p then {} else {ex})"
    and "taken h' = (\<lambda>k. taken h k \<union> {e \<in> N. record_key e = k})" and "claimed h' = claimed h"
  shows "accounted h' (buffer now ex signal p)"
proof (cases "record_key ex = [] \<or> record_key ex \<in> emitted p")
  case True
  with assms(3-5) have "taken h' = taken h" "claimed h' = claimed h" by auto
  with True assms(2) show ?thesis
    by (auto simp: buffer_def Let_def record_key_def accounted_def active_pair_def pending_pair_def)
next
  case False
  let ?key = "record_key ex" and ?q = "buffer now ex signal p"
  have tk: "taken h' k = (if k = ?key then insert ex (taken h k) else taken h k)" for k
    using False assms(3,4) by auto
  have use: "hasPending ?key p \<Longrightarrow> ?key \<in> inFlight p"
    using assms(1) by (auto simp: hasPending_iff proc_inv_def)
  have one: "built {ex} (stamp p ex)" by (rule built.single)
  show ?thesis unfolding accounted_def
  proof (intro allI impI)
    fix k
    assume "k \<notin> emitted ?q"
    then obtain C D where cd: "active_pair p k C" "pending_pair p k D" "taken h k = C \<union> D"
      "k \<in> inFlight p \<Longrightarrow> C = claimed h k"
      using assms(2) by (auto simp: accounted_def)
    consider "k \<noteq> ?key" | "k = ?key" "?key \<in> inFlight p" | "k = ?key" "?key \<notin> inFlight p" by blast
    then show "\<exists>C D. active_pair ?q k C \<and> pending_pair ?q k D \<and> taken h' k = C \<union> D \<and>
        (k \<in> inFlight ?q \<longrightarrow> C = claimed h' k)"
    proof cases
      case 1
      then have "active_pair ?q k C" "pending_pair ?q k D"
        using cd(1,2) False
        by (auto simp: buffer_def Let_def active_pair_def pending_pair_def lookup_put_merged
            record_key_def)
      with 1 cd(3,4) show ?thesis by (auto simp: tk assms(5))
    next
      case 2
      then have "active_pair ?q k C" "pending_pair ?q k (D \<union> {ex})"
        using cd(1,2) False pair_holds_left [OF _ one] pair_holds_right [OF _ one]
        by (auto simp: buffer_def Let_def active_pair_def pending_pair_def lookup_put_merged
            record_key_def)
      with 2 cd(3,4) show ?thesis
        by (intro exI [of _ C] exI [of _ "D \<union> {ex}"]) (auto simp: tk assms(5))
    next
      case 3
      then have "active_pair ?q k (C \<union> {ex})" "pending_pair ?q k D"
        using cd(1,2) False use pair_holds_left [OF _ one] pair_holds_right [OF _ one]
        by (auto simp: buffer_def Let_def active_pair_def pending_pair_def lookup_put_merged
            record_key_def)
      with 3 cd(3,4) show ?thesis
        by (intro exI [of _ "C \<union> {ex}"] exI [of _ D]) (auto simp: tk assms(5))
    qed
  qed
qed

text \<open>Acknowledging a record takes its keys out of what is accounted for, and nothing else.\<close>

lemma fold_ack_lookup:
  "fmlookup (spans (fold ack_key ks p)) k = (if k \<in> set ks then None else fmlookup (spans p) k)"
  "fmlookup (logs (fold ack_key ks p)) k = (if k \<in> set ks then None else fmlookup (logs p) k)"
  "fmlookup (pendingSpans (fold ack_key ks p)) k =
     (if k \<in> set ks then None else fmlookup (pendingSpans p) k)"
  "fmlookup (pendingLogs (fold ack_key ks p)) k =
     (if k \<in> set ks then None else fmlookup (pendingLogs p) k)"
  by (induction ks arbitrary: p) auto

lemma accounted_acknowledge: "accounted h p \<Longrightarrow> accounted h (acknowledge a p)"
  by (auto simp: accounted_def active_pair_def pending_pair_def acknowledge_def fold_ack_lookup)

lemma accounted_restore_key:
  assumes "proc_inv p" and "accounted h p"
  shows "accounted h (restore_key key p)"
  unfolding accounted_def
proof (intro allI impI)
  fix k
  let ?q = "restore_key key p"
  assume "k \<notin> emitted ?q"
  then have "k \<notin> emitted p" by (simp add: restore_key_fields(2) [OF assms(1)])
  then obtain C D where cd: "active_pair p k C" "pending_pair p k D" "taken h k = C \<union> D"
    "k \<in> inFlight p \<Longrightarrow> C = claimed h k"
    using assms(2) by (auto simp: accounted_def)
  show "\<exists>C D. active_pair ?q k C \<and> pending_pair ?q k D \<and> taken h k = C \<union> D \<and>
      (k \<in> inFlight ?q \<longrightarrow> C = claimed h k)"
  proof (cases "k = key")
    case False
    with cd show ?thesis
      by (intro exI [of _ C] exI [of _ D])
        (auto simp: restore_key_def mergePendingIntoActive_def active_pair_def pending_pair_def
          lookup_fold_back split: option.split)
  next
    case True
    have none: "fmlookup (pendingFirstSeen p) key = None \<Longrightarrow>
        fmlookup (pendingSpans p) key = None \<and> fmlookup (pendingLogs p) key = None"
      by (rule no_pending_lookup [OF assms(1)])
    have "active_pair ?q k (C \<union> D)"
      using pair_holds_fold [OF cd(1) [unfolded active_pair_def] cd(2) [unfolded pending_pair_def]]
        True none
      by (cases "fmlookup (pendingFirstSeen p) key")
        (auto simp: restore_key_def mergePendingIntoActive_def active_pair_def lookup_fold_back
          fold_onto_def)
    moreover have "pending_pair ?q k {}"
      using True none by (cases "fmlookup (pendingFirstSeen p) key")
        (auto simp: restore_key_def mergePendingIntoActive_def pending_pair_def)
    moreover have "k \<notin> inFlight ?q" using True by (simp add: restore_key_def Let_def)
    ultimately show ?thesis using cd(3) by blast
  qed
qed

lemma accounted_restoreReserved:
  assumes "proc_inv p" and "accounted h p"
  shows "accounted h (restoreReserved out p)"
proof -
  have "proc_inv (fold restore_key ks q) \<and> accounted h (fold restore_key ks q)"
    if "proc_inv q" "accounted h q" for ks q
    using that by (induction ks arbitrary: q) (auto simp: proc_inv_restore_key accounted_restore_key)
  with assms show ?thesis by (simp add: restoreReserved_def)
qed

section \<open>What is claimed is built from what was taken in\<close>

definition merge_opt :: "execution \<Rightarrow> execution option \<Rightarrow> execution" where
  "merge_opt ex other = (case other of None \<Rightarrow> ex | Some e \<Rightarrow> merge ex e)"

lemma built_merge_opt: "built A ex \<Longrightarrow> holds_signals other B \<Longrightarrow> built (A \<union> B) (merge_opt ex other)"
  by (cases other) (auto simp: merge_opt_def intro: built.both)

lemma mergeParent_ex:
  "a_ex (mergeParent a k p) =
     merge_opt (merge_opt (a_ex a) (fmlookup (spans p) k)) (fmlookup (logs p) k)"
  by (cases "fmlookup (spans p) k"; cases "fmlookup (logs p) k")
    (simp_all add: mergeParent_def merge_opt_def)

lemma mergeParent_built:
  assumes "built A (a_ex a)" and "active_pair p k P"
  shows "built (A \<union> P) (a_ex (mergeParent a k p))"
proof -
  obtain B C where "P = B \<union> C" "holds_signals (fmlookup (spans p) k) B"
    "holds_signals (fmlookup (logs p) k) C"
    using assms(2) by (auto simp: active_pair_def pair_holds_def)
  with assms(1) show ?thesis
    by (simp add: mergeParent_ex built_merge_opt Un_assoc [symmetric])
qed

lemma assembleKey_ex:
  assumes "assembleKey key p = Some a" and "fmlookup (spans p) key = Some sp"
  shows "\<exists>b. a_ex b = sp \<and> a_consumedKeys b = [key] \<and>
      a_consumedKeys a = a_consumedKeys (if names_parent sp then mergeParent b (parent_key sp) p else b) \<and>
      a_ex a = merge_opt (a_ex (if names_parent sp then mergeParent b (parent_key sp) p else b))
        (fmlookup (logs p) key)"
  using assms
  by (intro exI [of _ "\<lparr>a_key = key, a_consumedKeys = [key], a_ex = sp,
        a_both = (fmlookup (logs p) key \<noteq> None), a_loggy = False, a_parentsSuppressed = 0\<rparr>"])
    (auto simp: assembleKey_def Let_def merge_opt_def split: option.splits)

lemma assembleKey_built:
  assumes "assembleKey key p = Some a"
    and "\<And>k. k \<in> set (a_consumedKeys a) \<Longrightarrow> active_pair p k (C k)"
  shows "built (\<Union>k \<in> set (a_consumedKeys a). C k) (a_ex a)"
proof (cases "fmlookup (spans p) key")
  case None
  then obtain l where "fmlookup (logs p) key = Some l" "a_ex a = l" "a_consumedKeys a = [key]"
    using assms(1) by (auto simp: assembleKey_def split: option.splits)
  with None assms(2) [of key] show ?thesis
    by (auto simp: active_pair_def pair_holds_def)
next
  case (Some sp)
  obtain b where b: "a_ex b = sp" "a_consumedKeys b = [key]"
    "a_consumedKeys a = a_consumedKeys (if names_parent sp then mergeParent b (parent_key sp) p else b)"
    "a_ex a = merge_opt (a_ex (if names_parent sp then mergeParent b (parent_key sp) p else b))
        (fmlookup (logs p) key)"
    using assembleKey_ex [OF assms(1) Some] by blast
  have "key \<in> set (a_consumedKeys a)" by (simp add: b)
  then obtain A B where ab: "C key = A \<union> B" "built A sp" "holds_signals (fmlookup (logs p) key) B"
    using assms(2) [of key] Some by (auto simp: active_pair_def pair_holds_def)
  define P where "P = (if names_parent sp \<and> parent_key sp \<in> fmdom' (spans p) \<union> fmdom' (logs p)
    then C (parent_key sp) else {})"
  have un: "(\<Union>k \<in> set (a_consumedKeys a). C k) = (A \<union> P) \<union> B"
    by (auto simp: b(2,3) P_def ab(1) split: if_splits)
  have "active_pair p (parent_key sp) P" if "names_parent sp"
    using that assms(2) [of "parent_key sp"]
    by (auto simp: P_def b(2,3) active_pair_def in_fmdom'_iff)
  then have "built (A \<union> P) (a_ex (if names_parent sp then mergeParent b (parent_key sp) p else b))"
    using mergeParent_built [of A b p "parent_key sp" P] ab(2) by (auto simp: b(1) P_def)
  then show ?thesis unfolding un b(4) by (rule built_merge_opt) (rule ab(3))
qed

lemma claim_built:
  assumes inv: "proc_inv p" "inFlight p = {}" "accounted h p"
    and "claim cutoff rng p = (out, p')"
    and "\<And>k. claimed h' k = (if k \<in> emitted p then claimed h k else taken h k)" and "taken h' = taken h"
  shows "accounted h' p'" and "\<forall>a \<in> set out. built (claimed_under h' a) (a_ex a)"
proof -
  have out: "out = snapshot cutoff rng p"
    and p': "p' = p\<lparr>inFlight := inFlight p \<union> consumed out\<rparr>"
    using assms(4) by (auto simp: claim_snapshot consumed_def)
  have act: "active_pair p k (claimed h' k)" if k: "k \<notin> emitted p" for k
  proof -
    obtain A D where "active_pair p k A" "pending_pair p k D" "taken h k = A \<union> D"
      using inv(3) k by (auto simp: accounted_def)
    moreover have "D = {}"
      using \<open>pending_pair p k D\<close> not_in_flight_no_pending [OF inv(1), of k] inv(2)
      by (simp add: pending_pair_def)
    ultimately show ?thesis using k by (simp add: assms(5))
  qed
  show "accounted h' p'"
  proof (unfold accounted_def, intro allI impI)
    fix k
    assume "k \<notin> emitted p'"
    then have k: "k \<notin> emitted p" by (simp add: p')
    have "pending_pair p k {}"
      using not_in_flight_no_pending [OF inv(1), of k] inv(2) by (simp add: pending_pair_def)
    with act [OF k] show "\<exists>A D. active_pair p' k A \<and> pending_pair p' k D \<and> taken h' k = A \<union> D \<and>
        (k \<in> inFlight p' \<longrightarrow> A = claimed h' k)"
      by (intro exI [of _ "claimed h' k"] exI [of _ "{}"])
        (simp add: p' active_pair_def pending_pair_def assms(5,6) k)
  qed
  show "\<forall>a \<in> set out. built (claimed_under h' a) (a_ex a)"
  proof
    fix a
    assume a: "a \<in> set out"
    then obtain key where "assembleKey key p = Some a" by (auto simp: out in_snapshot)
    moreover have "set (a_consumedKeys a) \<subseteq> - emitted p"
      using snapshot_members(3) [OF inv(1) a [unfolded out]] inv(1) by (auto simp: proc_inv_def)
    ultimately show "built (claimed_under h' a) (a_ex a)"
      unfolding claimed_under_def by (intro assembleKey_built) (auto intro: act)
  qed
qed

section \<open>Every step keeps the history true\<close>

lemma observe_quiet:
  assumes "received s \<subseteq># received t" and "phase s \<noteq> Idle \<or> phase t = Idle"
  shows "observe s t h = h"
proof -
  have "received s - received t = {#}" using assms(1) by (simp add: Diff_eq_empty_iff_mset)
  then have "taken_by s t = {}" by (simp add: taken_by_def)
  with assms(2) show ?thesis by (auto simp: observe_def)
qed

lemma observe_process:
  assumes "es \<in># received s"
    and "t = s\<lparr>proc := take_signal now es (proc s), received := received s - {#es#}\<rparr>"
  shows "observe s t h = h\<lparr>taken := \<lambda>k. taken h k \<union> {ex \<in> taken_by s t. record_key ex = k}\<rparr>"
    and "taken_by s t = (case es of (None, _) \<Rightarrow> {} | (Some ex, _) \<Rightarrow>
      if record_key ex = [] \<or> record_key ex \<in> emitted (proc s) then {} else {ex})"
proof -
  obtain M where M: "received s = M + {#es#}"
    using multi_member_split [OF assms(1)] by auto
  then have "received t = M" by (simp add: assms(2))
  with M have "received s - received t = {#es#}" by simp
  then show "taken_by s t = (case es of (None, _) \<Rightarrow> {} | (Some ex, _) \<Rightarrow>
      if record_key ex = [] \<or> record_key ex \<in> emitted (proc s) then {} else {ex})"
    by (cases es) (auto simp: taken_by_def split: option.split)
  show "observe s t h = h\<lparr>taken := \<lambda>k. taken h k \<union> {ex \<in> taken_by s t. record_key ex = k}\<rparr>"
    by (simp add: observe_def assms(2))
qed

lemma history_invD:
  assumes "history_inv s h"
  shows "accounted h (proc s)"
    and "a \<in> set (remaining (phase s)) \<or> a \<in> set (written s) \<Longrightarrow> built (claimed_under h a) (a_ex a)"
    and "consumed (written s) \<subseteq> emitted (proc s) \<union> consumed (unacked (phase s))"
    and "emitted (proc s) \<subseteq> consumed (written s)"
    and "set (unacked (phase s)) \<subseteq> set (written s)"
    and "claimed h k \<subseteq> taken h k"
    and "ex \<in> taken h k \<Longrightarrow> record_key ex = k"
  using assms unfolding history_inv_def by blast+

lemma history_invI:
  assumes "accounted h (proc s)"
    and "\<And>a. a \<in> set (remaining (phase s)) \<Longrightarrow> built (claimed_under h a) (a_ex a)"
    and "\<And>a. a \<in> set (written s) \<Longrightarrow> built (claimed_under h a) (a_ex a)"
    and "consumed (written s) \<subseteq> emitted (proc s) \<union> consumed (unacked (phase s))"
    and "emitted (proc s) \<subseteq> consumed (written s)"
    and "set (unacked (phase s)) \<subseteq> set (written s)"
    and "\<And>k. claimed h k \<subseteq> taken h k"
    and "\<And>k ex. ex \<in> taken h k \<Longrightarrow> record_key ex = k"
  shows "history_inv s h"
  using assms unfolding history_inv_def by blast

text \<open>A step that takes nothing in, claims nothing and writes nothing.\<close>

lemma history_frame:
  assumes "history_inv s h" and "received s \<subseteq># received t" and "phase s \<noteq> Idle \<or> phase t = Idle"
    and "accounted h (proc s) \<Longrightarrow> accounted h (proc t)"
    and "emitted (proc t) = emitted (proc s)" and "written t = written s"
    and "set (remaining (phase t)) \<subseteq> set (remaining (phase s))"
    and "unacked (phase t) = unacked (phase s)"
  shows "history_inv t (observe s t h)"
  unfolding observe_quiet [OF assms(2,3)]
  using history_invD [OF assms(1)] assms(4-8) unfolding history_inv_def by auto

lemma accounted_same:
  "spans q = spans p \<Longrightarrow> logs q = logs p \<Longrightarrow> pendingSpans q = pendingSpans p \<Longrightarrow>
   pendingLogs q = pendingLogs p \<Longrightarrow> inFlight q = inFlight p \<Longrightarrow> emitted q = emitted p \<Longrightarrow>
   accounted h q = accounted h p"
  by (simp add: accounted_def active_pair_def pending_pair_def)

lemma accounted_count [simp]: "accounted h (count_stat fn p) = accounted h p"
  by (rule accounted_same) simp_all

lemma history_inv_init: "history_inv (init_sys wait s0) no_history"
  by (simp add: history_inv_def init_sys_def no_history_def accounted_def active_pair_def
      pending_pair_def NewProcessor_def)

lemma claimed_under_same: "claimed h' = claimed h \<Longrightarrow> claimed_under h' a = claimed_under h a"
  by (simp add: claimed_under_def)

lemma consumed_append [simp]: "consumed (xs @ ys) = consumed xs \<union> consumed ys"
  by (simp add: consumed_def)

lemma history_process:
  assumes "history_inv s h" and "sys_inv s" and "es \<in># received s"
    and t: "t = s\<lparr>proc := take_signal now es (proc s), received := received s - {#es#}\<rparr>"
  shows "history_inv t (observe s t h)"
proof -
  note ob = observe_process [OF assms(3) t]
  note h = history_invD [OF assms(1)]
  have "accounted (observe s t h) (take_signal now es (proc s))"
  proof (cases "fst es")
    case None
    then have e: "taken_by s t = {}" unfolding ob(2) by (auto split: prod.split)
    have "observe s t h = h" unfolding ob(1) e by simp
    with None h(1) show ?thesis by (cases es) (simp add: take_signal_def)
  next
    case (Some ex)
    with ob(2) have N: "taken_by s t =
        (if record_key ex = [] \<or> record_key ex \<in> emitted (proc s) then {} else {ex})"
      by (cases es) simp
    have "accounted (observe s t h) (buffer now ex (snd es) (proc s))"
      by (rule accounted_buffer [OF sys_invD(1) [OF assms(2)] _ N]) (use h(1) in \<open>simp_all add: ob(1)\<close>)
    with Some show ?thesis by (cases es) (simp add: take_signal_def)
  qed
  moreover have "record_key ex = k" if "ex \<in> taken (observe s t h) k" for ex k
    using that h(7) by (auto simp: ob(1))
  moreover have "claimed_under (observe s t h) a = claimed_under h a" for a
    by (rule claimed_under_same) (simp add: ob(1))
  moreover have "claimed (observe s t h) k \<subseteq> taken (observe s t h) k" for k
    using h(6) [of k] by (auto simp: ob(1))
  moreover define h' where "h' = observe s t h"
  ultimately show ?thesis
    unfolding h'_def [symmetric] using h(2-5) by (intro history_invI) (auto simp: t)
qed

lemma history_begin:
  assumes "history_inv s h" and "sys_inv s" and "phase s = Idle"
    and "claim cutoff rng (proc s) = (out, p')"
    and e: "taken h' = taken h"
    "\<And>k. claimed h' k = (if k \<in> emitted (proc s) then claimed h k else taken h k)"
  shows "history_inv (s\<lparr>proc := p', phase := Emitting out\<rparr>) h'"
proof -
  note h = history_invD [OF assms(1)]
  have idle: "inFlight (proc s) = {}"
    using sys_invD(2) [OF assms(2)] assms(3) by (simp add: batch_inv_Nil)
  note c = claim_built [OF sys_invD(1) [OF assms(2)] idle h(1) assms(4) e(2,1)]
  have old: "consumed (written s) \<subseteq> emitted (proc s)" using h(3) assms(3) by simp
  then have same: "claimed_under h' a = claimed_under h a" if "a \<in> set (written s)" for a
    using in_consumed [OF that] by (auto simp: claimed_under_def e(2))
  have em: "emitted p' = emitted (proc s)" using assms(4) by (auto simp: claim_snapshot)
  show ?thesis
  proof (rule history_invI)
    show "built (claimed_under h' a) (a_ex a)"
      if "a \<in> set (written (s\<lparr>proc := p', phase := Emitting out\<rparr>))" for a
      using that h(2) [of a] same by simp
    show "claimed h' k \<subseteq> taken h' k" for k using h(6) [of k] by (simp add: e)
    show "ex \<in> taken h' k \<Longrightarrow> record_key ex = k" for ex k using h(7) by (simp add: e(1))
  qed (use c old em h(4) in simp_all)
qed

lemma step_history:
  assumes "step fl sink s t" and "sys_inv s" and "history_inv s h"
  shows "history_inv t (observe s t h)"
proof -
  note frame = history_frame [OF assms(3), of t]
  note h = history_invD [OF assms(3)]
  from assms(1) show ?thesis
  proof (cases rule: step.cases)
    case (set_observer i v)
    have "accounted h (SetObserver i v (proc s)) = accounted h (proc s)"
      by (rule accounted_same) (simp_all add: SetObserver_def)
    then show ?thesis by (intro frame) (simp_all add: set_observer)
  next
    case (receive_log r)
    then show ?thesis by (intro frame) simp_all
  next
    case (receive_span sp)
    then show ?thesis by (intro frame) simp_all
  next
    case (process es now)
    then show ?thesis by (intro history_process [OF assms(3,2)])
  next
    case (begin_assembly rng cutoff out p')
    have "history_inv (s\<lparr>proc := p', phase := Emitting out\<rparr>) (observe s t h)"
      by (rule history_begin [OF assms(3,2) begin_assembly(2,4)])
        (auto simp: observe_def taken_by_def begin_assembly(1,2))
    then show ?thesis by (simp only: begin_assembly(1))
  next
    case (emit_skip a out)
    then show ?thesis by (intro frame) auto
  next
    case (emit_start a out)
    then show ?thesis by (intro frame) auto
  next
    case (write_ok a out s')
    have o: "observe s t h = h" by (rule observe_quiet) (simp_all add: write_ok)
    show ?thesis unfolding o using assms(3) write_ok by (auto simp: history_inv_def)
  next
    case (write_err a out e s')
    then show ?thesis by (intro frame) auto
  next
    case (ack a out)
    have o: "observe s t h = h" by (rule observe_quiet) (simp_all add: ack)
    have "set (a_consumedKeys a) \<subseteq> consumed (written s)"
      using h(5) ack(2) by (intro in_consumed) simp
    moreover have "built (claimed_under h b) (a_ex b)" if "b \<in> set (remaining (phase t))" for b
      using that h(2) [of b] ack by simp
    moreover have "built (claimed_under h b) (a_ex b)" if "b \<in> set (written t)" for b
      using that h(2) [of b] ack(1) by simp
    moreover note accounted_acknowledge [OF h(1), of a] h(3-7)
    ultimately show ?thesis unfolding o by (intro history_invI) (auto simp: ack)
  next
    case (count_failure a out)
    then show ?thesis by (intro frame) (auto simp: write_failed_def)
  next
    case (restore out)
    note p = sys_invD(1) [OF assms(2)]
    show ?thesis
      using restoreReserved_fields(3) [OF p, of out] accounted_restoreReserved [OF p, of h out] restore
      by (intro frame) auto
  next
    case finish
    then show ?thesis by (intro frame) simp_all
  qed
qed

lemma run_history_inv: "run_history fl sink wait s0 s h \<Longrightarrow> history_inv s h"
proof (induction rule: run_history.induct)
  case start
  show ?case by (rule history_inv_init)
next
  case (more s h t)
  then show ?case by (intro step_history reachable_inv [OF run_history_reachable])
qed

section \<open>Where the signals come from\<close>

text \<open>
  Some log record or span with the attributes \<open>m\<close> is normalized to \<open>ex\<close>. Which messages were really
  received is the subject of \<open>Attribution\<close>.
\<close>

definition signal_of :: "float_lib \<Rightarrow> (string, string) fmap \<Rightarrow> execution \<Rightarrow> bool" where
  "signal_of fl m ex \<longleftrightarrow>
     (\<exists>r. FromLogRecord fl (Some r) = Some ex \<and> m = attributeMap fl (lr_Attributes r)) \<or>
     (\<exists>s. FromSpan fl (Some s) = Some ex \<and> m = attributeMap fl (sp_Attributes s))"

definition ids_of :: "(string, string) fmap \<Rightarrow> string set" where
  "ids_of m =
     (\<Union>key \<in> set OperationIDKeys. trim_space ` set (split_on (CHR '','') (gets m key))) - {[]}"

lemma FromLogRecord_signal: "FromLogRecord fl r = Some ex \<Longrightarrow> \<exists>m. signal_of fl m ex"
  by (cases r) (auto simp: signal_of_def FromLogRecord_def)

lemma FromSpan_signal: "FromSpan fl r = Some ex \<Longrightarrow> \<exists>m. signal_of fl m ex"
  by (cases r) (auto simp: signal_of_def FromSpan_def)

lemma signal_wf: "signal_of fl m ex \<Longrightarrow> exec_wf ex"
  by (auto simp: signal_of_def intro: FromLogRecord_wf FromSpan_wf)

lemma set_gather_ids: "set (gather_ids vs X) = trim_space ` set vs - {[]} - X"
  by (induction vs X rule: gather_ids.induct) (auto simp: Let_def)

lemma set_present_operationID: "set (present_ids (operationID m)) = ids_of m"
proof -
  have "set (operationID m) = ids_of m"
    by (auto simp: operationID_def set_gather_ids ids_of_def)
  moreover have "trim_space i = i \<and> i \<noteq> []" if "i \<in> ids_of m" for i
    using that by (auto simp: ids_of_def)
  ultimately show ?thesis by (auto simp: present_ids_def)
qed

lemma signal_fields:
  assumes "signal_of fl m ex"
  shows "exec_attribution ex = attribution_of (ids_of m)" and "Tool ex = attr m ''gen_ai.tool.name''"
proof -
  have "Correlation ex = fst (classify m) \<and> OperationID ex = fst (snd (classify m)) \<and>
      Tool ex = attr m ''gen_ai.tool.name''"
    using assms by (auto simp: signal_of_def elim!: FromLogRecord_Some FromSpan_Some)
  then show "exec_attribution ex = attribution_of (ids_of m)" "Tool ex = attr m ''gen_ai.tool.name''"
    using ClassifyOperation_refines [of "operationID m"]
    by (simp_all add: exec_attribution_def classify_def case_prod_beta set_present_operationID)
qed

lemma received_signals:
  "reachable fl sink wait s0 s \<Longrightarrow> (Some ex, sg) \<in># received s \<Longrightarrow> \<exists>m. signal_of fl m ex"
proof (induction arbitrary: ex sg rule: reachable.induct)
  case start
  then show ?case by (simp add: init_sys_def)
next
  case (more s t)
  from more.hyps(2) more.prems more.IH show ?case
    by (cases rule: step.cases) (auto intro: FromLogRecord_signal FromSpan_signal dest: in_diffD)
qed

lemma taken_signals:
  "run_history fl sink wait s0 s h \<Longrightarrow> ex \<in> taken h k \<Longrightarrow> \<exists>m. signal_of fl m ex"
proof (induction arbitrary: ex k rule: run_history.induct)
  case start
  then show ?case by (simp add: no_history_def)
next
  case (more s h t)
  then show ?case
    using received_signals [OF run_history_reachable [OF more.hyps(1)]]
    by (auto simp: observe_def taken_by_def dest: in_diffD)
qed

lemma claimed_signals:
  assumes "run_history fl sink wait s0 s h" and "ex \<in> claimed_under h a"
  shows "\<exists>m. signal_of fl m ex" and "record_key ex \<in> set (a_consumedKeys a)"
  using assms taken_signals [OF assms(1)] history_invD(6,7) [OF run_history_inv [OF assms(1)]]
  by (auto simp: claimed_under_def) blast+

section \<open>What a merge of signals asserts\<close>

lemma stamp_asserts [simp]:
  "exec_attribution (stamp p ex) = exec_attribution ex" "verdict (stamp p ex) = verdict ex"
  "corr_ok (stamp p ex) = corr_ok ex" "Tool (stamp p ex) = Tool ex"
  by (simp_all add: stamp_def verdict_def exec_attribution_def corr_ok_def)

lemma built_corr_ok: "built S ex \<Longrightarrow> \<forall>e \<in> S. corr_ok e \<Longrightarrow> corr_ok ex"
  by (induction rule: built.induct) (auto intro: merge_corr_ok)

lemma built_verdict:
  "built S ex \<Longrightarrow> \<forall>e \<in> S. corr_ok e \<Longrightarrow> verdict ex = Sup_fin (verdict ` S)"
proof (induction rule: built.induct)
  case (both A a B b)
  then have "verdict (merge a b) = sup (Sup_fin (verdict ` A)) (Sup_fin (verdict ` B))"
    using verdict_merge [of a b] by (auto dest: built_corr_ok)
  then show ?case
    using both.hyps by (simp add: image_Un Sup_fin.union built_nonempty)
qed simp

lemma built_tool: "built S ex \<Longrightarrow> \<exists>e \<in> S. Tool ex = Tool e"
  by (induction rule: built.induct) (auto simp: mergeField_def)

lemma attribution_of_iff:
  "attribution_of X = NoId \<longleftrightarrow> X = {}"
  "attribution_of X = OneId i \<longleftrightarrow> X = {i} \<and> ValidOperationID i"
  "attribution_of X = Conflict \<longleftrightarrow> X \<noteq> {} \<and> (\<forall>i. X = {i} \<longrightarrow> \<not> ValidOperationID i)"
  by (auto simp: attribution_of_def)

lemma sup_attribution_of: "sup (attribution_of A) (attribution_of B) = attribution_of (A \<union> B)"
proof (cases "A = {} \<or> B = {} \<or> (\<exists>i. A = {i} \<and> B = {i})")
  case True
  then show ?thesis by (auto simp: sup_attribution_def)
next
  case False
  then have "attribution_of A \<noteq> NoId" "attribution_of B \<noteq> NoId"
    by (simp_all add: attribution_of_iff(1))
  moreover have "attribution_of A \<noteq> OneId i \<or> attribution_of B \<noteq> OneId i" for i
    using False by (auto simp only: attribution_of_iff(2))
  ultimately have "sup (attribution_of A) (attribution_of B) = Conflict"
    by (cases "attribution_of A"; cases "attribution_of B") (auto simp: sup_attribution_def)
  moreover have "A \<union> B \<noteq> {i}" for i
    using False by (metis Un_empty_right subset_singletonD sup.cobounded1 sup.cobounded2)
  then have "attribution_of (A \<union> B) = Conflict" using False by (auto simp: attribution_of_def)
  ultimately show ?thesis by simp
qed

lemma Sup_attribution_of:
  assumes "finite S" and "S \<noteq> {}"
  shows "Sup_fin ((\<lambda>e. attribution_of (f e)) ` S) = attribution_of (\<Union>e \<in> S. f e)"
  using assms by (induction rule: finite_ne_induct) (simp_all add: sup_attribution_of)

lemma built_attribution:
  assumes "built S ex" and "\<forall>e \<in> S. corr_ok e"
  shows "exec_attribution ex = Sup_fin (exec_attribution ` S)"
  using assms
proof (induction rule: built.induct)
  case (single ex p)
  then show ?case by simp
next
  case (both A a B b)
  then have "exec_attribution (merge a b)
      = sup (Sup_fin (exec_attribution ` A)) (Sup_fin (exec_attribution ` B))"
    using mergeCorrelation_sup [of a b] by (auto dest: built_corr_ok)
  then show ?case
    using both.hyps by (simp add: image_Un Sup_fin.union built_nonempty)
qed

section \<open>Properties\<close>

text \<open>
  C3. Every signal counts, and no other. What a written record asserts (its attribution, its
  status, what became of the payloads, which signals were seen) is the least upper bound of
  what the signals assert that the processor had taken in under the record's consumed keys
  when it claimed them: in every interleaving, across sink failures, retries and signals that
  arrive while a batch is written out. In particular a failure reported by one signal is never
  masked by the others.
\<close>

theorem record_sums_up_its_signals:
  assumes "run_history fl sink wait s0 s h" and "a \<in> set (written s)"
  shows "finite (claimed_under h a) \<and> claimed_under h a \<noteq> {} \<and>
    (\<forall>sig \<in> claimed_under h a. record_key sig \<in> set (a_consumedKeys a)) \<and>
    verdict (a_ex a) = Sup_fin (verdict ` claimed_under h a)"
proof -
  have b: "built (claimed_under h a) (a_ex a)"
    using history_invD(2) [OF run_history_inv [OF assms(1)]] assms(2) by blast
  have "\<forall>e \<in> claimed_under h a. corr_ok e"
    using claimed_signals(1) [OF assms(1)] by (blast intro: corr_ok_wf signal_wf)
  with b show ?thesis
    using built_nonempty [OF b] claimed_signals(2) [OF assms(1)] by (simp add: built_verdict)
qed

lemma taken_kept:
  assumes "run_history fl sink wait s0 s h" and "sig \<in> taken h k"
  shows "k \<in> emitted (proc s) \<union> fmdom' (firstSeen (proc s))"
proof (rule ccontr)
  assume no: "k \<notin> emitted (proc s) \<union> fmdom' (firstSeen (proc s))"
  have inv: "proc_inv (proc s)"
    by (rule sys_invD(1) [OF reachable_inv [OF run_history_reachable [OF assms(1)]]])
  obtain C D where cd: "active_pair (proc s) k C" "pending_pair (proc s) k D" "taken h k = C \<union> D"
    using history_invD(1) [OF run_history_inv [OF assms(1)]] no by (auto simp: accounted_def)
  have "k \<notin> inFlight (proc s)" using no proc_invD(5) [OF inv] by blast
  then have "C = {}" "D = {}"
    using cd(1,2) no proc_invD(3) [OF inv] not_in_flight_no_pending [OF inv, of k]
    by (auto simp: active_pair_def pending_pair_def in_fmdom'_iff)
  with cd(3) assms(2) show False by simp
qed

text \<open>
  C11. No call is lost. A signal the processor took in under a key is either still accounted
  for there (the key is buffered, so the next Flush assembles it) or the key was consumed by a
  record the sink accepted, whatever fails in between.
\<close>

theorem no_call_lost:
  assumes "run_history fl sink wait s0 s h" and "sig \<in> taken h k"
  shows "k \<in> fmdom' (firstSeen (proc s)) \<or> (\<exists>a \<in> set (written s). k \<in> set (a_consumedKeys a))"
  using taken_kept [OF assms] history_invD(4) [OF run_history_inv [OF assms(1)]]
  by (auto simp: consumed_def)

text \<open>The measured shape of one call, with its history.\<close>

lemma demo_history:
  "\<exists>s h. demo_sys s \<and> run_history plain_floats (Some recordingSink) 0 [] s h"
proof -
  obtain s where s: "demo_sys s" using demo_sys_exists ..
  then have "reachable plain_floats (Some recordingSink) 0 [] s" by (simp add: demo_sys_def)
  from reachable_run_history [OF this] s show ?thesis by blast
qed

lemma demo_written: "demo_sys s \<Longrightarrow> length (written s) = 1"
  using reachable_inv [of plain_floats "Some recordingSink" 0 "[]" s] demo_end_eval
  by (simp add: sys_inv_def log_inv_def demo_sys_def)

theorem record_sums_up_its_signals_witness:
  "\<exists>s h a. demo_sys s \<and> a \<in> set (written s) \<and> claimed_under h a \<noteq> {} \<and>
     verdict (a_ex a) = Sup_fin (verdict ` claimed_under h a)"
proof -
  obtain s h where s: "demo_sys s" "run_history plain_floats (Some recordingSink) 0 [] s h"
    using demo_history by blast
  then obtain a where "a \<in> set (written s)" using demo_written [of s] by (cases "written s") auto
  then show ?thesis using s record_sums_up_its_signals [OF s(2)] by blast
qed

theorem no_call_lost_witness:
  "\<exists>s (h :: history) k sig. demo_sys s \<and> sig \<in> taken h k \<and> (\<exists>a \<in> set (written s). k \<in> set (a_consumedKeys a))"
proof -
  obtain s h where s: "demo_sys s" "run_history plain_floats (Some recordingSink) 0 [] s h"
    using demo_history by blast
  note i = history_invD [OF run_history_inv [OF s(2)]]
  obtain a where a: "a \<in> set (written s)" using s demo_written [of s] by (cases "written s") auto
  then obtain sig where "sig \<in> claimed_under h a" using i(2) [of a] built_nonempty by blast
  then obtain k where "sig \<in> taken h k" using i(6) by (auto simp: claimed_under_def)
  moreover have "firstSeen (proc s) = fmempty" using s(1) demo_end_eval by (simp add: demo_sys_def)
  ultimately have "\<exists>a \<in> set (written s). k \<in> set (a_consumedKeys a)"
    using no_call_lost [OF s(2), of sig k] by simp
  with s(1) \<open>sig \<in> taken h k\<close> show ?thesis by blast
qed

end
