(* ===== verification/Delivery.thy ===== *)
theory Delivery
  imports Provenance
begin

text \<open>
  From the calls of the receivers to the written records. The keys the processor knows (those it
  has emitted and those it buffers) only grow, and a call makes every joinable tool call it
  hands over known. So whatever was handed over is, once the buffers are empty, part of a
  record that the sink accepted (\<open>delivered\<close>).
\<close>

definition known :: "processor \<Rightarrow> string set" where
  "known p = emitted p \<union> fmdom' (firstSeen p)"

lemma known_frame:
  "emitted q = emitted p \<Longrightarrow> firstSeen q = firstSeen p \<Longrightarrow> known q = known p"
  by (simp add: known_def)

lemma known_count [simp]: "known (count_stat fn p) = known p"
  by (simp add: known_def)

lemma known_buffer:
  assumes "proc_inv p"
  shows "known p \<subseteq> known (buffer now ex signal p)"
    and "record_key ex \<noteq> [] \<Longrightarrow> record_key ex \<in> known (buffer now ex signal p)"
proof -
  let ?key = "record_key ex"
  have "?key \<in> inFlight p \<or> hasPending ?key p \<Longrightarrow> ?key \<in> fmdom' (firstSeen p)"
    using proc_invD(4,5) [OF assms] by (auto simp: hasPending_iff)
  then show "known p \<subseteq> known (buffer now ex signal p)"
    "?key \<noteq> [] \<Longrightarrow> ?key \<in> known (buffer now ex signal p)"
    by (auto simp: known_def buffer_def Let_def record_key_def)
qed

lemma known_take_signal:
  assumes "proc_inv p"
  shows "known p \<subseteq> known (take_signal now es p)"
    and "es = (Some ex, sg) \<Longrightarrow> record_key ex \<noteq> [] \<Longrightarrow> record_key ex \<in> known (take_signal now es p)"
  using known_buffer [OF assms] by (cases es; auto simp: take_signal_def split: option.split)+

lemma step_known:
  assumes "step fl sink s t" and "sys_inv s"
  shows "known (proc s) \<subseteq> known (proc t)"
proof -
  note p = sys_invD(1) [OF assms(2)]
  from assms(1) show ?thesis
  proof (cases rule: step.cases)
    case (process es now)
    then show ?thesis using known_take_signal(1) [OF p] by simp
  next
    case (begin_assembly rng cutoff out p')
    then show ?thesis by (auto simp: claim_snapshot known_def)
  next
    case (restore out)
    then show ?thesis using restoreReserved_fields(3,4) [OF p, of out] by (simp add: known_def)
  next
    case (ack a out)
    then show ?thesis by (auto simp: known_def)
  qed (auto simp: known_def SetObserver_def write_failed_def)
qed

lemma steps_known:
  "(step fl sink)\<^sup>*\<^sup>* s t \<Longrightarrow> sys_inv s \<Longrightarrow> known (proc s) \<subseteq> known (proc t) \<and> sys_inv t"
  by (induction rule: rtranclp_induct) (auto dest: step_known intro: step_inv)

text \<open>The join keys of the tool calls that a call hands over.\<close>

definition signal_keys :: "execution option list \<Rightarrow> string set" where
  "signal_keys es = {record_key ex |ex. Some ex \<in> set es} - {[]}"

fun call_keys :: "float_lib \<Rightarrow> call \<Rightarrow> string set" where
  "call_keys fl (CallLogs rng now rs) = signal_keys (map (FromLogRecord fl) rs)"
| "call_keys fl (CallSpans rng now ss) = signal_keys (map (FromSpan fl) ss)"
| "call_keys fl (CallFlush rng) = {}"

lemma known_signal:
  assumes "proc_inv p" and "\<And>ex. e = Some ex \<Longrightarrow> exec_wf ex"
  shows "proc_inv (take_signal now (e, sg) (count_stat fn p))"
    and "known p \<union> signal_keys [e] \<subseteq> known (take_signal now (e, sg) (count_stat fn p))"
proof -
  have c: "proc_inv (count_stat fn p)" using assms(1) by simp
  show "proc_inv (take_signal now (e, sg) (count_stat fn p))"
    using take_signal_inv(1) [OF c] assms(2) by auto
  show "known p \<union> signal_keys [e] \<subseteq> known (take_signal now (e, sg) (count_stat fn p))"
    using known_take_signal(1) [OF c, of now "(e, sg)"]
      known_take_signal(2) [OF c, of "(e, sg)" _ sg now]
    by (auto simp: signal_keys_def)
qed

lemma consume_known:
  "proc_inv p \<Longrightarrow> known p \<union> signal_keys (map (FromLogRecord fl) rs) \<subseteq> known (consume_logs fl now rs p)"
  "proc_inv p \<Longrightarrow> known p \<union> signal_keys (map (FromSpan fl) ss) \<subseteq> known (consume_spans fl now ss p)"
proof -
  have cons: "signal_keys (e # es) = signal_keys [e] \<union> signal_keys es" for e es
    by (auto simp: signal_keys_def)
  show "proc_inv p \<Longrightarrow>
      known p \<union> signal_keys (map (FromLogRecord fl) rs) \<subseteq> known (consume_logs fl now rs p)"
  proof (induction rs arbitrary: p now)
    case (Cons r rs)
    let ?q = "take_signal (now 0) (FromLogRecord fl r, SignalLogs) (count_stat log_seen p)"
    have "proc_inv ?q" "known p \<union> signal_keys [FromLogRecord fl r] \<subseteq> known ?q"
      by (intro known_signal Cons.prems; erule FromLogRecord_wf)+
    with Cons.IH [of ?q "\<lambda>i. now (Suc i)"] show ?case by (auto simp: cons [of _ "map (FromLogRecord fl) rs"])
  qed (simp add: signal_keys_def)
  show "proc_inv p \<Longrightarrow>
      known p \<union> signal_keys (map (FromSpan fl) ss) \<subseteq> known (consume_spans fl now ss p)"
  proof (induction ss arbitrary: p now)
    case (Cons r rs)
    let ?q = "take_signal (now 0) (FromSpan fl r, SignalTraces) (count_stat span_seen p)"
    have "proc_inv ?q" "known p \<union> signal_keys [FromSpan fl r] \<subseteq> known ?q"
      by (intro known_signal Cons.prems; erule FromSpan_wf)+
    with Cons.IH [of ?q "\<lambda>i. now (Suc i)"] show ?case by (auto simp: cons [of _ "map (FromSpan fl) rs"])
  qed (simp add: signal_keys_def)
qed

lemma sys_inv_flush_steps:
  assumes "sys_inv (sys_of p Idle s {#} wr)" and "known p \<union> K \<subseteq> known q"
    and "(step fl sink)\<^sup>*\<^sup>* (sys_of p Idle s {#} wr) (sys_of q Idle s {#} wr)"
    and "(step fl sink)\<^sup>*\<^sup>* (sys_of q Idle s {#} wr) (sys_of p' Idle s' {#} wr')"
  shows "known p \<union> K \<subseteq> known p'"
  using steps_known [OF assms(3,1)] steps_known [OF assms(4)] assms(2) by auto

lemma run_call_known:
  assumes "run_call fl sink c (s, p) = (e, s', p')" and "range_order (call_order c)"
    and inv: "sys_inv (sys_of p Idle s {#} wr)"
  shows "known p \<union> call_keys fl c \<subseteq> known p'"
proof (cases c)
  case (CallLogs rng now rs)
  let ?q = "consume_logs fl now rs p"
  have q: "(step fl sink)\<^sup>*\<^sup>* (sys_of p Idle s {#} wr) (sys_of ?q Idle s {#} wr)"
    by (rule consume_logs_steps)
  from assms CallLogs have "assembleExpired sink rng (now (length rs)) (s, ?q) = (e, s', p')"
    by (simp add: ConsumeLogRecords_def)
  from assembleExpired_steps [OF this] assms(2) CallLogs obtain w where
    "(step fl sink)\<^sup>*\<^sup>* (sys_of ?q Idle s {#} wr) (sys_of p' Idle s' {#} (wr @ w))" by fastforce
  from sys_inv_flush_steps [OF inv _ q this] consume_known(1) [of p fl rs now] CallLogs sys_invD(1) [OF inv]
  show ?thesis by simp
next
  case (CallSpans rng now ss)
  let ?q = "consume_spans fl now ss p"
  have q: "(step fl sink)\<^sup>*\<^sup>* (sys_of p Idle s {#} wr) (sys_of ?q Idle s {#} wr)"
    by (rule consume_spans_steps)
  from assms CallSpans have "assembleExpired sink rng (now (length ss)) (s, ?q) = (e, s', p')"
    by (simp add: ConsumeSpans_def)
  from assembleExpired_steps [OF this] assms(2) CallSpans obtain w where
    "(step fl sink)\<^sup>*\<^sup>* (sys_of ?q Idle s {#} wr) (sys_of p' Idle s' {#} (wr @ w))" by fastforce
  from sys_inv_flush_steps [OF inv _ q this] consume_known(2) [of p fl ss now] CallSpans sys_invD(1) [OF inv]
  show ?thesis by simp
next
  case (CallFlush rng)
  obtain w where "(step fl sink)\<^sup>*\<^sup>* (sys_of p Idle s {#} wr) (sys_of p' Idle s' {#} (wr @ w))"
    using run_call_steps [OF assms(1,2)] by blast
  from steps_known [OF this inv] CallFlush show ?thesis by simp
qed

lemma run_calls_known:
  assumes "run_calls fl sink cs (s, p) = (s', p')" and "\<forall>c \<in> set cs. range_order (call_order c)"
    and "sys_inv (sys_of p Idle s {#} wr)"
  shows "known p \<union> (\<Union>c \<in> set cs. call_keys fl c) \<subseteq> known p'"
  using assms
proof (induction cs arbitrary: s p wr)
  case (Cons c cs)
  obtain e s1 p1 where c: "run_call fl sink c (s, p) = (e, s1, p1)" by (metis prod_cases3)
  have o: "range_order (call_order c)" using Cons.prems(2) by simp
  obtain w where "(step fl sink)\<^sup>*\<^sup>* (sys_of p Idle s {#} wr) (sys_of p1 Idle s1 {#} (wr @ w))"
    using run_call_steps [OF c o] by blast
  then have "sys_inv (sys_of p1 Idle s1 {#} (wr @ w))" using steps_known Cons.prems(3) by blast
  with Cons.IH [of s1 p1 "wr @ w"] run_call_known [OF c o Cons.prems(3)] Cons.prems(1,2) c
  show ?case by auto
qed simp

text \<open>What is known and no longer buffered is part of a written record.\<close>

lemma delivered:
  assumes "reachable fl sink wait s0 s" and "firstSeen (proc s) = fmempty"
  shows "known (proc s) \<subseteq> consumed (written s)"
proof -
  obtain h where "run_history fl sink wait s0 s h"
    using reachable_run_history [OF assms(1)] ..
  from history_invD(4) [OF run_history_inv [OF this]] assms(2) show ?thesis
    by (simp add: known_def)
qed

end
