(* ===== verification/Progress.thy ===== *)
theory Progress
  imports Interleaving
begin

text \<open>
  The assembler never gets stuck. Receivers may step at any time and do not move it; every move
  of its own brings it nearer to \<open>Idle\<close>, and in every phase but \<open>Idle\<close> it has one.
\<close>

inductive_cases stepE: "step fl sink s t"

text \<open>How many moves are left: three for every record to come, and one to stop.\<close>

fun work :: "phase \<Rightarrow> nat" where
  "work Idle = 0"
| "work (Emitting out) = 3 * length out + 1"
| "work (Writing a out) = 3 * length out + 3"
| "work (Written a out) = 3 * length out + 2"
| "work (Failed a out) = 2"
| "work (Restoring out) = 1"

lemma step_work:
  assumes "step fl sink s t" and "phase s \<noteq> Idle"
  shows "phase t = phase s \<or> work (phase t) < work (phase s)"
  using assms by (auto elim!: stepE)

lemma assembler_moves:
  assumes "phase s \<noteq> Idle"
  obtains t where "step fl sink s t" "work (phase t) < work (phase s)"
proof (cases "phase s")
  case (Emitting out)
  show thesis
  proof (cases out)
    case Nil
    then show thesis using that [OF step.finish] Emitting by simp
  next
    case (Cons a rest)
    then show thesis
      using that [OF step.emit_skip] that [OF step.emit_start] Emitting
      by (cases "a_key a \<in> emitted (proc s)") simp_all
  qed
next
  case (Writing a out)
  then show thesis
    using that [OF step.write_ok] that [OF step.write_err]
    by (cases "sink_call sink (sinkst s) (a_ex a)"; cases "fst (sink_call sink (sinkst s) (a_ex a))")
      auto
next
  case (Written a out)
  then show thesis using that [OF step.ack] by simp
next
  case (Failed a out)
  then show thesis using that [OF step.count_failure] by simp
next
  case (Restoring out)
  then show thesis using that [OF step.restore] by simp
qed (use assms in simp)

lemma assembler_reaches_idle:
  "\<exists>n t. n \<le> work (phase s) \<and> (step fl sink ^^ n) s t \<and> phase t = Idle"
proof (induction "work (phase s)" arbitrary: s rule: less_induct)
  case less
  show ?case
  proof (cases "phase s = Idle")
    case True
    then show ?thesis by (intro exI [of _ 0]) auto
  next
    case False
    then obtain u where u: "step fl sink s u" "work (phase u) < work (phase s)"
      by (rule assembler_moves)
    with less obtain n t where "n \<le> work (phase u)" "(step fl sink ^^ n) u t" "phase t = Idle"
      by blast
    then show ?thesis
      using u by (intro exI [of _ "Suc n"] exI [of _ t]) (auto intro: relpowp_Suc_I2 simp del: relpowp.simps)
  qed
qed

text \<open>
  An assembly ends. Whatever the sink answers, a batch of \<open>n\<close> records that has been claimed is
  written or given back after at most \<open>3 * n + 1\<close> moves, every one of which is possible without
  waiting for a receiver; and no step of anyone else, between these moves, sets the assembler
  back.
\<close>

theorem assembly_ends:
  assumes "phase s = Emitting out"
  shows "(\<exists>n t. n \<le> 3 * length out + 1 \<and> (step fl sink ^^ n) s t \<and> phase t = Idle)
    \<and> (\<forall>u v. (step fl sink)\<^sup>*\<^sup>* s u \<longrightarrow> phase u \<noteq> Idle \<longrightarrow> step fl sink u v \<longrightarrow>
         phase v = phase u \<or> work (phase v) < work (phase u))"
  using assembler_reaches_idle [of s] step_work assms by (metis work.simps(2))

definition two_empty :: "unit sys" where
  "two_empty =
     \<lparr>proc = NewProcessor 0, phase = Emitting [], sinkst = (), received = {#}, written = []\<rparr>"

theorem assembly_ends_witness:
  "\<exists>n t. n \<le> 1 \<and> (step plain_floats (None :: (unit, string) sink_write option) ^^ n) two_empty t
    \<and> phase t = Idle"
  using assembly_ends [of two_empty "[]" plain_floats "None :: (unit, string) sink_write option"]
  by (simp add: two_empty_def)

end
