(* ===== verification/Goroutines.thy ===== *)
theory Goroutines
  imports Delivery Progress
begin

text \<open>
  The calls of the processor as the goroutines that run them. A goroutine is at one point of
  \<open>ConsumeLogRecords\<close>, \<open>ConsumeSpans\<close> or \<open>Flush\<close>; its next turn is one region under \<open>p.mu\<close>, one
  sink call, or taking or releasing \<open>assembleMu\<close>, which only one goroutine can hold. A schedule
  says whose turn it is, what its clock reads and in which order it would range over a map;
  running a schedule computes. The system of \<open>Interleaving\<close> is what remains when one forgets
  which goroutine does what (\<open>schedule_steps\<close>), so all that was shown of it holds here.
\<close>

section \<open>Goroutines and their turns\<close>

datatype input = InputLog "log_record option" | InputSpan "span option"

fun normalized :: "float_lib \<Rightarrow> input \<Rightarrow> execution option \<times> string" where
  "normalized fl (InputLog r) = (FromLogRecord fl r, SignalLogs)"
| "normalized fl (InputSpan sp) = (FromSpan fl sp, SignalTraces)"

fun count_seen :: "input \<Rightarrow> stats \<Rightarrow> stats" where
  "count_seen (InputLog r) = log_seen"
| "count_seen (InputSpan sp) = span_seen"

text \<open>
  Where a goroutine is: at the head of its loop with the inputs to come; with a counted and
  normalized input in hand; waiting for \<open>assembleMu\<close>; holding it, before the claim and then in
  a phase of the assembly with the error to return (\<open>Idle\<close> when only the release is left); done.
\<close>

datatype 'e pc =
    Consuming "input list"
  | Taking "execution option \<times> string" "input list"
  | Locking "int option"
  | Claiming "int option"
  | Holding phase "'e option"
  | Returned "'e option"

record ('s, 'e) goroutines =
  g_proc :: processor
  g_sink :: 's
  assembleMu :: bool
  pcs :: "'e pc list"

record turn =
  tn_who :: nat
  tn_now :: int
  tn_order :: range_fn

text \<open>\<open>ConsumeLogRecords\<close> and \<open>ConsumeSpans\<close> up to the wait for the lock.\<close>

definition consume_turn :: "float_lib \<Rightarrow> int \<Rightarrow> input list \<Rightarrow> processor \<Rightarrow> 'e pc \<times> processor" where
  "consume_turn fl now is p =
     (case is of
        [] \<Rightarrow> (if maxWait p \<le> 0 then Returned None else Locking (Some (now - maxWait p)), p)
      | i # is \<Rightarrow> (Taking (normalized fl i) is, count_stat (count_seen i) p))"

text \<open>\<open>assemble\<close> under its lock: nothing ready, or a batch to write.\<close>

definition claim_turn :: "range_fn \<Rightarrow> int option \<Rightarrow> processor \<Rightarrow> 'e pc \<times> processor" where
  "claim_turn rng cutoff p =
     (if readyKeys cutoff p = [] then (Holding Idle None, p)
      else case claim cutoff rng p of (out, p) \<Rightarrow> (Holding (Emitting out) None, p))"

text \<open>\<open>emit\<close> for the head of the batch, region by region, and the way back after an error.\<close>

fun emit_turn ::
  "('s, 'e) sink_write option \<Rightarrow> phase \<Rightarrow> 'e option \<Rightarrow> 's \<times> processor \<Rightarrow> 'e pc \<times> 's \<times> processor" where
  "emit_turn sink Idle err (s, p) = (Returned err, s, p)"
| "emit_turn sink (Emitting []) err (s, p) = (Holding Idle err, s, p)"
| "emit_turn sink (Emitting (a # out)) err (s, p) =
     (Holding (if a_key a \<in> emitted p then Emitting out else Writing a out) err, s, p)"
| "emit_turn sink (Writing a out) err (s, p) =
     (case sink_call sink s (a_ex a) of
        (None, s) \<Rightarrow> (Holding (Written a out) err, s, p)
      | (Some e, s) \<Rightarrow> (Holding (Failed a out) (Some e), s, p))"
| "emit_turn sink (Written a out) err (s, p) = (Holding (Emitting out) err, s, acknowledge a p)"
| "emit_turn sink (Failed a out) err (s, p) =
     (Holding (Restoring (a # out)) err, s, write_failed p)"
| "emit_turn sink (Restoring out) err (s, p) = (Holding Idle err, s, restoreReserved out p)"

definition go ::
  "float_lib \<Rightarrow> ('s, 'e) sink_write option \<Rightarrow> turn \<Rightarrow> ('s, 'e) goroutines \<Rightarrow> ('s, 'e) goroutines" where
  "go fl sink t g =
     (if \<not> tn_who t < length (pcs g) then g
      else
        let at = (\<lambda>pc. g\<lparr>pcs := (pcs g)[tn_who t := pc]\<rparr>)
        in case pcs g ! tn_who t of
          Consuming is \<Rightarrow>
            (case consume_turn fl (tn_now t) is (g_proc g) of (pc, p) \<Rightarrow> (at pc)\<lparr>g_proc := p\<rparr>)
        | Taking es is \<Rightarrow> (at (Consuming is))\<lparr>g_proc := take_signal (tn_now t) es (g_proc g)\<rparr>
        | Locking cutoff \<Rightarrow>
            if assembleMu g then g else (at (Claiming cutoff))\<lparr>assembleMu := True\<rparr>
        | Claiming cutoff \<Rightarrow>
            (case claim_turn (tn_order t) cutoff (g_proc g) of (pc, p) \<Rightarrow> (at pc)\<lparr>g_proc := p\<rparr>)
        | Holding ph err \<Rightarrow>
            (case emit_turn sink ph err (g_sink g, g_proc g) of
               (pc, s, p) \<Rightarrow>
                 (at pc)\<lparr>g_proc := p, g_sink := s, assembleMu := (ph \<noteq> Idle)\<rparr>)
        | Returned err \<Rightarrow> g)"

definition run_schedule ::
  "float_lib \<Rightarrow> ('s, 'e) sink_write option \<Rightarrow> turn list \<Rightarrow> ('s, 'e) goroutines
     \<Rightarrow> ('s, 'e) goroutines" where
  "run_schedule fl sink sched g = fold (go fl sink) sched g"

text \<open>A goroutine for every call; one that has not had a turn has not been called yet.\<close>

fun call_start :: "call \<Rightarrow> 'e pc" where
  "call_start (CallLogs rng now rs) = Consuming (map InputLog rs)"
| "call_start (CallSpans rng now ss) = Consuming (map InputSpan ss)"
| "call_start (CallFlush rng) = Locking None"

definition spawn :: "call list \<Rightarrow> 's \<times> processor \<Rightarrow> ('s, 'e) goroutines" where
  "spawn cs sp =
     (case sp of (s, p) \<Rightarrow>
        \<lparr>g_proc = p, g_sink = s, assembleMu = False, pcs = map call_start cs\<rparr>)"

fun returned :: "'e pc \<Rightarrow> bool" where
  "returned (Returned err) = True"
| "returned _ = False"

definition all_returned :: "('s, 'e) goroutines \<Rightarrow> bool" where
  "all_returned g \<longleftrightarrow> list_all returned (pcs g)"

section \<open>One goroutine's turn in the list\<close>

text \<open>What the point of a goroutine shows of the shared system.\<close>

fun holds_lock :: "'e pc \<Rightarrow> bool" where
  "holds_lock (Claiming cutoff) = True"
| "holds_lock (Holding ph err) = True"
| "holds_lock _ = False"

fun pc_phase :: "'e pc \<Rightarrow> phase" where
  "pc_phase (Holding ph err) = ph"
| "pc_phase _ = Idle"

fun in_hand :: "'e pc \<Rightarrow> (execution option \<times> string) multiset" where
  "in_hand (Taking es is) = {#es#}"
| "in_hand _ = {#}"

text \<open>The phase of the assembly is that of the goroutine that holds the lock.\<close>

fun lock_phase :: "'e pc list \<Rightarrow> phase" where
  "lock_phase [] = Idle"
| "lock_phase (pc # ps) = (if holds_lock pc then pc_phase pc else lock_phase ps)"

definition lock_inv :: "('s, 'e) goroutines \<Rightarrow> bool" where
  "lock_inv g \<longleftrightarrow> length (filter holds_lock (pcs g)) = (if assembleMu g then 1 else 0)"

definition view :: "('s, 'e) goroutines \<Rightarrow> assembled list \<Rightarrow> 's sys" where
  "view g wr =
     sys_of (g_proc g) (lock_phase (pcs g)) (g_sink g) (sum_list (map in_hand (pcs g))) wr"

lemma lock_phase_none: "filter holds_lock ps = [] \<Longrightarrow> lock_phase (ps @ qs) = lock_phase qs"
  by (induction ps) (simp_all split: if_splits)

lemma lock_phase_unlocked:
  "\<not> holds_lock pc \<Longrightarrow> lock_phase (ps @ pc # qs) = lock_phase (ps @ qs)"
  by (induction ps) simp_all

lemma no_lock_Idle: "filter holds_lock ps = [] \<Longrightarrow> lock_phase ps = Idle"
  using lock_phase_none [of ps "[]"] by simp

lemma view_at:
  assumes "pcs g = ps @ pc # qs"
  shows "view g wr = sys_of (g_proc g) (lock_phase (ps @ pc # qs)) (g_sink g)
    (in_hand pc + sum_list (map in_hand (ps @ qs))) wr"
  using assms by (simp add: view_def ac_simps)

text \<open>While one goroutine holds the lock no other does.\<close>

lemma lock_alone:
  assumes "lock_inv g" and "pcs g = ps @ pc # qs" and "holds_lock pc \<or> \<not> assembleMu g"
  shows "lock_phase (ps @ pc' # qs) = (if holds_lock pc' then pc_phase pc' else Idle)"
    and "holds_lock pc \<longleftrightarrow> assembleMu g"
    and "filter holds_lock ps = []" and "filter holds_lock qs = []"
proof -
  from assms show n: "holds_lock pc \<longleftrightarrow> assembleMu g" "filter holds_lock ps = []"
    "filter holds_lock qs = []" by (auto simp: lock_inv_def split: if_splits)
  then show "lock_phase (ps @ pc' # qs) = (if holds_lock pc' then pc_phase pc' else Idle)"
    using no_lock_Idle [of qs] by (simp add: lock_phase_none)
qed

section \<open>A schedule is a run of the interleaved system\<close>

lemma count_seen_steps:
  "step fl sink (sys_of p ph s rcv wr)
     (sys_of (count_stat (count_seen i) p) ph s (add_mset (normalized fl i) rcv) wr)"
  using receive_log [of fl sink "sys_of p ph s rcv wr"] receive_span [of fl sink "sys_of p ph s rcv wr"]
  by (cases i) simp_all

lemma emit_turn_steps:
  assumes "emit_turn sink ph err (s, p) = (pc, s', p')" and "ph \<noteq> Idle"
  shows "holds_lock pc \<and> in_hand pc = {#} \<and>
    (\<exists>w. step fl sink (sys_of p ph s rcv wr) (sys_of p' (pc_phase pc) s' rcv (wr @ w)))"
proof -
  note nil = exI [of _ "[] :: assembled list"]
  show ?thesis
  proof (cases ph)
    case (Emitting out)
    then show ?thesis using assms(1) by (cases out) (auto intro!: nil intro: run_steps)
  next
    case (Writing a out)
    obtain r s1 where w: "sink_call sink s (a_ex a) = (r, s1)" by fastforce
    show ?thesis
    proof (cases r)
      case None
      then have "pc = Holding (Written a out) err" "p' = p" "s' = s1" using assms(1) Writing w by auto
      then show ?thesis using Writing w None by (auto intro!: exI [of _ "[a]"] run_steps(3))
    next
      case (Some e)
      then show ?thesis using assms(1) Writing w by (auto intro!: nil run_steps(4))
    qed
  next
    case (Written a out)
    then show ?thesis using assms(1) by (auto intro!: nil intro: run_steps)
  next
    case (Failed a out)
    then show ?thesis using assms(1) by (auto intro!: nil intro: run_steps)
  next
    case (Restoring out)
    then show ?thesis using assms(1) by (auto intro!: nil intro: run_steps)
  qed (use assms(2) in simp)
qed

lemma turn_at:
  assumes "tn_who t < length (pcs g)"
  obtains ps pc qs where "pcs g = ps @ pc # qs" "tn_who t = length ps" "pc = pcs g ! tn_who t"
  using that [of "take (tn_who t) (pcs g)" "pcs g ! tn_who t" "drop (Suc (tn_who t)) (pcs g)"] assms
  by (simp add: id_take_nth_drop)

text \<open>One turn is no step or one step of the interleaved system, and keeps the lock exclusive.\<close>

lemma go_step:
  assumes "lock_inv g" and "range_order (tn_order t)"
  shows "lock_inv (go fl sink t g) \<and>
    (\<exists>w. (step fl sink)\<^sup>=\<^sup>= (view g wr) (view (go fl sink t g) (wr @ w)))"
proof (cases "tn_who t < length (pcs g)")
  case False
  then show ?thesis using assms(1) by (auto simp: go_def intro!: exI [of _ "[]"])
next
  case True
  then obtain ps pc qs where g: "pcs g = ps @ pc # qs" and w: "tn_who t = length ps"
    by (rule turn_at)
  note l = lock_alone [OF assms(1) g]
  note gd = go_def [of fl sink t g] g w lock_inv_def
  note nil = exI [of _ "[] :: assembled list"]
  show ?thesis
  proof (cases pc)
    case (Consuming "is")
    show ?thesis
    proof (cases "is")
      case Nil
      then show ?thesis
        using assms(1) Consuming
        by (auto simp: gd consume_turn_def Let_def view_at lock_phase_unlocked intro!: nil)
    next
      case (Cons i rest)
      then show ?thesis
        using assms(1) Consuming count_seen_steps [of fl sink "g_proc g" "lock_phase (ps @ qs)" "g_sink g" _ wr i]
        by (auto simp: gd consume_turn_def Let_def view_at lock_phase_unlocked intro!: nil)
    qed
  next
    case (Taking es rest)
    then show ?thesis
      using assms(1) take_signal_steps [of fl sink "g_proc g" "lock_phase (ps @ qs)" "g_sink g" es _ wr]
      by (auto simp: gd Let_def view_at lock_phase_unlocked intro!: nil)
  next
    case (Locking cutoff)
    then show ?thesis
      using assms(1) l no_lock_Idle [of "ps @ qs"]
      by (auto simp: gd Let_def view_at lock_phase_unlocked intro!: nil)
  next
    case (Claiming cutoff)
    then have lk: "holds_lock pc" by simp
    note l = l [OF disjI1 [OF lk]]
    show ?thesis
    proof (cases "readyKeys cutoff (g_proc g) = []")
      case True
      then show ?thesis
        using assms(1) Claiming l by (auto simp: gd claim_turn_def Let_def view_at intro!: nil)
    next
      case False
      obtain out p' where c: "claim cutoff (tn_order t) (g_proc g) = (out, p')" by fastforce
      have "step fl sink (sys_of (g_proc g) Idle (g_sink g) rcv wr)
          (sys_of p' (Emitting out) (g_sink g) rcv wr)" for rcv
        using begin_assembly [of "sys_of (g_proc g) Idle (g_sink g) rcv wr" "tn_order t" cutoff out p']
          assms(2) c by simp
      then show ?thesis
        using assms(1) Claiming l False c
        by (auto simp: gd claim_turn_def Let_def view_at intro!: nil)
    qed
  next
    case (Holding ph err)
    then have lk: "holds_lock pc" by simp
    note l = l [OF disjI1 [OF lk]]
    obtain pc' s' p' where e: "emit_turn sink ph err (g_sink g, g_proc g) = (pc', s', p')"
      by (metis prod_cases3)
    show ?thesis
    proof (cases "ph = Idle")
      case True
      then show ?thesis
        using assms(1) Holding l e by (auto simp: gd Let_def view_at intro!: nil)
    next
      case False
      let ?r = "sum_list (map in_hand (ps @ qs))"
      have n: "holds_lock pc'" "in_hand pc' = {#}"
        using emit_turn_steps [OF e False] by blast+
      obtain w where "step fl sink (sys_of (g_proc g) ph (g_sink g) ?r wr)
          (sys_of p' (pc_phase pc') s' ?r (wr @ w))"
        using emit_turn_steps [OF e False] by blast
      then show ?thesis
        using assms(1) Holding l e n False
        by (auto simp: gd Let_def view_at intro!: exI [of _ w])
    qed
  next
    case (Returned err)
    then show ?thesis using assms(1) by (auto simp: gd Let_def intro!: nil)
  qed
qed

lemma schedule_steps:
  assumes "lock_inv g" and "\<forall>t \<in> set sched. range_order (tn_order t)"
  shows "lock_inv (run_schedule fl sink sched g) \<and>
    (\<exists>w. (step fl sink)\<^sup>*\<^sup>* (view g wr) (view (run_schedule fl sink sched g) (wr @ w)))"
  using assms
proof (induction sched arbitrary: g wr)
  case Nil
  then show ?case by (auto simp: run_schedule_def intro!: exI [of _ "[]"])
next
  case (Cons t sched)
  have "range_order (tn_order t)" using Cons.prems(2) by simp
  note one = go_step [OF Cons.prems(1) this, of fl sink wr]
  then have i: "lock_inv (go fl sink t g)" ..
  from one obtain w where
    w: "(step fl sink)\<^sup>=\<^sup>= (view g wr) (view (go fl sink t g) (wr @ w))" by blast
  obtain w' where "(step fl sink)\<^sup>*\<^sup>* (view (go fl sink t g) (wr @ w))
      (view (run_schedule fl sink sched (go fl sink t g)) ((wr @ w) @ w'))"
    and "lock_inv (run_schedule fl sink sched (go fl sink t g))"
    using Cons.IH [OF i, of "wr @ w"] Cons.prems(2) by auto
  then show ?case
    using w by (auto simp: run_schedule_def intro: converse_rtranclp_into_rtranclp intro!: exI [of _ "w @ w'"])
qed

lemma pcs_spawn [simp]: "pcs (spawn cs sp) = map call_start cs"
  by (simp add: spawn_def split: prod.split)

text \<open>Goroutines over a processor that was just configured.\<close>

lemma call_start_facts [simp]:
  "\<not> holds_lock (call_start c)" "in_hand (call_start c) = {#}"
  by (cases c; simp)+

lemma returned_facts: "returned pc \<Longrightarrow> \<not> holds_lock pc \<and> in_hand pc = {#}"
  by (cases pc) simp_all

lemma map_call_start:
  "lock_phase (map call_start cs) = Idle" "sum_list (map (in_hand \<circ> call_start) cs) = {#}"
  by (induction cs) simp_all

lemma view_spawn: "view (spawn cs (s, p)) wr = sys_of p Idle s {#} wr"
  by (simp add: view_def spawn_def map_call_start)

lemma lock_inv_spawn: "lock_inv (spawn cs sp)"
  by (simp add: lock_inv_def spawn_def filter_map comp_def split: prod.split)

lemma schedule_reachable:
  assumes "\<forall>t \<in> set sched. range_order (tn_order t)"
    and "reachable fl sink wait s0 (sys_of p Idle s {#} wr)"
    and "run_schedule fl sink sched (spawn cs (s, p)) = g"
  shows "lock_inv g \<and> (\<exists>w. reachable fl sink wait s0 (view g (wr @ w)))"
  using schedule_steps [OF lock_inv_spawn [of cs "(s, p)"] assms(1), of fl sink wr] assms(2,3)
  by (auto simp: view_spawn intro: reachable_steps)


section \<open>What a call has handed over\<close>

text \<open>The signals that a goroutine has yet to take in.\<close>

fun to_come :: "float_lib \<Rightarrow> 'e pc \<Rightarrow> (execution option \<times> string) list" where
  "to_come fl (Consuming is) = map (normalized fl) is"
| "to_come fl (Taking es is) = es # map (normalized fl) is"
| "to_come fl _ = []"

definition keys_to_come :: "float_lib \<Rightarrow> 'e pc \<Rightarrow> string set" where
  "keys_to_come fl pc = signal_keys (map fst (to_come fl pc))"

lemma normalized_start [simp]:
  "keys_to_come fl (call_start c) = call_keys fl c"
  by (cases c) (simp_all add: keys_to_come_def comp_def signal_keys_def)

lemma length_go [simp]: "length (pcs (go fl sink t g)) = length (pcs g)"
  by (simp add: go_def Let_def split: pc.split prod.split)

lemma go_others: "i \<noteq> tn_who t \<Longrightarrow> pcs (go fl sink t g) ! i = pcs g ! i"
  by (simp add: go_def Let_def split: pc.split prod.split)

lemma emit_turn_to_come:
  "emit_turn sink ph err sp = (pc, sp') \<Longrightarrow> keys_to_come fl pc = {}"
  by (cases "(sink, ph, err, sp)" rule: emit_turn.cases)
    (auto simp: keys_to_come_def signal_keys_def split: prod.splits option.splits)

lemma go_keys:
  assumes "proc_inv (g_proc g)" and "i < length (pcs g)"
  shows "keys_to_come fl (pcs g ! i) \<subseteq>
    keys_to_come fl (pcs (go fl sink t g) ! i) \<union> known (g_proc (go fl sink t g))"
proof (cases "i = tn_who t")
  case False
  then show ?thesis by (simp add: go_others)
next
  case True
  show ?thesis
  proof (cases "pcs g ! i")
    case (Consuming "is")
    then show ?thesis
      using assms(2) True
      by (cases "is") (auto simp: go_def Let_def consume_turn_def keys_to_come_def signal_keys_def)
  next
    case (Taking es rest)
    have "fst es = Some ex \<Longrightarrow> record_key ex \<noteq> [] \<Longrightarrow>
        record_key ex \<in> known (take_signal (tn_now t) es (g_proc g))" for ex
      using known_take_signal(2) [OF assms(1), of es ex "snd es"] by (cases es) simp
    then show ?thesis
      using assms(2) True Taking
      by (auto simp: go_def Let_def keys_to_come_def signal_keys_def)
  qed (auto simp: keys_to_come_def signal_keys_def)
qed

lemma schedule_keys:
  assumes "lock_inv g" and "sys_inv (view g wr)" and "\<forall>t \<in> set sched. range_order (tn_order t)"
    and "i < length (pcs g)"
  shows "keys_to_come fl (pcs g ! i) \<union> known (g_proc g) \<subseteq>
    keys_to_come fl (pcs (run_schedule fl sink sched g) ! i)
      \<union> known (g_proc (run_schedule fl sink sched g))"
  using assms
proof (induction sched arbitrary: g wr)
  case Nil
  then show ?case by (simp add: run_schedule_def)
next
  case (Cons t sched)
  have "range_order (tn_order t)" using Cons.prems(3) by simp
  note one = go_step [OF Cons.prems(1) this, of fl sink wr]
  then have l: "lock_inv (go fl sink t g)" ..
  from one obtain w where "(step fl sink)\<^sup>=\<^sup>= (view g wr) (view (go fl sink t g) (wr @ w))" by blast
  then have "(step fl sink)\<^sup>*\<^sup>* (view g wr) (view (go fl sink t g) (wr @ w))" by auto
  from steps_known [OF this Cons.prems(2)] have
    k: "known (g_proc g) \<subseteq> known (g_proc (go fl sink t g))"
    and v: "sys_inv (view (go fl sink t g) (wr @ w))" by (simp_all add: view_def)
  have "proc_inv (g_proc g)" using sys_invD(1) [OF Cons.prems(2)] by (simp add: view_def)
  note go_keys [OF this Cons.prems(4), of fl sink t]
  moreover have "keys_to_come fl (pcs (go fl sink t g) ! i) \<union> known (g_proc (go fl sink t g)) \<subseteq>
      keys_to_come fl (pcs (run_schedule fl sink (t # sched) g) ! i)
        \<union> known (g_proc (run_schedule fl sink (t # sched) g))"
    using Cons.IH [OF l v] Cons.prems(3,4) by (simp add: run_schedule_def)
  ultimately show ?case using k by blast
qed

lemma length_schedule [simp]: "length (pcs (run_schedule fl sink sched g)) = length (pcs g)"
  by (induction sched arbitrary: g) (simp_all add: run_schedule_def)

text \<open>What the calls that have returned handed over is known to the processor.\<close>

lemma returned_known:
  assumes "\<forall>t \<in> set sched. range_order (tn_order t)" and "sys_inv (sys_of p Idle s {#} wr)"
    and "run_schedule fl sink sched (spawn cs (s, p)) = g"
    and "i < length cs" and "pcs g ! i = Returned err"
  shows "call_keys fl (cs ! i) \<subseteq> known (g_proc g)"
  using schedule_keys [OF lock_inv_spawn, of cs "(s, p)" wr sched i fl sink] assms
  by (auto simp: keys_to_come_def [of fl "Returned err"] signal_keys_def view_spawn)

section \<open>Every call returns\<close>

definition can_move :: "('s, 'e) goroutines \<Rightarrow> nat \<Rightarrow> bool" where
  "can_move g i \<longleftrightarrow> i < length (pcs g) \<and> \<not> returned (pcs g ! i) \<and>
     (\<forall>cutoff. pcs g ! i = Locking cutoff \<longrightarrow> \<not> assembleMu g)"

lemma blocked: "\<not> can_move g (tn_who t) \<Longrightarrow> go fl sink t g = g"
  by (cases "pcs g ! tn_who t") (auto simp: can_move_def go_def)

text \<open>No deadlock: whoever holds the lock can move, and when nobody does everyone can.\<close>

lemma some_can_move:
  assumes "lock_inv g" and "\<not> all_returned g"
  obtains i where "can_move g i"
proof (cases "assembleMu g")
  case False
  from assms(2) obtain i where "i < length (pcs g)" "\<not> returned (pcs g ! i)"
    by (auto simp: all_returned_def list_all_length)
  with False show thesis using that by (auto simp: can_move_def)
next
  case True
  with assms(1) have "filter holds_lock (pcs g) \<noteq> []" by (auto simp: lock_inv_def)
  then obtain i where "i < length (pcs g)" "holds_lock (pcs g ! i)"
    by (auto simp: filter_empty_conv in_set_conv_nth)
  then have "can_move g i" by (cases "pcs g ! i") (simp_all add: can_move_def)
  then show thesis by (rule that)
qed

text \<open>
  Two counts of the turns that a goroutine needs at most: those up to its claim, and those from
  there on, which the claim decides. A turn lowers the first, or keeps it and lowers the second.
\<close>

fun before_claim :: "'e pc \<Rightarrow> nat" where
  "before_claim (Consuming is) = 2 * length is + 3"
| "before_claim (Taking es is) = 2 * length is + 4"
| "before_claim (Locking cutoff) = 2"
| "before_claim (Claiming cutoff) = 1"
| "before_claim _ = 0"

fun after_claim :: "'e pc \<Rightarrow> nat" where
  "after_claim (Holding ph err) = work ph + 1"
| "after_claim _ = 0"

definition turns_left :: "('s, 'e) goroutines \<Rightarrow> nat \<times> nat" where
  "turns_left g = (sum_list (map before_claim (pcs g)), sum_list (map after_claim (pcs g)))"

lemma emit_turn_work:
  assumes "emit_turn sink ph err (s, p) = (pc, s', p')"
  shows "before_claim pc = 0 \<and> after_claim pc < work ph + 1"
  using assms
  by (cases "(sink, ph, err, s, p)" rule: emit_turn.cases)
    (auto split: prod.splits option.splits)

lemma go_fewer:
  assumes "can_move g (tn_who t)"
  shows "(turns_left (go fl sink t g), turns_left g) \<in> less_than <*lex*> less_than"
proof -
  have "tn_who t < length (pcs g)" using assms by (simp add: can_move_def)
  then obtain ps pc qs where g: "pcs g = ps @ pc # qs" and w: "tn_who t = length ps"
    by (rule turn_at)
  have "\<exists>pc'. pcs (go fl sink t g) = ps @ pc' # qs \<and> (before_claim pc' < before_claim pc \<or>
      before_claim pc' = before_claim pc \<and> after_claim pc' < after_claim pc)"
  proof (cases pc)
    case (Consuming "is")
    then show ?thesis using g w
      by (cases "is") (simp_all add: go_def Let_def consume_turn_def)
  next
    case (Claiming cutoff)
    obtain pc' p' where c: "claim_turn (tn_order t) cutoff (g_proc g) = (pc' :: 'b pc, p')" by fastforce
    then have "before_claim pc' = 0" by (auto simp: claim_turn_def split: if_splits prod.splits)
    then show ?thesis using g w Claiming c by (simp add: go_def Let_def)
  next
    case (Holding ph err)
    obtain pc' s' p' where e: "emit_turn sink ph err (g_sink g, g_proc g) = (pc', s', p')"
      by (metis prod_cases3)
    then show ?thesis using g w Holding emit_turn_work [OF e] by (simp add: go_def Let_def)
  qed (use assms g w in \<open>simp_all add: can_move_def go_def Let_def\<close>)
  then show ?thesis by (auto simp: turns_left_def g)
qed

definition fair :: "nat \<Rightarrow> (nat \<Rightarrow> turn) \<Rightarrow> bool" where
  "fair n ts \<longleftrightarrow> (\<forall>i < n. \<forall>m. \<exists>k \<ge> m. tn_who (ts k) = i)"

lemma fair_shift: "fair n ts \<Longrightarrow> fair n (\<lambda>m. ts (m + k))"
proof (unfold fair_def, intro allI impI)
  fix i m assume f: "\<forall>i<n. \<forall>m. \<exists>k\<ge>m. tn_who (ts k) = i" and "i < n"
  then obtain j where "m + k \<le> j" "tn_who (ts j) = i" by blast
  then show "\<exists>j\<ge>m. tn_who (ts (j + k)) = i" by (intro exI [of _ "j - k"]) simp
qed

lemma run_schedule_append:
  "run_schedule fl sink (ss @ ts) g = run_schedule fl sink ts (run_schedule fl sink ss g)"
  by (simp add: run_schedule_def)

lemma run_blocked:
  "\<forall>t \<in> set sched. \<not> can_move g (tn_who t) \<Longrightarrow> run_schedule fl sink sched g = g"
  by (induction sched) (simp_all add: run_schedule_def blocked)

lemma fair_returns:
  assumes "lock_inv g" and "\<forall>k. range_order (tn_order (ts k))" and "fair (length (pcs g)) ts"
  shows "\<exists>n. all_returned (run_schedule fl sink (map ts [0..<n]) g)"
  using assms
proof (induction "turns_left g" arbitrary: g ts
    rule: wf_induct_rule [OF wf_lex_prod [OF wf_less_than wf_less_than]])
  case 1
  show ?case
  proof (cases "all_returned g")
    case True
    then show ?thesis by (intro exI [of _ 0]) (simp add: run_schedule_def)
  next
    case False
    then obtain i where i: "can_move g i" by (rule some_can_move [OF 1(2)])
    then have "i < length (pcs g)" by (simp add: can_move_def)
    then have "\<exists>k. can_move g (tn_who (ts k))" using 1(4) i by (metis fair_def)
    then obtain k where k: "can_move g (tn_who (ts k))" "\<forall>j < k. \<not> can_move g (tn_who (ts j))"
      using exists_least_iff [of "\<lambda>k. can_move g (tn_who (ts k))"] by auto
    have same: "run_schedule fl sink (map ts [0..<k]) g = g"
      using k(2) by (intro run_blocked) auto
    let ?g = "go fl sink (ts k) g" and ?ts = "\<lambda>m. ts (m + Suc k)"
    have "lock_inv ?g" using go_step [OF 1(2)] 1(3) by blast
    then have "\<exists>n. all_returned (run_schedule fl sink (map ?ts [0..<n]) ?g)"
      by (rule 1(1) [OF go_fewer [OF k(1)]]) (use 1(3) fair_shift [OF 1(4), of "Suc k"] in simp_all)
    then obtain n where n: "all_returned (run_schedule fl sink (map ?ts [0..<n]) ?g)" ..
    have "map ts [0..<Suc k + n] = map ts [0..<k] @ ts k # map ?ts [0..<n]"
      by (rule nth_equalityI)
        (auto simp: nth_append nth_Cons simp del: upt_Suc split: nat.split
          intro!: arg_cong [of _ _ ts])
    then have "run_schedule fl sink (map ts [0..<Suc k + n]) g =
        run_schedule fl sink (map ?ts [0..<n]) ?g"
      by (simp only: run_schedule_append same) (simp add: run_schedule_def)
    then show ?thesis using n by (intro exI [of _ "Suc k + n"]) simp
  qed
qed



section \<open>A call that is not interrupted\<close>

text \<open>
  One goroutine among others, and what it comes to when only it has turns and the others leave
  the lock alone: \<open>solo\<close> relates its point, the sink, the processor and the lock before to those
  after some turns of its own, whoever the others are.
\<close>

definition among ::
  "'e pc list \<Rightarrow> 'e pc list \<Rightarrow> 'e pc \<times> 's \<times> processor \<times> bool \<Rightarrow> ('s, 'e) goroutines" where
  "among ps qs x =
     (case x of (pc, s, p, l) \<Rightarrow>
        \<lparr>g_proc = p, g_sink = s, assembleMu = l, pcs = ps @ pc # qs\<rparr>)"

definition solo ::
  "float_lib \<Rightarrow> ('s, 'e) sink_write option \<Rightarrow> range_fn \<Rightarrow> 'e pc \<times> 's \<times> processor \<times> bool
     \<Rightarrow> 'e pc \<times> 's \<times> processor \<times> bool \<Rightarrow> bool" where
  "solo fl sink rng x y \<longleftrightarrow>
     (\<forall>ps qs. \<exists>sched. (\<forall>t \<in> set sched. tn_who t = length ps \<and> tn_order t = rng) \<and>
        run_schedule fl sink sched (among ps qs x) = among ps qs y)"

lemma solo_refl: "solo fl sink rng x x"
  unfolding solo_def by (intro allI exI [of _ "[]"]) (simp add: run_schedule_def)

lemma solo_trans: "solo fl sink rng x y \<Longrightarrow> solo fl sink rng y z \<Longrightarrow> solo fl sink rng x z"
  unfolding solo_def
proof (intro allI)
  fix ps qs
  assume "\<forall>ps qs. \<exists>sched. (\<forall>t \<in> set sched. tn_who t = length ps \<and> tn_order t = rng) \<and>
      run_schedule fl sink sched (among ps qs x) = among ps qs y"
    and "\<forall>ps qs. \<exists>sched. (\<forall>t \<in> set sched. tn_who t = length ps \<and> tn_order t = rng) \<and>
      run_schedule fl sink sched (among ps qs y) = among ps qs z"
  then obtain s1 s2 where
    "\<forall>t \<in> set s1. tn_who t = length ps \<and> tn_order t = rng"
    "run_schedule fl sink s1 (among ps qs x) = among ps qs y"
    "\<forall>t \<in> set s2. tn_who t = length ps \<and> tn_order t = rng"
    "run_schedule fl sink s2 (among ps qs y) = among ps qs z" by meson
  then show "\<exists>sched. (\<forall>t \<in> set sched. tn_who t = length ps \<and> tn_order t = rng) \<and>
      run_schedule fl sink sched (among ps qs x) = among ps qs z"
    by (intro exI [of _ "s1 @ s2"]) (auto simp: run_schedule_append)
qed

lemma solo_turn:
  assumes "\<And>ps qs. go fl sink \<lparr>tn_who = length ps, tn_now = now, tn_order = rng\<rparr> (among ps qs x) =
      among ps qs y"
    and "solo fl sink rng y z"
  shows "solo fl sink rng x z"
proof -
  have "solo fl sink rng x y"
    unfolding solo_def
    by (intro allI, rule_tac x = "[\<lparr>tn_who = length ps, tn_now = now, tn_order = rng\<rparr>]" in exI)
      (simp add: run_schedule_def assms(1))
  then show ?thesis using assms(2) by (rule solo_trans)
qed

lemmas go_among = go_def among_def Let_def

lemma solo_release: "solo fl sink rng (Holding Idle err, s, p, True) (Returned err, s, p, False)"
  by (rule solo_turn [where now = 0, OF _ solo_refl]) (simp add: go_among)

lemma solo_emit_all:
  "emit_all sink out (s, p) = (e, s', p') \<Longrightarrow>
   solo fl sink rng (Holding (Emitting out) None, s, p, True) (Returned e, s', p', False)"
proof (induction out arbitrary: s p)
  case Nil
  then have e: "e = None" "s' = s" "p' = p" by simp_all
  show ?case
    unfolding e
    by (rule solo_turn [where now = 0, OF _ solo_release]) (simp add: go_among)
next
  case (Cons a out)
  show ?case
  proof (cases "a_key a \<in> emitted p")
    case True
    with Cons.prems have "emit_all sink out (s, p) = (e, s', p')" by (simp add: emit_def)
    from solo_turn [where now = 0, OF _ Cons.IH [OF this]] show ?thesis
      using True by (simp add: go_among)
  next
    case False
    obtain r s1 where w: "sink_call sink s (a_ex a) = (r, s1)" by fastforce
    have "solo fl sink rng (Holding (Writing a out) None, s, p, True) (Returned e, s', p', False)"
    proof (cases r)
      case None
      with Cons.prems False w have "emit_all sink out (s1, acknowledge a p) = (e, s', p')"
        by (simp add: emit_def)
      note ih = Cons.IH [OF this]
      have "solo fl sink rng (Holding (Written a out) None, s1, p, True) (Returned e, s', p', False)"
        by (rule solo_turn [where now = 0, OF _ ih]) (simp add: go_among)
      then show ?thesis
        by (rule solo_turn [where now = 0, rotated]) (simp add: go_among w None)
    next
      case (Some err)
      with Cons.prems False w have
        e: "e = Some err" "s' = s1" "p' = restoreReserved (a # out) (write_failed p)"
        by (auto simp: emit_def)
      have "solo fl sink rng (Holding (Restoring (a # out)) e, s1, write_failed p, True)
          (Returned e, s', p', False)"
        unfolding e by (rule solo_turn [where now = 0, OF _ solo_release]) (simp add: go_among)
      then have "solo fl sink rng (Holding (Failed a out) e, s1, p, True) (Returned e, s', p', False)"
        by (rule solo_turn [where now = 0, rotated]) (simp add: go_among)
      then show ?thesis
        by (rule solo_turn [where now = 0, rotated]) (simp add: go_among w Some e(1))
    qed
    then show ?thesis
      by (rule solo_turn [where now = 0, rotated]) (simp add: go_among False)
  qed
qed

lemma solo_assemble:
  assumes "assemble sink rng cutoff (s, p) = (e, s', p')"
  shows "solo fl sink rng (Locking cutoff, s, p, False) (Returned e, s', p', False)"
proof -
  have "solo fl sink rng (Claiming cutoff, s, p, True) (Returned e, s', p', False)"
  proof (cases "readyKeys cutoff p = []")
    case True
    then have e: "e = None" "s' = s" "p' = p" using assms by (simp_all add: assemble_def)
    show ?thesis
      unfolding e
      by (rule solo_turn [where now = 0, OF _ solo_release]) (simp add: go_among claim_turn_def True)
  next
    case False
    obtain out q where c: "claim cutoff rng p = (out, q)" by fastforce
    then have "emit_all sink out (s, q) = (e, s', p')" using assms False by (simp add: assemble_def)
    from solo_turn [where now = 0, OF _ solo_emit_all [OF this]] show ?thesis
      by (simp add: go_among claim_turn_def False c)
  qed
  then show ?thesis by (rule solo_turn [where now = 0, rotated]) (simp add: go_among)
qed

lemma solo_inputs:
  "solo fl sink rng (Consuming (map InputLog rs), s, p, l) (Consuming [], s, consume_logs fl now rs p, l)"
  "solo fl sink rng (Consuming (map InputSpan ss), s, p, l) (Consuming [], s, consume_spans fl now ss p, l)"
proof -
  show "solo fl sink rng (Consuming (map InputLog rs), s, p, l)
      (Consuming [], s, consume_logs fl now rs p, l)"
  proof (induction rs arbitrary: p now)
    case (Cons r rs)
    from solo_turn [where now = "now 0", OF _ Cons.IH] have
      "solo fl sink rng (Taking (normalized fl (InputLog r)) (map InputLog rs), s, count_stat log_seen p, l)
        (Consuming [], s, consume_logs fl now (r # rs) p, l)" by (simp add: go_among)
    then show ?case
      by (rule solo_turn [where now = 0, rotated]) (simp add: go_among consume_turn_def)
  qed (simp add: solo_refl)
  show "solo fl sink rng (Consuming (map InputSpan ss), s, p, l)
      (Consuming [], s, consume_spans fl now ss p, l)"
  proof (induction ss arbitrary: p now)
    case (Cons r ss)
    from solo_turn [where now = "now 0", OF _ Cons.IH] have
      "solo fl sink rng (Taking (normalized fl (InputSpan r)) (map InputSpan ss), s, count_stat span_seen p, l)
        (Consuming [], s, consume_spans fl now (r # ss) p, l)" by (simp add: go_among)
    then show ?case
      by (rule solo_turn [where now = 0, rotated]) (simp add: go_among consume_turn_def)
  qed (simp add: solo_refl)
qed

lemma solo_expired:
  assumes "assembleExpired sink rng now (s, p) = (e, s', p')"
  shows "solo fl sink rng (Consuming [], s, p, False) (Returned e, s', p', False)"
proof (cases "maxWait p \<le> 0")
  case True
  then have e: "e = None" "s' = s" "p' = p" using assms by (simp_all add: assembleExpired_def)
  show ?thesis
    unfolding e
    by (rule solo_turn [where now = 0, OF _ solo_refl]) (simp add: go_among consume_turn_def True)
next
  case False
  then have "assemble sink rng (Some (now - maxWait p)) (s, p) = (e, s', p')"
    using assms by (simp add: assembleExpired_def)
  from solo_turn [where now = now, OF _ solo_assemble [OF this]] show ?thesis
    using False by (simp add: go_among consume_turn_def)
qed

lemma solo_call:
  assumes "run_call fl sink c (s, p) = (e, s', p')"
  shows "solo fl sink (call_order c) (call_start c, s, p, False) (Returned e, s', p', False)"
proof (cases c)
  case (CallLogs rng now rs)
  then have "assembleExpired sink rng (now (length rs)) (s, consume_logs fl now rs p) = (e, s', p')"
    using assms by (simp add: ConsumeLogRecords_def)
  from solo_trans [OF solo_inputs(1) solo_expired [OF this]] CallLogs show ?thesis by simp
next
  case (CallSpans rng now ss)
  then have "assembleExpired sink rng (now (length ss)) (s, consume_spans fl now ss p) = (e, s', p')"
    using assms by (simp add: ConsumeSpans_def)
  from solo_trans [OF solo_inputs(2) solo_expired [OF this]] CallSpans show ?thesis by simp
next
  case (CallFlush rng)
  then show ?thesis using assms by (simp add: Flush_def solo_assemble)
qed

fun run_errors ::
  "float_lib \<Rightarrow> ('s, 'e) sink_write option \<Rightarrow> call list \<Rightarrow> 's \<times> processor \<Rightarrow> 'e option list" where
  "run_errors fl sink [] sp = []"
| "run_errors fl sink (c # cs) sp =
     fst (run_call fl sink c sp) # run_errors fl sink cs (snd (run_call fl sink c sp))"

lemma run_calls_schedule:
  assumes "run_calls fl sink cs (s, p) = (s', p')" and "\<forall>c \<in> set cs. range_order (call_order c)"
  shows "\<exists>sched. (\<forall>t \<in> set sched. range_order (tn_order t)) \<and>
    run_schedule fl sink sched
        \<lparr>g_proc = p, g_sink = s, assembleMu = False, pcs = ps @ map call_start cs\<rparr> =
      \<lparr>g_proc = p', g_sink = s', assembleMu = False,
       pcs = ps @ map Returned (run_errors fl sink cs (s, p))\<rparr>"
  using assms
proof (induction cs arbitrary: s p ps)
  case Nil
  then show ?case by (intro exI [of _ "[]"]) (simp add: run_schedule_def)
next
  case (Cons c cs)
  obtain e s1 p1 where c: "run_call fl sink c (s, p) = (e, s1, p1)" by (metis prod_cases3)
  from solo_call [OF c] obtain s2 where
    s2: "\<forall>t \<in> set s2. tn_who t = length ps \<and> tn_order t = call_order c"
    "run_schedule fl sink s2 (among ps (map call_start cs) (call_start c, s, p, False)) =
      among ps (map call_start cs) (Returned e, s1, p1, False)" unfolding solo_def by meson
  have "run_calls fl sink cs (s1, p1) = (s', p')" using Cons.prems(1) c by simp
  from Cons.IH [OF this, of "ps @ [Returned e]"] Cons.prems(2) obtain s3 where
    s3: "\<forall>t \<in> set s3. range_order (tn_order t)"
    "run_schedule fl sink s3
        \<lparr>g_proc = p1, g_sink = s1, assembleMu = False, pcs = (ps @ [Returned e]) @ map call_start cs\<rparr> =
      \<lparr>g_proc = p', g_sink = s', assembleMu = False,
       pcs = (ps @ [Returned e]) @ map Returned (run_errors fl sink cs (s1, p1))\<rparr>" by auto
  show ?case
    using s2 s3 c Cons.prems(2)
    by (intro exI [of _ "s2 @ s3"]) (auto simp: run_schedule_append among_def)
qed

section \<open>A goroutine that is left alone\<close>

text \<open>What an assembly still does from the point where it is, when nobody interrupts it.\<close>

fun rest_of ::
  "('s, 'e) sink_write option \<Rightarrow> range_fn \<Rightarrow> 'e pc \<Rightarrow> 's \<times> processor \<Rightarrow> 'e option \<times> 's \<times> processor" where
  "rest_of sink rng (Locking cutoff) sp = assemble sink rng cutoff sp"
| "rest_of sink rng (Claiming cutoff) sp = assemble sink rng cutoff sp"
| "rest_of sink rng (Holding (Emitting out) err) sp = emit_all sink out sp"
| "rest_of sink rng (Holding (Writing a out) err) (s, p) =
     (case sink_call sink s (a_ex a) of
        (None, s) \<Rightarrow> emit_all sink out (s, acknowledge a p)
      | (Some e, s) \<Rightarrow> (Some e, s, restoreReserved (a # out) (write_failed p)))"
| "rest_of sink rng (Holding (Written a out) err) (s, p) = emit_all sink out (s, acknowledge a p)"
| "rest_of sink rng (Holding (Failed a out) err) (s, p) =
     (err, s, restoreReserved (a # out) (write_failed p))"
| "rest_of sink rng (Holding (Restoring out) err) (s, p) = (err, s, restoreReserved out p)"
| "rest_of sink rng (Holding Idle err) sp = (err, sp)"
| "rest_of sink rng (Returned err) sp = (err, sp)"
| "rest_of sink rng (Consuming is) sp = (None, sp)"
| "rest_of sink rng (Taking es is) sp = (None, sp)"

fun assembling :: "'e pc \<Rightarrow> bool" where
  "assembling (Consuming is) = False"
| "assembling (Taking es is) = False"
| "assembling (Holding (Emitting out) err) = (err = None)"
| "assembling (Holding (Writing a out) err) = (err = None)"
| "assembling (Holding (Written a out) err) = (err = None)"
| "assembling _ = True"

lemma emit_turn_rest:
  assumes "emit_turn sink ph err (s, p) = (pc, s', p')" and "assembling (Holding ph err)"
  shows "assembling pc \<and> rest_of sink rng pc (s', p') = rest_of sink rng (Holding ph err) (s, p)"
  using assms
  by (cases "(sink, ph, err, s, p)" rule: emit_turn.cases)
    (auto simp: emit_def split: prod.splits option.splits if_splits)

lemma go_rest:
  assumes "pcs g = ps @ [pc]" and "tn_who t = length ps" and "assembling pc"
  shows "\<exists>pc'. pcs (go fl sink t g) = ps @ [pc'] \<and> assembling pc' \<and>
    rest_of sink (case pc of Claiming cutoff \<Rightarrow> tn_order t | _ \<Rightarrow> rng) pc (g_sink g, g_proc g) =
      rest_of sink rng pc' (g_sink (go fl sink t g), g_proc (go fl sink t g))"
proof (cases pc)
  case (Locking cutoff)
  then show ?thesis using assms by (simp add: go_def Let_def)
next
  case (Claiming cutoff)
  then show ?thesis
    using assms
    by (auto simp: go_def Let_def claim_turn_def assemble_def split: prod.splits)
next
  case (Holding ph err)
  obtain pc' s' p' where e: "emit_turn sink ph err (g_sink g, g_proc g) = (pc', s', p')"
    by (metis prod_cases3)
  from assms(3) Holding have "assembling (Holding ph err)" by simp
  from emit_turn_rest [OF e this, of rng] show ?thesis
    using assms(1,2) Holding e by (simp add: go_def Let_def)
next
  case (Returned err)
  then show ?thesis using assms by (simp add: go_def Let_def)
qed (use assms(3) in simp_all)

lemma go_past: "tn_who t < length ps \<longrightarrow> returned (ps ! tn_who t) \<Longrightarrow> tn_who t \<noteq> length ps \<Longrightarrow>
    pcs g = ps @ [pc] \<Longrightarrow> go fl sink t g = g"
  by (rule blocked) (auto simp: can_move_def nth_append not_less_eq less_Suc_eq)

text \<open>
  While the others have all returned or have no turns, a call that returns has done what the
  uninterrupted call does, with the map order of the turn in which it claimed.
\<close>

lemma left_alone:
  assumes "pcs g = ps @ [pc]" and "assembling pc"
    and "\<forall>t \<in> set sched. range_order (tn_order t) \<and> (tn_who t < length ps \<longrightarrow> returned (ps ! tn_who t))"
    and "last (pcs (run_schedule fl sink sched g)) = Returned e"
  shows "pcs (run_schedule fl sink sched g) = ps @ [Returned e] \<and>
    (\<exists>rng. range_order rng \<and> rest_of sink rng pc (g_sink g, g_proc g) =
       (e, g_sink (run_schedule fl sink sched g), g_proc (run_schedule fl sink sched g)))"
  using assms
proof (induction sched arbitrary: g pc)
  case Nil
  then have "pc = Returned e" by (simp add: run_schedule_def)
  then show ?case using Nil.prems(1) range_order_sorted by (auto simp: run_schedule_def)
next
  case (Cons t sched)
  have rs: "run_schedule fl sink (t # sched) g = run_schedule fl sink sched (go fl sink t g)"
    by (simp add: run_schedule_def)
  show ?case
  proof (cases "tn_who t = length ps")
    case False
    then have "go fl sink t g = g" using Cons.prems(1,3) by (intro go_past [of t ps]) auto
    then show ?thesis using Cons.IH [OF Cons.prems(1,2)] Cons.prems(3,4) rs by simp
  next
    case True
    obtain pc' where p: "pcs (go fl sink t g) = ps @ [pc']" "assembling pc'"
      using go_rest [OF Cons.prems(1) True Cons.prems(2)] by blast
    from Cons.IH [OF p] Cons.prems(3,4) rs obtain rng where
      r: "pcs (run_schedule fl sink (t # sched) g) = ps @ [Returned e]" "range_order rng"
      "rest_of sink rng pc' (g_sink (go fl sink t g), g_proc (go fl sink t g)) =
        (e, g_sink (run_schedule fl sink (t # sched) g), g_proc (run_schedule fl sink (t # sched) g))"
      by auto
    let ?rng = "case pc of Claiming cutoff \<Rightarrow> tn_order t | _ \<Rightarrow> rng"
    have "range_order ?rng" using r(2) Cons.prems(3) by (cases pc) simp_all
    moreover have "rest_of sink ?rng pc (g_sink g, g_proc g) =
        rest_of sink rng pc' (g_sink (go fl sink t g), g_proc (go fl sink t g))"
      using go_rest [OF Cons.prems(1) True Cons.prems(2), of fl sink rng] p(1) by auto
    ultimately show ?thesis using r by metis
  qed
qed

end
