(* ===== verification/Json.thy ===== *)
theory Json
  imports Merge
begin

text \<open>
  How a record becomes a line: \<open>json.Marshal\<close> of an \<open>observation.Execution\<close>. The fields, their
  names, their order and their \<open>omitempty\<close> marks are those of the struct tags of
  \<open>internal/observation/execution.go\<close>; below them stands the part of \<open>encoding/json\<close> and of
  \<open>time.Time.MarshalJSON\<close> that such a record reaches. The record of a valid time is the
  RFC 3339 text of its UTC civil time, computed from the day count.
\<close>

section \<open>Strings\<close>

definition byte :: "char \<Rightarrow> nat" where
  "byte c = of_char c"

definition in_range :: "nat \<Rightarrow> nat \<Rightarrow> char \<Rightarrow> bool" where
  "in_range lo hi c \<longleftrightarrow> lo \<le> byte c \<and> byte c \<le> hi"

text \<open>
  The length of the well-formed UTF-8 sequence at the head of a string, as
  \<open>utf8.DecodeRuneInString\<close> accepts it; \<open>None\<close> where that yields \<open>RuneError\<close> and width 1.
\<close>

definition utf8_len :: "string \<Rightarrow> nat option" where
  "utf8_len s =
     (case s of
        [] \<Rightarrow> None
      | a # s1 \<Rightarrow>
          if byte a < 0x80 then Some 1
          else if in_range 0xC2 0xDF a then
            (case s1 of b # _ \<Rightarrow> if in_range 0x80 0xBF b then Some 2 else None | [] \<Rightarrow> None)
          else if in_range 0xE0 0xEF a then
            (case s1 of b # c # _ \<Rightarrow>
               if in_range (if byte a = 0xE0 then 0xA0 else 0x80)
                    (if byte a = 0xED then 0x9F else 0xBF) b \<and> in_range 0x80 0xBF c
               then Some 3 else None
             | _ \<Rightarrow> None)
          else if in_range 0xF0 0xF4 a then
            (case s1 of b # c # d # _ \<Rightarrow>
               if in_range (if byte a = 0xF0 then 0x90 else 0x80)
                    (if byte a = 0xF4 then 0x8F else 0xBF) b \<and>
                  in_range 0x80 0xBF c \<and> in_range 0x80 0xBF d
               then Some 4 else None
             | _ \<Rightarrow> None)
          else None)"

definition hex_lower :: "nat \<Rightarrow> char" where
  "hex_lower n = (if n < 10 then char_of (48 + n) else char_of (87 + n))"

definition backslash :: char where "backslash = CHR 0x5C"
definition dquote :: char where "dquote = CHR 0x22"

text \<open>One ASCII byte; \<open><\<close>, \<open>>\<close> and \<open>&\<close> are escaped because \<open>Marshal\<close> escapes HTML.\<close>

definition escape_ascii :: "char \<Rightarrow> string" where
  "escape_ascii c =
     (if c = backslash \<or> c = dquote then [backslash, c]
      else if byte c = 8 then [backslash, CHR ''b'']
      else if byte c = 12 then [backslash, CHR ''f'']
      else if byte c = 10 then [backslash, CHR ''n'']
      else if byte c = 13 then [backslash, CHR ''r'']
      else if byte c = 9 then [backslash, CHR ''t'']
      else if byte c < 32 \<or> c \<in> set ''<>&'' then
        [backslash, CHR ''u'', CHR ''0'', CHR ''0'', hex_lower (byte c div 16), hex_lower (byte c mod 16)]
      else [c])"

definition escape_rune :: "string \<Rightarrow> string" where
  "escape_rune r =
     (if r = [CHR 0xE2, CHR 0x80, CHR 0xA8] then backslash # ''u2028''
      else if r = [CHR 0xE2, CHR 0x80, CHR 0xA9] then backslash # ''u2029''
      else r)"

function json_escape :: "string \<Rightarrow> string" where
  "json_escape [] = []"
| "json_escape (c # cs) =
     (if byte c < 0x80 then escape_ascii c @ json_escape cs
      else (case utf8_len (c # cs) of
              None \<Rightarrow> backslash # ''ufffd'' @ json_escape cs
            | Some n \<Rightarrow> escape_rune (take n (c # cs)) @ json_escape (drop (n - 1) cs)))"
  by pat_completeness auto
termination by (relation "measure length") auto

definition json_string :: "string \<Rightarrow> string" where
  "json_string s = dquote # json_escape s @ [dquote]"

section \<open>Times\<close>

definition leap :: "int \<Rightarrow> bool" where
  "leap y \<longleftrightarrow> y mod 4 = 0 \<and> (y mod 100 \<noteq> 0 \<or> y mod 400 = 0)"

text \<open>The year and the day of the year (from 0) of a day counted from 1 January of year 1.\<close>

definition year_day :: "int \<Rightarrow> int \<times> int" where
  "year_day d =
     (let n400 = d div 146097; d = d mod 146097;
          n100 = min 3 (d div 36524); d = d - 36524 * n100;
          n4 = d div 1461; d = d mod 1461;
          n1 = min 3 (d div 365)
      in (400 * n400 + 100 * n100 + 4 * n4 + n1 + 1, d - 365 * n1))"

definition month_starts :: "bool \<Rightarrow> int list" where
  "month_starts lp =
     (if lp then [0, 31, 60, 91, 121, 152, 182, 213, 244, 274, 305, 335]
      else [0, 31, 59, 90, 120, 151, 181, 212, 243, 273, 304, 334])"

definition month_day :: "bool \<Rightarrow> int \<Rightarrow> int \<times> int" where
  "month_day lp yday =
     (let before = filter (\<lambda>m. m \<le> yday) (month_starts lp)
      in (int (length before), yday - last before + 1))"

text \<open>Days from year 1 to 1970.\<close>

definition epoch_days :: int where "epoch_days = 719162"

definition pad :: "nat \<Rightarrow> int \<Rightarrow> string" where
  "pad w i = (let s = decimal_nat (nat i) in replicate (w - length s) (CHR ''0'') @ s)"

definition strip_zeros :: "string \<Rightarrow> string" where
  "strip_zeros s = rev (dropWhile (\<lambda>c. c = CHR ''0'') (rev s))"

definition fraction :: "int \<Rightarrow> string" where
  "fraction ns = (if ns = 0 then [] else ''.'' @ strip_zeros (pad 9 ns))"

definition rfc3339 :: "int \<Rightarrow> string" where
  "rfc3339 ns =
     (let secs = ns div 1000000000; frac = ns mod 1000000000;
          (y, yday) = year_day (secs div 86400 + epoch_days); (m, d) = month_day (leap y) yday;
          s = secs mod 86400
      in pad 4 y @ ''-'' @ pad 2 m @ ''-'' @ pad 2 d @ ''T'' @ pad 2 (s div 3600) @ '':'' @
         pad 2 (s mod 3600 div 60) @ '':'' @ pad 2 (s mod 60) @ fraction frac @ ''Z'')"

definition time_year :: "int \<Rightarrow> int" where
  "time_year ns = fst (year_day (ns div 1000000000 div 86400 + epoch_days))"

text \<open>\<open>MarshalJSON\<close> of a time fails when the year does not have four digits.\<close>

definition json_time :: "gotime \<Rightarrow> string option" where
  "json_time t =
     (case t of
        None \<Rightarrow> Some (dquote # ''0001-01-01T00:00:00Z'' @ [dquote])
      | Some ns \<Rightarrow>
          if 0 \<le> time_year ns \<and> time_year ns \<le> 9999
          then Some (dquote # rfc3339 ns @ [dquote]) else None)"

section \<open>The record\<close>

definition json_bool :: "bool \<Rightarrow> string" where
  "json_bool b = (if b then ''true'' else ''false'')"

definition json_list :: "string list \<Rightarrow> string" where
  "json_list ss = ''['' @ join_with '','' (map json_string ss) @ '']''"

definition json_object :: "(string \<times> string) list \<Rightarrow> string" where
  "json_object kvs =
     ''{'' @ join_with '','' (map (\<lambda>(k, v). json_string k @ '':'' @ v) kvs) @ ''}''"

text \<open>A string field with and without \<open>omitempty\<close>.\<close>

definition opt_field :: "string \<Rightarrow> string \<Rightarrow> (string \<times> string) list" where
  "opt_field k s = (if s = [] then [] else [(k, json_string s)])"

definition source_fields :: "source \<Rightarrow> (string \<times> string) list" where
  "source_fields src =
     [(''observer_type'', json_string (ObserverType src))] @
     opt_field ''observer_id'' (ObserverID src) @
     opt_field ''observer_version'' (ObserverVersion src) @
     [(''transport'', json_string (Transport src))] @
     opt_field ''service_name'' (ServiceName src) @
     opt_field ''protocol_version'' (ProtocolVersion src) @
     opt_field ''network_transport'' (NetworkTransport src) @
     opt_field ''session_id_diagnostic'' (SessionID src)"

definition opt_list :: "string \<Rightarrow> string list \<Rightarrow> (string \<times> string) list" where
  "opt_list k ss = (if ss = [] then [] else [(k, json_list ss)])"

text \<open>\<open>omitempty\<close> does not apply to a struct, so both times are always written.\<close>

definition execution_fields ::
  "(string \<Rightarrow> string) \<Rightarrow> execution \<Rightarrow> string \<Rightarrow> string \<Rightarrow> (string \<times> string) list" where
  "execution_fields quote ex started finished =
     opt_field ''trace_id'' (TraceID ex) @ opt_field ''span_id'' (SpanID ex) @
     opt_field ''parent_span_id'' (ParentSpanID ex) @ opt_field ''span_kind'' (SpanKind ex) @
     opt_field ''operation_id'' (OperationID ex) @
     [(''correlation'', json_string (correlation_text (Correlation ex)))] @
     opt_field ''correlation_detail'' (CorrelationDetail ex) @
     opt_field ''target'' (Target ex) @ opt_field ''tool'' (Tool ex) @
     [(''started_at'', started), (''finished_at'', finished)] @
     (if DurationMS ex = 0 then [] else [(''duration_ms'', decimal_int (DurationMS ex))]) @
     [(''status'', json_string (status_text (Status ex)))] @
     opt_field ''error_type'' (ErrorType ex) @ opt_field ''error_code'' (ErrorCode ex) @
     opt_field ''arguments_fingerprint'' (ArgumentsFingerprint ex) @
     [(''arguments_fingerprint_status'',
       json_string (availability_text (ArgumentsFingerprintStatus ex)))] @
     opt_field ''result_fingerprint'' (ResultFingerprint ex) @
     [(''result_fingerprint_status'',
       json_string (availability_text (ResultFingerprintStatus ex)))] @
     [(''read_only_declared'', json_bool (ReadOnlyDeclared ex)),
      (''read_only_annotation_known'', json_bool (ReadOnlyAnnotationKnown ex)),
      (''annotations_verified'', json_bool (AnnotationsVerified ex)),
      (''source'', json_object (source_fields (Source ex)))] @
     opt_list ''seen_from'' (SeenFrom ex) @
     opt_list ''disagreements'' (map (disagreement_text quote) (Disagreements ex))"

definition Marshal :: "(string \<Rightarrow> string) \<Rightarrow> execution \<Rightarrow> string option" where
  "Marshal quote ex =
     (case (json_time (StartedAt ex), json_time (FinishedAt ex)) of
        (Some started, Some finished) \<Rightarrow>
          Some (json_object (execution_fields quote ex started finished))
      | _ \<Rightarrow> None)"

section \<open>One record is one line\<close>

text \<open>A text without control bytes, so without a line end.\<close>

definition printable :: "string \<Rightarrow> bool" where
  "printable s \<longleftrightarrow> (\<forall>c \<in> set s. 32 \<le> byte c)"

lemma printable_simps [simp]:
  "printable []" "printable (c # s) \<longleftrightarrow> 32 \<le> byte c \<and> printable s"
  "printable (s @ t) \<longleftrightarrow> printable s \<and> printable t"
  by (auto simp: printable_def)

lemma byte_char_of [simp]: "n < 256 \<Longrightarrow> byte (char_of n) = n"
  by (simp add: byte_def)

lemma byte_less: "byte c < 256"
  using nat_of_char_less_256 [of c] by (simp add: byte_def)

lemma printable_special [simp]: "32 \<le> byte backslash" "32 \<le> byte dquote"
  by (simp_all add: backslash_def dquote_def byte_def)

lemma hex_lower_printable [simp]: "n < 16 \<Longrightarrow> 32 \<le> byte (hex_lower n)"
  by (auto simp: hex_lower_def)

lemma escape_ascii_printable: "printable (escape_ascii c)"
proof -
  have "byte c div 16 < 16" using byte_less [of c] by linarith
  moreover have "byte c mod 16 < 16" by simp
  ultimately show ?thesis
    by (simp add: escape_ascii_def not_less)
       (simp add: byte_def)
qed


lemma utf8_len_printable:
  assumes "utf8_len (c # cs) = Some n" and "\<not> byte c < 0x80"
  shows "printable (take n (c # cs))"
  using assms
  by (auto simp: utf8_len_def in_range_def take_Cons' split: list.splits if_splits)

lemma escape_rune_printable: "printable r \<Longrightarrow> printable (escape_rune r)"
  by (simp add: escape_rune_def) (simp add: byte_def)

lemma json_escape_printable: "printable (json_escape s)"
proof (induction s rule: json_escape.induct)
  case (2 c cs)
  have u: "printable ''ufffd''" by (simp add: byte_def)
  show ?case
  proof (cases "byte c < 0x80")
    case True
    then show ?thesis using 2(1) escape_ascii_printable by simp
  next
    case False
    then show ?thesis
      using 2(2,3) [OF False] utf8_len_printable [OF _ False] escape_rune_printable u
      by (simp split: option.split del: take_Cons' )
  qed
qed simp

lemma json_string_printable [simp]: "printable (json_string s)"
  by (simp add: json_string_def json_escape_printable)


lemma decimal_nat_printable [simp]: "printable (decimal_nat n)"
proof (induction n rule: decimal_nat.induct)
  case (1 n)
  then show ?case by (subst decimal_nat.simps) auto
qed

lemma decimal_int_printable [simp]: "printable (decimal_int i)"
  by (simp add: decimal_int_def byte_def)

lemma printable_replicate: "printable (replicate n c) \<longleftrightarrow> n = 0 \<or> 32 \<le> byte c"
  by (auto simp: printable_def)

lemma pad_printable [simp]: "printable (pad w i)"
  by (simp add: pad_def Let_def printable_replicate) (simp add: byte_def)

lemma strip_zeros_printable: "printable s \<Longrightarrow> printable (strip_zeros s)"
  by (auto simp: printable_def strip_zeros_def dest: set_dropWhileD)

lemma rfc3339_printable: "printable (rfc3339 ns)"
proof -
  have "printable (fraction i)" for i
    using strip_zeros_printable [of "pad 9 i"] by (simp add: fraction_def) (simp add: byte_def)
  then show ?thesis by (simp add: rfc3339_def Let_def case_prod_beta) (simp add: byte_def)
qed

lemma json_time_printable: "json_time t = Some s \<Longrightarrow> printable s"
  using rfc3339_printable
  by (auto simp: json_time_def split: option.splits if_splits) (simp_all add: byte_def)

lemma join_with_printable:
  "printable sep \<Longrightarrow> list_all printable ss \<Longrightarrow> printable (join_with sep ss)"
  by (induction sep ss rule: join_with.induct) auto

lemma json_list_printable [simp]: "printable (json_list ss)"
proof -
  have "printable (join_with '','' (map json_string ss))"
    by (rule join_with_printable) (simp_all add: byte_def list_all_iff)
  then show ?thesis by (simp add: json_list_def) (simp add: byte_def)
qed

lemma json_object_printable:
  assumes "list_all (\<lambda>(k, v). printable v) kvs"
  shows "printable (json_object kvs)"
proof -
  have "printable (json_string k @ '':'' @ v)" if "(k, v) \<in> set kvs" for k v
    using that assms by (auto simp: list_all_iff byte_def)
  then have "printable (join_with '','' (map (\<lambda>(k, v). json_string k @ '':'' @ v) kvs))"
    by (intro join_with_printable) (auto simp: byte_def list_all_iff)
  then show ?thesis by (simp add: json_object_def) (simp add: byte_def)
qed

lemma opt_field_printable [simp]: "list_all (\<lambda>(k, v). printable v) (opt_field k s)"
  by (simp add: opt_field_def)

lemma opt_list_printable [simp]: "list_all (\<lambda>(k, v). printable v) (opt_list k ss)"
  by (simp add: opt_list_def)

lemma json_bool_printable [simp]: "printable (json_bool b)"
  by (simp add: json_bool_def byte_def)

lemma source_fields_printable [simp]: "list_all (\<lambda>(k, v). printable v) (source_fields src)"
  by (simp add: source_fields_def)

lemma execution_fields_printable:
  "printable a \<Longrightarrow> printable b \<Longrightarrow> list_all (\<lambda>(k, v). printable v) (execution_fields quote ex a b)"
  by (simp add: execution_fields_def json_object_printable)

lemma Marshal_printable: "Marshal quote ex = Some line \<Longrightarrow> printable line"
  by (auto simp: Marshal_def split: option.splits
      intro!: json_object_printable execution_fields_printable dest: json_time_printable)

section \<open>Every normalized record can be written\<close>

lemma year_day_bounds:
  assumes "612000 \<le> d" and "d \<le> 826000"
  shows "1600 \<le> fst (year_day d) \<and> fst (year_day d) \<le> 2800"
proof -
  have a: "4 \<le> d div 146097" "d div 146097 \<le> 5" using assms by linarith+
  define e where "e = d mod 146097"
  define f where "f = e - 36524 * min 3 (e div 36524)"
  have e: "0 \<le> e" "e < 146097" by (simp_all add: e_def)
  then have "0 \<le> min 3 (e div 36524)" "min 3 (e div 36524) \<le> 3" by simp_all
  moreover have f: "0 \<le> f" "f \<le> 146097" using e unfolding f_def by linarith+
  then have "0 \<le> f div 1461" "f div 1461 \<le> 100" by linarith+
  moreover have "0 \<le> min 3 (f mod 1461 div 365)" "min 3 (f mod 1461 div 365) \<le> 3"
    by (simp_all add: pos_imp_zdiv_nonneg_iff)
  moreover have "fst (year_day d) =
      400 * (d div 146097) + 100 * min 3 (e div 36524) + 4 * (f div 1461) + min 3 (f mod 1461 div 365) + 1"
    by (simp add: year_day_def Let_def e_def f_def)
  ultimately show ?thesis using a by (intro conjI) linarith+
qed

lemma json_time_total:
  assumes "int64_time t"
  shows "json_time t \<noteq> None"
proof (cases t)
  case (Some ns)
  have b: "- 9223372036854775808 \<le> ns" "ns < 9223372036854775808"
    using assms Some by (simp_all add: int64_time_def)
  define d where "d = ns div 1000000000 div 86400 + epoch_days"
  have "612000 \<le> d \<and> d \<le> 826000" using b unfolding d_def epoch_days_def by linarith
  then have "1600 \<le> time_year ns \<and> time_year ns \<le> 2800"
    using year_day_bounds [of d] by (simp add: time_year_def d_def)
  then show ?thesis by (simp add: Some json_time_def)
qed (simp add: json_time_def)

lemma Marshal_total:
  assumes "exec_wf ex"
  shows "\<exists>line. Marshal quote ex = Some line \<and> line \<noteq> [] \<and> printable line"
proof -
  have "json_time (StartedAt ex) \<noteq> None" "json_time (FinishedAt ex) \<noteq> None"
    using assms json_time_total by (simp_all add: exec_wf_def)
  then obtain line where "Marshal quote ex = Some line" "line \<noteq> []"
    by (auto simp: Marshal_def json_object_def)
  then show ?thesis using Marshal_printable by blast
qed

text \<open>
  Every normalized or assembled record can be written, as one line. Encoding a
  well-formed record never fails, and the text has no control byte, so no newline: the line
  end that the sink appends is the only one.
\<close>

theorem marshal_one_line:
  assumes "exec_wf ex"
  shows "\<exists>line. Marshal quote ex = Some line \<and> line \<noteq> [] \<and> printable line"
  by (rule Marshal_total [OF assms])

theorem marshal_one_line_witness:
  "\<exists>line. Marshal (\<lambda>s. s) ex_log = Some line \<and> line \<noteq> [] \<and> printable line"
  by (rule marshal_one_line) simp

text \<open>Three days: 14 September 2025, 29 February 2000 and 31 December 1969.\<close>

lemma civil_examples:
  "year_day (20345 + epoch_days) = (2025, 256) \<and> month_day (leap 2025) 256 = (9, 14)"
  "year_day (11016 + epoch_days) = (2000, 59) \<and> month_day (leap 2000) 59 = (2, 29)"
  "year_day (- 1 + epoch_days) = (1969, 364) \<and> month_day (leap 1969) 364 = (12, 31)"
  by code_simp+

end
