(* ===== verification/Paths.thy ===== *)
theory Paths
  imports Prelude
begin

text \<open>
  The functions of \<open>path/filepath\<close> that the program calls, for Unix paths: \<open>Clean\<close>, \<open>Dir\<close>,
  \<open>Join\<close> and \<open>IsAbs\<close>. \<open>Clean\<close> reads the elements between slashes from left to right onto a
  stack, dropping empty ones and dots, and a double dot takes the element before it away.
\<close>

definition slash :: char where "slash = CHR ''/''"

definition IsAbs :: "string \<Rightarrow> bool" where
  "IsAbs p \<longleftrightarrow> has_prefix [slash] p"

fun clean_stack :: "bool \<Rightarrow> string list \<Rightarrow> string list \<Rightarrow> string list" where
  "clean_stack rooted out [] = rev out"
| "clean_stack rooted out (e # es) =
     (if e = [] \<or> e = ''.'' then clean_stack rooted out es
      else if e = ''..'' then
        (case out of
           [] \<Rightarrow> clean_stack rooted (if rooted then [] else [''..'']) es
         | t # ts \<Rightarrow> clean_stack rooted (if t = ''..'' then ''..'' # out else ts) es)
      else clean_stack rooted (e # out) es)"

definition path_of :: "bool \<Rightarrow> string list \<Rightarrow> string" where
  "path_of rooted es =
     (if rooted then slash # join_with [slash] es
      else if es = [] then ''.'' else join_with [slash] es)"

definition Clean :: "string \<Rightarrow> string" where
  "Clean p = path_of (IsAbs p) (clean_stack (IsAbs p) [] (split_on slash p))"

definition up_to_last_slash :: "string \<Rightarrow> string" where
  "up_to_last_slash p = rev (dropWhile (\<lambda>c. c \<noteq> slash) (rev p))"

definition Dir :: "string \<Rightarrow> string" where
  "Dir p = Clean (up_to_last_slash p)"

definition Join :: "string list \<Rightarrow> string" where
  "Join es =
     (case filter (\<lambda>e. e \<noteq> []) es of [] \<Rightarrow> [] | ne \<Rightarrow> Clean (join_with [slash] ne))"

section \<open>Clean\<close>

text \<open>What the stack holds: real elements, below them double dots when the path is relative.\<close>

definition plain_element :: "string \<Rightarrow> bool" where
  "plain_element e \<longleftrightarrow> e \<noteq> [] \<and> e \<noteq> ''.'' \<and> e \<noteq> ''..'' \<and> slash \<notin> set e"

definition clean_elements :: "bool \<Rightarrow> string list \<Rightarrow> bool" where
  "clean_elements rooted es \<longleftrightarrow>
     (\<exists>n ps. es = replicate n ''..'' @ ps \<and> list_all plain_element ps \<and> (rooted \<longrightarrow> n = 0))"

lemma clean_elements_Nil [simp]: "clean_elements rooted []"
  by (auto simp: clean_elements_def intro: exI [of _ 0])

lemma clean_elements_push:
  assumes "clean_elements rooted es" and "plain_element e"
  shows "clean_elements rooted (es @ [e])"
proof -
  obtain n ps where "es = replicate n ''..'' @ ps" "list_all plain_element ps" "rooted \<longrightarrow> n = 0"
    using assms(1) by (auto simp: clean_elements_def)
  then have "es @ [e] = replicate n ''..'' @ (ps @ [e]) \<and> list_all plain_element (ps @ [e]) \<and>
      (rooted \<longrightarrow> n = 0)" using assms(2) by simp
  then show ?thesis unfolding clean_elements_def by blast
qed

lemma plain_element_dots [simp]: "\<not> plain_element ''..''"
  by (simp add: plain_element_def)

lemma clean_elements_pop:
  assumes "clean_elements rooted (es @ [t])" and "t \<noteq> ''..''"
  shows "clean_elements rooted es"
proof -
  obtain n ps where p: "es @ [t] = replicate n ''..'' @ ps" "list_all plain_element ps"
    "rooted \<longrightarrow> n = 0" using assms(1) by (auto simp: clean_elements_def)
  have "ps \<noteq> []"
  proof
    assume "ps = []"
    then have "t \<in> set (replicate n ''..'')" using p(1) by (metis append_Nil2 in_set_conv_decomp)
    then show False using assms(2) by simp
  qed
  then obtain qs where "ps = qs @ [t]" using p(1) by (metis append_butlast_last_id last_appendR last_snoc)
  then show ?thesis using p by (auto simp: clean_elements_def)
qed

lemma clean_elements_dots:
  assumes "clean_elements False (es @ [''..''])"
  shows "clean_elements False (es @ [''..'', ''..''])"
proof -
  obtain n ps where p: "es @ [''..''] = replicate n ''..'' @ ps" "list_all plain_element ps"
    using assms by (auto simp: clean_elements_def)
  have "ps = []"
  proof (rule ccontr)
    assume "ps \<noteq> []"
    then have "last ps = ''..''" using p(1) by (metis last_appendR last_snoc)
    then have "''..'' \<in> set ps" using \<open>ps \<noteq> []\<close> last_in_set by fastforce
    then show False using p(2) by (auto simp: list_all_iff)
  qed
  then have "es @ [''..'', ''..''] = replicate (Suc n) ''..''"
    using p(1) by (metis append.assoc append_Cons append_Nil append_Nil2 replicate_Suc replicate_append_same)
  then show ?thesis unfolding clean_elements_def
    by (intro exI [of _ "Suc n"] exI [of _ "[]"]) simp
qed

lemma rooted_top: "clean_elements True (es @ [t]) \<Longrightarrow> t \<noteq> ''..''"
  by (auto simp: clean_elements_def list_all_iff)

lemma clean_stack_elements:
  assumes "clean_elements rooted (rev out)" and "\<forall>e \<in> set es. slash \<notin> set e"
  shows "clean_elements rooted (clean_stack rooted out es)"
  using assms
proof (induction rooted out es rule: clean_stack.induct)
  case (2 rooted out e es)
  consider (skip) "e = [] \<or> e = ''.''" | (up) "e = ''..''" | (el) "plain_element e"
    using 2(6) by (auto simp: plain_element_def)
  then show ?case
  proof cases
    case skip
    then show ?thesis using 2 by auto
  next
    case up
    show ?thesis
    proof (cases out)
      case Nil
      have "clean_elements False [''..'']"
        unfolding clean_elements_def by (rule exI [of _ 1]) auto
      then show ?thesis using 2 up Nil by (cases rooted) auto
    next
      case (Cons t ts)
      then have "clean_elements rooted (rev ts @ [t])" using 2(5) by simp
      then have "clean_elements rooted (rev (if t = ''..'' then ''..'' # out else ts))"
        using clean_elements_pop [of rooted "rev ts" t] clean_elements_dots [of "rev ts"]
          rooted_top [of "rev ts" t] Cons by (cases rooted) auto
      then show ?thesis using 2 up Cons by auto
    qed
  next
    case el
    then have "clean_elements rooted (rev (e # out))" using clean_elements_push 2(5) by simp
    then show ?thesis using 2 el by (auto simp: plain_element_def)
  qed
qed simp

text \<open>Elements that are clean already go through unchanged.\<close>

lemma clean_stack_plain:
  "list_all plain_element ps \<Longrightarrow> clean_stack rooted out ps = rev out @ ps"
  by (induction ps arbitrary: out) (auto simp: plain_element_def)

lemma clean_stack_dots:
  "clean_stack False (replicate m ''..'') (replicate n ''..'' @ ps) =
   clean_stack False (replicate (m + n) ''..'') ps"
proof (induction n arbitrary: m)
  case (Suc n)
  show ?case using Suc [of "Suc m"] by (cases m) simp_all
qed simp

lemma clean_stack_clean:
  assumes "clean_elements rooted es"
  shows "clean_stack rooted [] es = es"
proof -
  obtain n ps where p: "es = replicate n ''..'' @ ps" "list_all plain_element ps"
    "rooted \<longrightarrow> n = 0" using assms by (auto simp: clean_elements_def)
  show ?thesis
  proof (cases rooted)
    case True
    then show ?thesis using p clean_stack_plain by auto
  next
    case False
    then show ?thesis using p clean_stack_dots [of 0 n ps] clean_stack_plain by simp
  qed
qed

lemma split_on_join_with:
  assumes "es \<noteq> []" and "\<forall>e \<in> set es. c \<notin> set e"
  shows "split_on c (join_with [c] es) = es"
  using assms
proof (induction es)
  case (Cons e es)
  have s: "split_on c (e @ c # t) = e # split_on c t" if "c \<notin> set e" for t
    using that by (induction e) auto
  show ?case
  proof (cases es)
    case Nil
    then show ?thesis using Cons.prems by (simp add: split_on_no_sep)
  next
    case (Cons f fs)
    then show ?thesis using Cons.IH Cons.prems s by (simp add: join_with_Cons)
  qed
qed simp

lemma clean_elements_no_slash: "clean_elements rooted es \<Longrightarrow> e \<in> set es \<Longrightarrow> e \<noteq> [] \<and> slash \<notin> set e"
proof -
  assume "clean_elements rooted es" "e \<in> set es"
  then have "e = ''..'' \<or> plain_element e" by (auto simp: clean_elements_def list_all_iff)
  then show "e \<noteq> [] \<and> slash \<notin> set e" by (auto simp: plain_element_def slash_def)
qed

lemma Clean_path_of:
  assumes "clean_elements rooted es"
  shows "Clean (path_of rooted es) = path_of rooted es"
proof -
  have n: "\<forall>e \<in> set es. slash \<notin> set e" using clean_elements_no_slash [OF assms] by blast
  show ?thesis
  proof (cases "es = []")
    case True
    then show ?thesis
      by (cases rooted) (simp_all add: Clean_def path_of_def IsAbs_def has_prefix_def slash_def)
  next
    case False
    then obtain f fs where es: "es = f # fs" by (cases es) auto
    have f: "f \<noteq> []" "slash \<notin> set f" using clean_elements_no_slash [OF assms] es by auto
    then obtain x xs where fx: "f = x # xs" "x \<noteq> slash" by (cases f) auto
    have sp: "split_on slash (join_with [slash] es) = es" using split_on_join_with False n by blast
    show ?thesis
    proof (cases rooted)
      case True
      then have a: "IsAbs (path_of rooted es)" by (simp add: IsAbs_def has_prefix_def path_of_def)
      have "split_on slash (path_of rooted es) = [] # es" using True sp by (simp add: path_of_def)
      then have "clean_stack True [] (split_on slash (path_of rooted es)) = es"
        using clean_stack_clean assms True by simp
      then show ?thesis using a True by (simp add: Clean_def)
    next
      case False
      have "join_with [slash] es = x # join_with [slash] (xs # fs)"
        by (simp add: es fx join_with_cons_char)
      then have a: "\<not> IsAbs (path_of rooted es)"
        using fx(2) False es by (simp add: IsAbs_def has_prefix_def path_of_def)
      have "split_on slash (path_of rooted es) = es" using False es sp by (simp add: path_of_def)
      then have "clean_stack False [] (split_on slash (path_of rooted es)) = es"
        using False clean_stack_clean [of False es] assms by simp
      then show ?thesis using a False by (simp add: Clean_def)
    qed
  qed
qed

lemma Clean_shape: "\<exists>es. clean_elements (IsAbs p) es \<and> Clean p = path_of (IsAbs p) es"
  using clean_stack_elements [of "IsAbs p" "[]" "split_on slash p"] split_on_pieces
  by (auto simp: Clean_def)

lemma Clean_idem [simp]: "Clean (Clean p) = Clean p"
  using Clean_shape [of p] Clean_path_of by metis


section \<open>Dir goes up\<close>

text \<open>The length of a list of elements when each is followed by a slash.\<close>

definition path_len :: "string list \<Rightarrow> nat" where
  "path_len es = sum_list (map (\<lambda>e. Suc (length e)) es)"

lemma path_len_simps [simp]:
  "path_len [] = 0" "path_len (e # es) = Suc (length e) + path_len es"
  "path_len (es @ fs) = path_len es + path_len fs"
  by (simp_all add: path_len_def)

lemma path_len_rev [simp]: "path_len (rev es) = path_len es"
  by (induction es) simp_all

lemma path_len_clean_stack: "path_len (clean_stack rooted out es) \<le> path_len out + path_len es"
proof (induction rooted out es rule: clean_stack.induct)
  case (2 rooted out e es)
  show ?case
  proof (cases "e = [] \<or> e = ''.''")
    case True
    then show ?thesis using 2(1) by fastforce
  next
    case False
    show ?thesis
    proof (cases "e = ''..''")
      case dots: True
      show ?thesis
      proof (cases out)
        case Nil
        then show ?thesis using 2(2) dots by (auto split: if_splits)
      next
        case (Cons t ts)
        then show ?thesis using 2(3) [OF False dots Cons] dots by (auto split: if_splits)
      qed
    next
      case el: False
      then show ?thesis using 2(4) False by auto
    qed
  qed
qed simp

lemma path_len_split: "path_len (split_on c s) = Suc (length s)"
proof (induction s)
  case (Cons x xs)
  then show ?case by (cases "split_on c xs") auto
qed simp

lemma length_join: "es \<noteq> [] \<Longrightarrow> Suc (length (join_with [c] es)) = path_len es"
proof (induction es)
  case (Cons e es)
  then show ?case by (cases "es = []") (simp_all add: join_with_Cons)
qed simp

lemma split_on_snoc: "split_on c (s @ [c]) = split_on c s @ [[]]"
proof (induction s)
  case (Cons x s)
  then show ?case by (cases "split_on c s") auto
qed simp

lemma clean_stack_trailing: "clean_stack rooted out (es @ [[]]) = clean_stack rooted out es"
proof (induction rooted out es rule: clean_stack.induct)
  case (2 rooted out e es)
  then show ?case by (auto split: list.split)
qed simp

lemma Clean_trailing_slash:
  assumes "q \<noteq> []"
  shows "length (Clean (q @ [slash])) < length (q @ [slash])"
proof -
  let ?r = "IsAbs q"
  let ?es = "clean_stack ?r [] (split_on slash q)"
  have a: "IsAbs (q @ [slash]) = ?r" using assms by (cases q) (simp_all add: IsAbs_def has_prefix_def)
  then have c: "Clean (q @ [slash]) = path_of ?r ?es"
    by (simp add: Clean_def split_on_snoc clean_stack_trailing)
  have len: "path_len ?es + (if ?r then 1 else 0) \<le> Suc (length q)"
  proof (cases ?r)
    case True
    then obtain u where q: "q = slash # u" using assms by (cases q) (auto simp: IsAbs_def has_prefix_def)
    have "path_len (clean_stack True [] (split_on slash u)) \<le> Suc (length u)"
      using path_len_clean_stack [of True "[]" "split_on slash u"] by (simp add: path_len_split)
    then show ?thesis using True by (simp add: q)
  next
    case False
    then show ?thesis
      using path_len_clean_stack [of False "[]" "split_on slash q"] by (simp add: path_len_split)
  qed
  show ?thesis
  proof (cases "?es = []")
    case True
    then show ?thesis using assms by (simp add: c path_of_def)
  next
    case False
    then show ?thesis
      using length_join [OF False, of slash] len by (auto simp: c path_of_def split: if_splits)
  qed
qed

lemma up_to_last_slash_cases:
  "up_to_last_slash p = [] \<or> (\<exists>q r. p = q @ slash # r \<and> up_to_last_slash p = q @ [slash])"
proof (cases "dropWhile (\<lambda>c. c \<noteq> slash) (rev p)")
  case Nil
  then show ?thesis by (simp add: up_to_last_slash_def)
next
  case (Cons x xs)
  then have "x = slash" using hd_dropWhile [of "\<lambda>c. c \<noteq> slash" "rev p"] by force
  then have "rev p = takeWhile (\<lambda>c. c \<noteq> slash) (rev p) @ slash # xs"
    using Cons takeWhile_dropWhile_id [of "\<lambda>c. c \<noteq> slash" "rev p"] by metis
  then have "p = rev xs @ slash # rev (takeWhile (\<lambda>c. c \<noteq> slash) (rev p))"
    by (metis rev.simps(2) rev_append rev_rev_ident append.assoc append_Cons append_Nil)
  then show ?thesis using Cons \<open>x = slash\<close> by (auto simp: up_to_last_slash_def)
qed

text \<open>The parent of a path is the path itself, the current directory, or shorter.\<close>

lemma Dir_shorter: "Dir p = p \<or> Dir p = ''.'' \<or> length (Dir p) < length p"
proof -
  consider "up_to_last_slash p = []"
    | q r where "p = q @ slash # r" "up_to_last_slash p = q @ [slash]"
    using up_to_last_slash_cases by blast
  then show ?thesis
  proof cases
    case 1
    then have "Dir p = ''.''" by (simp add: Dir_def Clean_def IsAbs_def has_prefix_def path_of_def)
    then show ?thesis by simp
  next
    case 2
    show ?thesis
    proof (cases "q = []")
      case True
      then have "Dir p = [slash]"
        using 2 by (simp add: Dir_def Clean_def IsAbs_def has_prefix_def path_of_def)
      then show ?thesis using 2 True by (cases r) simp_all
    next
      case False
      then show ?thesis using Clean_trailing_slash [OF False] 2 by (simp add: Dir_def)
    qed
  qed
qed

end
