(* ===== verification/Assembly.thy ===== *)
theory Assembly
  imports Bridge
begin

text \<open>
  One assembly, from start to end: what it does to the buffers on success and on failure,
  which keys it may touch, what a Flush leaves behind, and that one tool call is one record
  whatever order its signals arrive in.
\<close>

section \<open>The exact outcome of an assembly\<close>

lemma fold_ack_inFlight:
  "fold ack_key ks (p\<lparr>inFlight := X\<rparr>) = (fold ack_key ks p)\<lparr>inFlight := X - set ks\<rparr>"
proof (induction ks arbitrary: p X)
  case (Cons k ks)
  have "ack_key k (p\<lparr>inFlight := X\<rparr>) = (ack_key k p)\<lparr>inFlight := X - {k}\<rparr>"
    by (simp add: ack_key_def discardPending_def count_stat_def pending_count_def Let_def)
  then show ?case by (simp add: Cons.IH) (metis Diff_insert Diff_insert2)
qed simp

lemma acknowledge_inFlight:
  "acknowledge a (p\<lparr>inFlight := X\<rparr>) = (acknowledge a p)\<lparr>inFlight := X - set (a_consumedKeys a)\<rparr>"
  by (simp add: acknowledge_def fold_ack_inFlight count_stat_def)

lemma fold_acknowledge_inFlight:
  "fold acknowledge as (p\<lparr>inFlight := X\<rparr>) = (fold acknowledge as p)\<lparr>inFlight := X - consumed as\<rparr>"
proof (induction as arbitrary: p X)
  case (Cons a as)
  then show ?case by (simp add: acknowledge_inFlight Diff_eq Int_assoc)
qed simp

lemma emit_all_exact:
  assumes "emit_all sink out (s, p) = (r, s', p')" and "pendingFirstSeen p = fmempty"
  shows "p'\<lparr>inFlight := {}\<rparr> =
    ((if r = None then (\<lambda>q. q) else write_failed) (fold acknowledge (accepted sink out (s, p)) p))
      \<lparr>inFlight := {}\<rparr>"
  using assms
proof (induction out arbitrary: s p)
  case (Cons a out)
  show ?case
  proof (cases "a_key a \<in> emitted p")
    case True
    then show ?thesis using Cons by (simp add: emit_def)
  next
    case False
    obtain res s1 where w: "sink_call sink s (a_ex a) = (res, s1)" by fastforce
    show ?thesis
    proof (cases res)
      case None
      have "pendingFirstSeen (acknowledge a p) = fmempty"
        using pending_fold_ack [OF Cons.prems(2)] by (simp add: acknowledge_def)
      then show ?thesis
        using Cons.IH [of s1 "acknowledge a p"] Cons.prems(1) False w None by (simp add: emit_def)
    next
      case (Some err)
      then show ?thesis
        using Cons.prems False w restoreReserved_nothing [of "write_failed p" "a # out"]
        by (auto simp: emit_def write_failed_def count_stat_def)
    qed
  qed
qed simp

lemma assemble_exact:
  assumes "assemble sink rng cutoff (s, p) = (r, s', p')" and "quiescent p" and "range_order rng"
  shows "p' = (if r = None then (\<lambda>q. q) else write_failed)
    (fold acknowledge (assemble_accepted sink rng cutoff (s, p)) p)"
proof -
  have f: "inFlight p = {}" "inFlight p' = {}"
    using assms(2) assemble_outcome(3) [OF assms] by (simp_all add: quiescent_def)
  obtain out q where c: "claim cutoff rng p = (out, q)" by fastforce
  have ea: "emit_all sink out (s, q) = (r, s', p')"
    using assms(1) c readyKeys_claim [of cutoff p rng]
    by (cases "readyKeys cutoff p = []") (simp_all add: assemble_def)
  obtain X where q: "q = p\<lparr>inFlight := X\<rparr>" using c by (auto simp: claim_snapshot)
  let ?F = "(if r = None then (\<lambda>q. q) else write_failed) :: processor \<Rightarrow> processor"
  let ?A = "accepted sink out (s, q)"
  have w: "?F (u\<lparr>inFlight := Y\<rparr>) = (?F u)\<lparr>inFlight := Y\<rparr>" for u Y
    by (simp add: write_failed_def count_stat_def)
  have "p' = p'\<lparr>inFlight := {}\<rparr>" using f(2) by simp
  also have "\<dots> = (?F (fold acknowledge ?A q))\<lparr>inFlight := {}\<rparr>"
    using emit_all_exact [OF ea] quiescent_pending [OF assms(2)] by (simp add: q)
  also have "\<dots> = ?F (fold acknowledge ?A (p\<lparr>inFlight := {}\<rparr>))"
    by (simp add: q fold_acknowledge_inFlight w)
  also have "p\<lparr>inFlight := {}\<rparr> = p" using f(1) by simp
  finally show ?thesis by (simp add: assemble_accepted_def c)
qed


lemma reachable_quiescent:
  assumes "reachable fl sink wait s0 x" and "phase x = Idle"
  shows "quiescent (proc x)"
  using reachable_inv [OF assms(1)] assms(2)
  by (auto simp: quiescent_def sys_inv_def batch_inv_def)

section \<open>Trying again\<close>

text \<open>Counting a failed write touches nothing that an assembly reads.\<close>

lemma write_failed_simps [simp]:
  "spans (write_failed p) = spans p" "logs (write_failed p) = logs p"
  "firstSeen (write_failed p) = firstSeen p" "emitted (write_failed p) = emitted p"
  "inFlight (write_failed p) = inFlight p"
  "pendingFirstSeen (write_failed p) = pendingFirstSeen p"
  by (simp_all add: write_failed_def)

lemma snapshot_write_failed: "snapshot cutoff rng (write_failed p) = snapshot cutoff rng p"
proof -
  have "assembleKey k (write_failed p) = assembleKey k p" for k
    unfolding assembleKey_def mergeParent_def write_failed_simps ..
  moreover have "childOf rng (write_failed p) = childOf rng p"
    unfolding childOf_def write_failed_simps ..
  moreover have "readyKeys cutoff (write_failed p) = readyKeys cutoff p"
    unfolding readyKeys_def write_failed_simps ..
  ultimately show ?thesis by (simp add: snapshot_def Let_def cong: if_cong)
qed

lemma ack_key_write_failed: "ack_key k (write_failed p) = write_failed (ack_key k p)"
  by (simp add: ack_key_def write_failed_def count_stat_def discardPending_def pending_count_def Let_def)

lemma acknowledge_write_failed: "acknowledge a (write_failed p) = write_failed (acknowledge a p)"
proof -
  have "fold ack_key ks (write_failed p) = write_failed (fold ack_key ks p)" for ks
    by (induction ks arbitrary: p) (simp_all add: ack_key_write_failed)
  then show ?thesis
    by (simp add: acknowledge_def write_failed_def count_stat_def record_emitted_def Let_def
        split: correlation.split)
qed

lemma emit_all_write_failed:
  assumes "emitted p = emitted q"
  shows "fst (emit_all sink out (s, p)) = fst (emit_all sink out (s, q))
    \<and> fst (snd (emit_all sink out (s, p))) = fst (snd (emit_all sink out (s, q)))
    \<and> accepted sink out (s, p) = accepted sink out (s, q)"
  using assms
proof (induction out arbitrary: s p q)
  case (Cons a out)
  have e: "emitted (acknowledge a p) = emitted (acknowledge a q)" using Cons.prems by simp
  show ?case
    using Cons.IH [OF Cons.prems, of s] Cons.IH [OF e] Cons.prems
    by (auto simp: emit_def split: prod.split option.split)
qed simp


lemma assemble_retry:
  assumes "assemble sink rng cutoff (s, p) = (r, s', p')" and "quiescent p" and "range_order rng"
  shows "assemble sink rng cutoff (s, write_failed p) = (r, s', write_failed p')"
proof -
  have q: "quiescent (write_failed p)"
    using assms(2) by (simp add: quiescent_def write_failed_def)
  let ?out = "snapshot cutoff rng p"
  let ?I = "\<lambda>q. q\<lparr>inFlight := inFlight q \<union> set (concat (map a_consumedKeys ?out))\<rparr>"
  have run: "assemble sink rng cutoff (s, v) = emit_all sink ?out (s, ?I v)"
    if "readyKeys cutoff v = readyKeys cutoff p" "snapshot cutoff rng v = ?out" for v
    using that
    by (cases "readyKeys cutoff p = []")
      (auto simp: assemble_def claim_snapshot snapshot_def List.map_filter_simps Let_def)
  have k: "readyKeys cutoff (write_failed p) = readyKeys cutoff p"
    unfolding readyKeys_def write_failed_simps ..
  note e = emit_all_write_failed [of "?I (write_failed p)" "?I p" sink ?out s]
  obtain r2 s2 p2 where o: "assemble sink rng cutoff (s, write_failed p) = (r2, s2, p2)"
    by (metis prod_cases3)
  then have rs: "r2 = r" "s2 = s'"
    using e assms(1) run [OF refl refl] run [OF k snapshot_write_failed] by auto
  have acc: "assemble_accepted sink rng cutoff (s, write_failed p)
      = assemble_accepted sink rng cutoff (s, p)"
    using e by (simp add: assemble_accepted_def claim_snapshot snapshot_write_failed)
  have fw: "fold acknowledge as (write_failed u) = write_failed (fold acknowledge as u)" for as u
    by (induction as arbitrary: u) (simp_all add: acknowledge_write_failed)
  show ?thesis
    using o rs acc fw assemble_exact [OF o q assms(3)] assemble_exact [OF assms]
    by (auto split: if_splits)
qed


section \<open>One tool call\<close>

text \<open>Three signals that arrive one per request, in an order the gateway does not fix.\<close>

lemma mset_three:
  assumes "mset cs = {#x, y, z#}"
  shows "cs = [x, y, z] \<or> cs = [x, z, y] \<or> cs = [y, x, z] \<or> cs = [y, z, x] \<or> cs = [z, x, y]
    \<or> cs = [z, y, x]"
proof -
  have "length cs = 3" using arg_cong [OF assms, of size] by simp
  then obtain a b c where cs: "cs = [a, b, c]" by (auto simp: numeral_3_eq_3 length_Suc_conv)
  with assms show ?thesis by (auto simp: add_eq_conv_ex)
qed

text \<open>
  The clock readings of a call, and readings that are at most the merge wait apart, so that
  nothing expires between them; without a wait nothing expires at all.
\<close>

definition readings :: "(nat \<Rightarrow> int) list \<Rightarrow> int set" where
  "readings ns = (\<Union>n \<in> set ns. {n 0, n 1})"

definition within_wait :: "int \<Rightarrow> int set \<Rightarrow> bool" where
  "within_wait wait T \<longleftrightarrow> wait \<le> 0 \<or> (\<forall>x \<in> T. \<forall>y \<in> T. x - y \<le> wait)"

text \<open>
  A processor that has not assembled yet, whose keys were first seen at times in \<open>T\<close>; \<open>f\<close> is its
  stamp, which writes the observer onto a record.
\<close>

definition receives :: "(execution \<Rightarrow> execution) \<Rightarrow> int set \<Rightarrow> processor \<Rightarrow> bool" where
  "receives f T p \<longleftrightarrow> within_wait (maxWait p) T \<and> stamp p = f \<and> inFlight p = {} \<and>
     pendingFirstSeen p = fmempty \<and> emitted p = {} \<and>
     (\<forall>k t. fmlookup (firstSeen p) k = Some t \<longrightarrow> t \<in> T)"

lemma stamp_frame [simp]:
  "stamp (p\<lparr>spans := m\<rparr>) = stamp p" "stamp (p\<lparr>logs := m\<rparr>) = stamp p"
  "stamp (p\<lparr>firstSeen := t\<rparr>) = stamp p" "stamp (p\<lparr>stats := st\<rparr>) = stamp p"
  by (simp_all add: stamp_def fun_eq_iff)

lemma stamp_fields [simp]:
  "TraceID (stamp p ex) = TraceID ex" "SpanID (stamp p ex) = SpanID ex"
  "ParentSpanID (stamp p ex) = ParentSpanID ex" "SpanKind (stamp p ex) = SpanKind ex"
  by (simp_all add: stamp_def)

lemma stamp_parent [simp]:
  "names_parent (stamp p ex) = names_parent ex" "parent_key (stamp p ex) = parent_key ex"
  by (simp_all add: names_parent_def parent_key_def)

text \<open>The processor as \<open>main\<close> sets it up, with an observer or, when \<open>i\<close> is empty, without.\<close>

definition start_processor :: "int \<Rightarrow> string \<Rightarrow> string \<Rightarrow> processor" where
  "start_processor wait i v = SetObserver i v (NewProcessor wait)"

lemma reachable_started:
  assumes "run_calls fl sink cs (s0, start_processor wait i v) = (s, p)"
    and "\<forall>c \<in> set cs. range_order (call_order c)"
  shows "\<exists>wr. reachable fl sink wait s0 (sys_of p Idle s {#} wr)"
proof -
  have "step fl sink (init_sys wait s0)
      ((init_sys wait s0)\<lparr>proc := SetObserver i v (proc (init_sys wait s0))\<rparr>)"
    by (rule step.set_observer)
  from reachable.more [OF reachable.start this] have
    "reachable fl sink wait s0 (sys_of (start_processor wait i v) Idle s0 {#} [])"
    by (simp add: init_sys_def sys_of_def start_processor_def)
  moreover obtain w where
    "(step fl sink)\<^sup>*\<^sup>* (sys_of (start_processor wait i v) Idle s0 {#} []) (sys_of p Idle s {#} ([] @ w))"
    using run_calls_steps [OF assms] by blast
  ultimately show ?thesis by (blast intro: reachable_steps)
qed

lemma start_processor_plain: "start_processor wait [] [] = NewProcessor wait"
  by (simp add: start_processor_def SetObserver_def NewProcessor_def)

lemma receives_new:
  "within_wait wait T \<Longrightarrow> receives (stamp (start_processor wait i v)) T (start_processor wait i v)"
  by (simp add: receives_def start_processor_def SetObserver_def NewProcessor_def)

text \<open>Within the wait nothing is assembled on receipt.\<close>

lemma nothing_expires:
  assumes "receives f T p" and "now \<in> T"
  shows "assembleExpired sink rng now (s, p) = (None, s, p)"
proof (cases "maxWait p \<le> 0")
  case False
  have "\<not> is_ready (Some (now - maxWait p)) p k" for k
  proof
    assume "is_ready (Some (now - maxWait p)) p k"
    then obtain t where "fmlookup (firstSeen p) k = Some t" "t < now - maxWait p"
      by (auto simp: is_ready_def split: option.splits)
    with assms False show False by (fastforce simp: receives_def within_wait_def)
  qed
  then have "readyKeys (Some (now - maxWait p)) p = []"
    using set_readyKeys [of "Some (now - maxWait p)" p] by simp
  with False show ?thesis by (simp add: assembleExpired_def assemble_def)
qed (simp add: assembleExpired_def)

text \<open>What one request with one signal leaves in the buffers, while nothing is assembled.\<close>

definition took_in_call ::
  "(execution \<Rightarrow> execution) \<Rightarrow> int set \<Rightarrow> processor \<Rightarrow> (string, execution) fmap
     \<Rightarrow> (string, execution) fmap \<Rightarrow> string set \<Rightarrow> bool" where
  "took_in_call f T p sp lg ks \<longleftrightarrow>
     receives f T p \<and> spans p = sp \<and> logs p = lg \<and> fmdom' (firstSeen p) = ks"

lemma receive_log:
  assumes "took_in_call f T p sp lg ks" and "FromLogRecord fl r = Some ex"
    and "JoinKey (TraceID ex) (SpanID ex) = key" and "key \<noteq> []" and "now 0 \<in> T" and "now 1 \<in> T"
  shows "\<exists>q. run_call fl sink (CallLogs rng now [r]) (s, p) = (None, s, q) \<and>
    took_in_call f T q sp (put_merged key (f ex) lg) (insert key ks)"
proof -
  let ?q = "consume_logs fl now [r] p"
  have "took_in_call f T ?q sp (put_merged key (f ex) lg) (insert key ks)"
    using assms(1-5)
    by (auto simp: took_in_call_def receives_def take_signal_def buffer_def Let_def hasPending_def
        count_stat_def put_first_def in_fmdom'_iff split: option.split if_splits)
  moreover from this have "assembleExpired sink rng (now 1) (s, ?q) = (None, s, ?q)"
    using assms(6) by (intro nothing_expires) (auto simp: took_in_call_def)
  ultimately show ?thesis by (simp add: ConsumeLogRecords_def)
qed

lemma receive_span:
  assumes "took_in_call f T p sp lg ks" and "FromSpan fl r = Some ex"
    and "JoinKey (TraceID ex) (SpanID ex) = key" and "key \<noteq> []" and "now 0 \<in> T" and "now 1 \<in> T"
  shows "\<exists>q. run_call fl sink (CallSpans rng now [r]) (s, p) = (None, s, q) \<and>
    took_in_call f T q (put_merged key (f ex) sp) lg (insert key ks)"
proof -
  let ?q = "consume_spans fl now [r] p"
  have "took_in_call f T ?q (put_merged key (f ex) sp) lg (insert key ks)"
    using assms(1-5)
    by (auto simp: took_in_call_def receives_def take_signal_def buffer_def Let_def hasPending_def
        count_stat_def put_first_def in_fmdom'_iff SignalLogs_def SignalTraces_def
        split: option.split if_splits)
  moreover from this have "assembleExpired sink rng (now 1) (s, ?q) = (None, s, ?q)"
    using assms(6) by (intro nothing_expires) (auto simp: took_in_call_def)
  ultimately show ?thesis by (simp add: ConsumeSpans_def)
qed

lemma three_arrivals:
  assumes "FromLogRecord fl rl = Some l" "FromSpan fl rc = Some c" "FromSpan fl rv = Some v"
    and k: "JoinKey (TraceID l) (SpanID l) = kp" "JoinKey (TraceID c) (SpanID c) = kc"
      "JoinKey (TraceID v) (SpanID v) = kp" "kc \<noteq> kp" "kc \<noteq> []" "kp \<noteq> []"
    and cs: "mset cs = {#CallLogs rng n1 [rl], CallSpans rng n2 [rc], CallSpans rng n3 [rv]#}"
    and T: "T = readings [n1, n2, n3]"
    and "receives f T p" "spans p = fmempty" "logs p = fmempty" "firstSeen p = fmempty"
    and run: "run_calls fl sink cs (s, p) = (s1, p1)"
  shows "s1 = s \<and> took_in_call f T p1 (fmupd kc (f c) (fmupd kp (f v) fmempty)) (fmupd kp (f l) fmempty) {kc, kp}"
proof -
  let ?L = "CallLogs rng n1 [rl]" and ?C = "CallSpans rng n2 [rc]" and ?V = "CallSpans rng n3 [rv]"
  have r0: "took_in_call f T p fmempty fmempty {}" using assms(12-15) by (simp add: took_in_call_def)
  have t: "n1 0 \<in> T" "n1 1 \<in> T" "n2 0 \<in> T" "n2 1 \<in> T" "n3 0 \<in> T" "n3 1 \<in> T"
    by (simp_all add: T readings_def)
  have L: "\<exists>q'. run_calls fl sink cs (s, q') = (s1, p1) \<and>
      took_in_call f T q' sp (put_merged kp (f l) lg) (insert kp ks)"
    if "run_calls fl sink (?L # cs) (s, q) = (s1, p1)" "took_in_call f T q sp lg ks" for cs q sp lg ks
    using receive_log [OF that(2) assms(1) k(1) k(6) t(1,2), of sink rng s] that(1) by auto
  have C: "\<exists>q'. run_calls fl sink cs (s, q') = (s1, p1) \<and>
      took_in_call f T q' (put_merged kc (f c) sp) lg (insert kc ks)"
    if "run_calls fl sink (?C # cs) (s, q) = (s1, p1)" "took_in_call f T q sp lg ks" for cs q sp lg ks
    using receive_span [OF that(2) assms(2) k(2) k(5) t(3,4), of sink rng s] that(1) by auto
  have V: "\<exists>q'. run_calls fl sink cs (s, q') = (s1, p1) \<and>
      took_in_call f T q' (put_merged kp (f v) sp) lg (insert kp ks)"
    if "run_calls fl sink (?V # cs) (s, q) = (s1, p1)" "took_in_call f T q sp lg ks" for cs q sp lg ks
    using receive_span [OF that(2) assms(3) k(3) k(6) t(5,6), of sink rng s] that(1) by auto
  have "run_calls fl sink [] (s, q) = (s1, p1) \<Longrightarrow> s1 = s \<and> p1 = q" for q by simp
  moreover have "fmupd kp (f v) (fmupd kc (f c) fmempty) = fmupd kc (f c) (fmupd kp (f v) fmempty)"
    using k(4) by (simp add: fmupd_reorder_neq)
  moreover have "\<exists>q. run_calls fl sink [] (s, q) = (s1, p1) \<and>
      (\<exists>sp. took_in_call f T q sp (put_merged kp (f l) fmempty) {kc, kp} \<and>
        (sp = put_merged kc (f c) (put_merged kp (f v) fmempty) \<or>
         sp = put_merged kp (f v) (put_merged kc (f c) fmempty)))"
    using mset_three [OF cs] run r0
    by (elim disjE) (fastforce dest!: L C V simp del: run_calls.simps simp: insert_commute)+
  ultimately show ?thesis using k(4) by (fastforce simp: put_merged_def)
qed


definition one_call_record ::
  "string \<Rightarrow> string \<Rightarrow> execution \<Rightarrow> execution \<Rightarrow> execution \<Rightarrow> assembled" where
  "one_call_record kc kp c v l =
     \<lparr>a_key = kc, a_consumedKeys = [kc, kp], a_ex = merge (merge c v) l, a_both = False,
      a_loggy = False, a_parentsSuppressed = 1\<rparr>"

lemma one_call_snapshot:
  assumes "took_in_call f T p (fmupd kc c (fmupd kp v fmempty)) (fmupd kp l fmempty) {kc, kp}"
    and "names_parent c" "parent_key c = kp" "\<not> names_parent v" "kc \<noteq> kp" and "range_order rng"
  shows "snapshot None rng p = [one_call_record kc kp c v l]"
proof -
  have p: "spans p = fmupd kc c (fmupd kp v fmempty)" "logs p = fmupd kp l fmempty"
    and f: "fmdom' (firstSeen p) = {kc, kp}" using assms(1) by (simp_all add: took_in_call_def)
  have cl: "claims_parent p d k \<longleftrightarrow> d = kc \<and> k = kp" for d k
    using assms(2-5) by (auto simp: claims_parent_def p)
  have sup: "suppressed (childOf rng p) kp" "\<not> suppressed (childOf rng p) kc"
    using claimed_suppressed [OF assms(6), of p kc kp] suppressed_claimed [of rng p kc] assms(5)
    by (auto simp: cl)
  have a: "assembleKey kc p = Some (one_call_record kc kp c v l)"
    using assms(2,3,5) by (simp add: assembleKey_def p mergeParent_def one_call_record_def Let_def)
  have "map a_key (snapshot None rng p) = [kc]"
  proof (rule sorted_distinct_set_unique)
    show "set (map a_key (snapshot None rng p)) = set [kc]"
      unfolding snapshot_keys set_filter set_readyKeys using sup a f by (auto simp: is_ready_Flush)
  qed (simp_all add: snapshot_sorted)
  then obtain b where b: "snapshot None rng p = [b]" "a_key b = kc" by auto
  then have "assembleKey kc p = Some b"
    using in_snapshot [of b None rng p] assembleKey_consumed(1) by fastforce
  with a b(1) show ?thesis by simp
qed

lemma one_call_outcome:
  assumes "FromLogRecord fl rl = Some l" "FromSpan fl rc = Some c" "FromSpan fl rv = Some v"
    and "JoinKey (TraceID l) (SpanID l) = kp" "JoinKey (TraceID c) (SpanID c) = kc"
      "JoinKey (TraceID v) (SpanID v) = kp" "kc \<noteq> kp" "kc \<noteq> []" "kp \<noteq> []"
    and "names_parent c" "parent_key c = kp" "\<not> names_parent v"
    and "within_wait wait (readings [n1, n2, n3])" "range_order rng"
    and "mset cs = {#CallLogs rng n1 [rl], CallSpans rng n2 [rc], CallSpans rng n3 [rv]#}"
    and "run_calls fl sink cs (s, start_processor wait i ver) = (s1, p1)"
    and st: "f = stamp (start_processor wait i ver)"
    and "sink_call sink s (merge (merge (f c) (f v)) (f l)) = (res, s2)"
    and "Flush sink rng (s1, p1) = (r, s', p')"
  shows "s1 = s \<and> r = res \<and> s' = s2
    \<and> (if res = None then emitted p' = {kc, kp} \<and> fmdom' (firstSeen p') = {}
       else emitted p' = {} \<and> fmdom' (firstSeen p') = {kc, kp})"
proof -
  have s1: "s1 = s"
    and p1: "took_in_call f (readings [n1, n2, n3]) p1 (fmupd kc (f c) (fmupd kp (f v) fmempty)) (fmupd kp (f l) fmempty) {kc, kp}"
    using three_arrivals [OF assms(1-9,15) refl receives_new [OF assms(13)] _ _ _ assms(16)]
    by (simp_all add: start_processor_def SetObserver_def NewProcessor_def st)
  have np: "names_parent (f c)" "parent_key (f c) = kp" "\<not> names_parent (f v)"
    using assms(10-12) by (simp_all add: st)
  note sn = one_call_snapshot [OF p1 np assms(7,14)]
  have q: "fmdom' (firstSeen p1) = {kc, kp}" "emitted p1 = {}" "pendingFirstSeen p1 = fmempty"
    using p1 by (simp_all add: took_in_call_def receives_def)
  then have ready: "readyKeys None p1 \<noteq> []"
    by (metis insert_not_empty set_readyKeys list.set(1) is_ready_Flush Collect_mem_eq empty_Collect_eq insertI1)
  let ?a = "one_call_record kc kp (f c) (f v) (f l)" and ?q = "p1\<lparr>inFlight := inFlight p1 \<union> {kc, kp}\<rparr>"
  have F: "(r, s', p') = emit_all sink [?a] (s, ?q)"
    using assms(19) ready s1
    by (simp add: Flush_def assemble_def claim_snapshot sn) (simp add: one_call_record_def)
  show ?thesis
  proof (cases res)
    case None
    then have "(r, s', p') = (None, s2, acknowledge ?a ?q)"
      using F assms(18) q(2) by (simp add: emit_def one_call_record_def)
    then show ?thesis
      using None s1 q by (auto simp: acknowledge_def one_call_record_def ack_key_def
          discardPending_def Let_def count_stat_def fmdom'_drop)
  next
    case (Some e)
    then have "(r, s', p') = (Some e, s2, restoreReserved [?a] (write_failed ?q))"
      using F assms(18) q(2) by (simp add: emit_def one_call_record_def)
    then show ?thesis
      using Some s1 q restoreReserved_nothing [of "write_failed ?q" "[?a]"] by simp
  qed
qed


text \<open>
  C7. One tool call is one record, in any arrival order. To a bridge that has received nothing
  before, the access-log record, the client span and its parent server span of one call are
  exported in three requests, one after the other in whatever order, with all clock readings
  at most the merge wait apart (or with no wait). They give exactly one write, at the next
  Flush and none before: the client span merged with its parent and then with the log, each
  stamped with the observer. When the sink accepts it, both join keys are final and nothing
  stays buffered; when it fails, Flush returns its error and both keys stay.
\<close>

theorem one_call_one_record:
  assumes "FromLogRecord fl rl = Some l" "FromSpan fl rc = Some c" "FromSpan fl rv = Some v"
    and "JoinKey (TraceID l) (SpanID l) = kp" "JoinKey (TraceID c) (SpanID c) = kc"
      "JoinKey (TraceID v) (SpanID v) = kp" "kc \<noteq> kp" "kc \<noteq> []" "kp \<noteq> []"
    and "names_parent c" "parent_key c = kp" "\<not> names_parent v"
    and "within_wait wait (readings [n1, n2, n3])" "range_order rng"
    and "mset cs = {#CallLogs rng n1 [rl], CallSpans rng n2 [rc], CallSpans rng n3 [rv]#}"
    and "run_calls fl sink cs (s, start_processor wait i ver) = (s1, p1)"
    and st: "f = stamp (start_processor wait i ver)"
    and "sink_call sink s (merge (merge (f c) (f v)) (f l)) = (res, s2)"
    and "Flush sink rng (s1, p1) = (r, s', p')"
  shows "s1 = s \<and> r = res \<and> s' = s2
    \<and> (if res = None then emitted p' = {kc, kp} \<and> fmdom' (firstSeen p') = {}
       else emitted p' = {} \<and> fmdom' (firstSeen p') = {kc, kp})"
  by (rule one_call_outcome [OF assms])

definition one_call_demo :: "call list" where
  "one_call_demo =
     [CallSpans sorted_list_of_fset (\<lambda>_. 0)
        [Some (gatewaySpan [1] [3] [2] SPAN_KIND_CLIENT ''restart'' ''alpha'' STATUS_CODE_UNSET)],
      CallLogs sorted_list_of_fset (\<lambda>_. 0)
        [Some (gatewayLog [1] [2] ''restart'' ''alpha'' opA)],
      CallSpans sorted_list_of_fset (\<lambda>_. 0)
        [Some (gatewaySpan [1] [2] [] SPAN_KIND_SERVER ''restart'' ''alpha'' STATUS_CODE_UNSET)]]"

lemma one_call_keys:
  "JoinKey (TraceID ex_log) (SpanID ex_log) = ''01/02''"
  "JoinKey (TraceID ex_client) (SpanID ex_client) = ''01/03''"
  "JoinKey (TraceID ex_server) (SpanID ex_server) = ''01/02''"
  "names_parent ex_client" "parent_key ex_client = ''01/02''" "\<not> names_parent ex_server"
  by code_simp+

lemma one_call_mset:
  "mset one_call_demo =
     {#CallLogs sorted_list_of_fset (\<lambda>_. 0) [Some (gatewayLog [1] [2] ''restart'' ''alpha'' opA)],
       CallSpans sorted_list_of_fset (\<lambda>_. 0)
         [Some (gatewaySpan [1] [3] [2] SPAN_KIND_CLIENT ''restart'' ''alpha'' STATUS_CODE_UNSET)],
       CallSpans sorted_list_of_fset (\<lambda>_. 0)
         [Some (gatewaySpan [1] [2] [] SPAN_KIND_SERVER ''restart'' ''alpha'' STATUS_CODE_UNSET)]#}"
  by (simp only: one_call_demo_def mset.simps add_mset_commute)

lemma one_call_distinct: "''01/03'' \<noteq> ''01/02''" "''01/03'' \<noteq> []" "''01/02'' \<noteq> []"
  by simp_all

definition demo_stamp :: "execution \<Rightarrow> execution" where
  "demo_stamp = stamp (start_processor 30000000000 ''bridge'' ''1'')"

text \<open>With the wait of 30 seconds that the configuration has by default.\<close>

lemma demo_within: "within_wait 30000000000 (readings [\<lambda>_. 0, \<lambda>_. 0, \<lambda>_. 0])"
  by (simp add: within_wait_def readings_def)

theorem one_call_one_record_witness:
  "\<exists>s1 p1 p'. run_calls plain_floats (Some recordingSink) one_call_demo
        ([], start_processor 30000000000 ''bridge'' ''1'') = (s1, p1)
    \<and> Flush (Some recordingSink) sorted_list_of_fset (s1, p1)
        = (None, [merge (merge (demo_stamp ex_client) (demo_stamp ex_server)) (demo_stamp ex_log)], p')
    \<and> emitted p' = {''01/03'', ''01/02''}"
proof -
  let ?m = "merge (merge (demo_stamp ex_client) (demo_stamp ex_server)) (demo_stamp ex_log)"
  obtain s1 p1 where r: "run_calls plain_floats (Some recordingSink) one_call_demo
      ([], start_processor 30000000000 ''bridge'' ''1'') = (s1, p1)"
    by fastforce
  obtain e s' p' where f: "Flush (Some recordingSink) sorted_list_of_fset (s1, p1) = (e, s', p')"
    by (metis prod_cases3)
  have w: "sink_call (Some recordingSink) [] ?m = (None, [?m])"
    by (simp add: sink_call_def recordingSink_def)
  note o = one_call_one_record [OF samples_Some one_call_keys(1,2,3) one_call_distinct
      one_call_keys(4,5,6) demo_within range_order_sorted one_call_mset r demo_stamp_def w f]
  then have "e = None" "s' = [?m]"
    "emitted p' = {''01/03'', ''01/02''}" by (simp_all only: if_True refl)
  with r f show ?thesis by blast
qed

text \<open>The processor that holds these three signals, and a sink that refuses everything.\<close>

definition one_call_state :: processor where
  "one_call_state =
     snd (run_calls plain_floats (Some recordingSink) one_call_demo ([], NewProcessor 0))"

definition refusingSink :: "(execution list, string) sink_write" where
  "refusingSink ws ex = (Some ''sink: no space left on device'', ws)"

lemma one_call_state_run:
  "run_calls plain_floats (Some recordingSink) one_call_demo ([], NewProcessor 0)
     = (fst (run_calls plain_floats (Some recordingSink) one_call_demo ([], NewProcessor 0)), one_call_state)"
  by (simp add: one_call_state_def)

lemma one_call_state_quiescent: "quiescent one_call_state"
proof -
  have "\<forall>c \<in> set one_call_demo. range_order (call_order c)"
    by (simp add: one_call_demo_def range_order_sorted)
  from reachable_calls [OF one_call_state_run this] obtain wr where
    "reachable plain_floats (Some recordingSink) 0 [] (sys_of one_call_state Idle
       (fst (run_calls plain_floats (Some recordingSink) one_call_demo ([], NewProcessor 0))) {#} wr)" ..
  from reachable_quiescent [OF this] show ?thesis by (simp add: sys_of_def)
qed

lemma one_call_state_snapshot:
  "map (\<lambda>a. (a_key a, a_consumedKeys a)) (snapshot None sorted_list_of_fset one_call_state)
     = [(''01/03'', [''01/03'', ''01/02''])]"
  by code_simp

lemma one_call_state_refused:
  "assemble_accepted (Some refusingSink) sorted_list_of_fset None ([], one_call_state) = []"
  "fst (assemble (Some refusingSink) sorted_list_of_fset None ([], one_call_state))
     = Some ''sink: no space left on device''"
  by code_simp+

section \<open>All or nothing per record\<close>

text \<open>
  C17. An assembly is a sequence of commits. Whatever the sink does, the state after it is
  the state before with exactly the accepted records acknowledged, one after the other, and
  one failure counted when the sink refused a record; every key of a record that was not
  accepted keeps its span, its log and its first time, and nothing stays in flight.
\<close>

theorem assembly_transaction:
  assumes "quiescent p" and "range_order rng" and "assemble sink rng cutoff (s, p) = (r, s', p')"
  shows "p' = (if r = None then (\<lambda>q. q) else write_failed)
      (fold acknowledge (assemble_accepted sink rng cutoff (s, p)) p)
    \<and> (\<forall>k. k \<notin> consumed (assemble_accepted sink rng cutoff (s, p)) \<longrightarrow> keeps p p' k)
    \<and> emitted p' = emitted p \<union> consumed (assemble_accepted sink rng cutoff (s, p))
    \<and> quiescent p'"
  using assemble_exact [OF assms(3,1,2)] assemble_outcome [OF assms(3,1,2)] by blast

theorem assembly_transaction_witness:
  "\<exists>s' p'. assemble (Some refusingSink) sorted_list_of_fset None ([], one_call_state)
      = (Some ''sink: no space left on device'', s', p')
    \<and> p' = write_failed one_call_state \<and> keeps one_call_state p' ''01/03''"
proof -
  obtain s' p' where o: "assemble (Some refusingSink) sorted_list_of_fset None ([], one_call_state)
      = (Some ''sink: no space left on device'', s', p')"
    using one_call_state_refused(2) by (metis prod.collapse)
  from assembly_transaction [OF one_call_state_quiescent range_order_sorted o]
  show ?thesis using o by (simp add: one_call_state_refused(1))
qed

text \<open>
  C25. Retrying costs nothing. When the sink refused the first record, running the assembly
  again gives the result, the writes and the state that it would have given without the
  failure, but for the counter of failed writes.
\<close>

theorem retry_equals_first_try:
  assumes "quiescent p" and "range_order rng"
    and "assemble sink rng cutoff (s, p) = (Some e, s1, p1)"
    and "assemble_accepted sink rng cutoff (s, p) = []"
    and "assemble sink' rng cutoff' (t, p) = (r, t', p')"
  shows "assemble sink' rng cutoff' (t, p1) = (r, t', write_failed p')"
proof -
  have "p1 = write_failed p" using assemble_exact [OF assms(3,1,2)] assms(4) by simp
  then show ?thesis using assemble_retry [OF assms(5,1,2)] by simp
qed


theorem retry_equals_first_try_witness:
  "\<exists>s1 p1 r t' p'. assemble (Some refusingSink) sorted_list_of_fset None ([], one_call_state)
      = (Some ''sink: no space left on device'', s1, p1)
    \<and> assemble (Some recordingSink) sorted_list_of_fset None ([], one_call_state) = (r, t', p')
    \<and> assemble (Some recordingSink) sorted_list_of_fset None ([], p1) = (r, t', write_failed p')"
proof -
  obtain s1 p1 where o: "assemble (Some refusingSink) sorted_list_of_fset None ([], one_call_state)
      = (Some ''sink: no space left on device'', s1, p1)"
    using one_call_state_refused(2) by (metis prod.collapse)
  obtain r t' p' where
    g: "assemble (Some recordingSink) sorted_list_of_fset None ([], one_call_state) = (r, t', p')"
    by (metis prod_cases3)
  from retry_equals_first_try [OF one_call_state_quiescent range_order_sorted o
      one_call_state_refused(1) g] o g
  show ?thesis by blast
qed

end
