(* ===== verification/Sink.thy ===== *)
theory Sink
  imports Json Paths Assembly
begin

text \<open>
  \<open>internal/sink/jsonl.go\<close>: the append-only JSONL sink. The file is its bytes; what the
  operating system answers to each call is an argument (a \<open>write_env\<close> for one \<open>Write\<close>): the
  state of the context at its two checks, the answer of \<open>Stat\<close>, how many bytes the append
  takes and whether it reports an error, and the answer of \<open>Truncate\<close>. As the file
  interfaces document, an append that reports \<open>n\<close> has appended the first \<open>n\<close> bytes, and a
  truncation that succeeds leaves the prefix. Errors keep what the code puts into them.
\<close>

section \<open>State\<close>

datatype io_err = OSErr string | ErrClosed | ErrShortWrite | CtxErr string

type_synonym poison = "io_err \<times> nat \<times> io_err"

datatype sink_err =
    PathRequired
  | CreateDirectory io_err
  | OpenSink io_err
  | WriteCancelled io_err
  | MarshalFailed
  | SinkPoisoned poison
  | StatSink string io_err
  | RolledBack io_err nat
  | CloseSink string io_err

record jsonl =
  jsonl_path :: string
  file_bytes :: string
  closed :: bool
  poisoned :: "poison option"

record write_env =
  ctx_first :: "io_err option"
  ctx_locked :: "io_err option"
  stat_fault :: "io_err option"
  write_count :: nat
  write_fault :: "io_err option"
  truncate_fault :: "io_err option"

record open_env =
  mkdir_fault :: "io_err option"
  open_fault :: "io_err option"
  existing :: string

section \<open>NewJSONL, Write, Close\<close>

definition NewJSONL :: "open_env \<Rightarrow> string \<Rightarrow> sink_err + jsonl" where
  "NewJSONL env path =
     (if path = [] then Inl PathRequired
      else
        let dir = Dir path;
            mkdir = (if dir \<noteq> [] \<and> dir \<noteq> ''.'' then mkdir_fault env else None)
        in (case mkdir of
              Some err \<Rightarrow> Inl (CreateDirectory err)
            | None \<Rightarrow>
                (case open_fault env of
                   Some err \<Rightarrow> Inl (OpenSink err)
                 | None \<Rightarrow>
                     Inr \<lparr>jsonl_path = path, file_bytes = existing env, closed = False,
                          poisoned = None\<rparr>)))"

definition newline :: char where "newline = CHR 0x0A"

text \<open>The append itself, with the rollback of what it left when it failed.\<close>

definition append_line :: "write_env \<Rightarrow> string \<Rightarrow> jsonl \<Rightarrow> sink_err option \<times> jsonl" where
  "append_line env line s =
     (let start = length (file_bytes s);
          n = min (write_count env) (length line);
          s = s\<lparr>file_bytes := file_bytes s @ take n line\<rparr>
      in if write_fault env = None \<and> n = length line then (None, s)
         else
           let writeErr = (case write_fault env of None \<Rightarrow> ErrShortWrite | Some e \<Rightarrow> e)
           in (case truncate_fault env of
                 Some rollbackErr \<Rightarrow>
                   let p = (writeErr, start, rollbackErr)
                   in (Some (SinkPoisoned p), s\<lparr>poisoned := Some p\<rparr>)
               | None \<Rightarrow> (Some (RolledBack writeErr start), s\<lparr>file_bytes := take start (file_bytes s)\<rparr>)))"

definition file_stat :: "write_env \<Rightarrow> jsonl \<Rightarrow> io_err option" where
  "file_stat env s = (if closed s then Some ErrClosed else stat_fault env)"

definition JSONL_Write ::
  "(string \<Rightarrow> string) \<Rightarrow> write_env \<Rightarrow> execution \<Rightarrow> jsonl \<Rightarrow> sink_err option \<times> jsonl" where
  "JSONL_Write quote env ex s =
     (case ctx_first env of
        Some err \<Rightarrow> (Some (WriteCancelled err), s)
      | None \<Rightarrow>
          (case Marshal quote ex of
             None \<Rightarrow> (Some MarshalFailed, s)
           | Some raw \<Rightarrow>
               (case ctx_locked env of
                  Some err \<Rightarrow> (Some (WriteCancelled err), s)
                | None \<Rightarrow>
                    (case poisoned s of
                       Some p \<Rightarrow> (Some (SinkPoisoned p), s)
                     | None \<Rightarrow>
                         (case file_stat env s of
                            Some err \<Rightarrow> (Some (StatSink (jsonl_path s) err), s)
                          | None \<Rightarrow> append_line env (raw @ [newline]) s)))))"

text \<open>Closing a file a second time fails; the file is closed in any case.\<close>

definition JSONL_Close :: "io_err option \<Rightarrow> jsonl \<Rightarrow> sink_err option \<times> jsonl" where
  "JSONL_Close fault s =
     (let answer = (if closed s then Some ErrClosed else fault);
          s = s\<lparr>closed := True\<rparr>
      in (case answer of None \<Rightarrow> (None, s) | Some err \<Rightarrow> (Some (CloseSink (jsonl_path s) err), s)))"

section \<open>The file as a log of lines\<close>

text \<open>The bytes that count: all of them, or those before the append that could not be undone.\<close>

definition committed :: "jsonl \<Rightarrow> string" where
  "committed s = (case poisoned s of None \<Rightarrow> file_bytes s | Some (_, start, _) \<Rightarrow> take start (file_bytes s))"

definition lines :: "string \<Rightarrow> string list" where
  "lines t = butlast (split_on newline t)"

definition terminated :: "string \<Rightarrow> bool" where
  "terminated t \<longleftrightarrow> t = [] \<or> last t = newline"

lemma split_on_sep: "split_on c (a @ c # b) = split_on c a @ split_on c b"
proof (induction a)
  case (Cons x a)
  then show ?case by (cases "split_on c a") (auto simp: split: list.splits)
qed simp

lemma lines_append:
  assumes "terminated t" and "newline \<notin> set line"
  shows "lines (t @ line @ [newline]) = lines t @ [line]"
proof -
  have l: "split_on newline (line @ [newline]) = [line, []]"
    using split_on_sep [of newline line "[]"] split_on_no_sep [OF assms(2)] by simp
  consider "t = []" | u where "t = u @ [newline]"
    using assms(1) by (metis append_butlast_last_id terminated_def)
  then show ?thesis
  proof cases
    case 1
    then show ?thesis using l by (simp add: lines_def)
  next
    case 2
    have "split_on newline (t @ line @ [newline]) = split_on newline u @ [line, []]"
      using split_on_sep [of newline u "line @ [newline]"] l 2 by simp
    moreover have "split_on newline t = split_on newline u @ [[]]"
      using split_on_sep [of newline u "[]"] 2 by simp
    ultimately show ?thesis by (simp add: lines_def butlast_append)
  qed
qed

lemma lines_Nil [simp]: "lines [] = []"
  by (simp add: lines_def)

lemma printable_no_newline: "printable s \<Longrightarrow> newline \<notin> set s"
  by (auto simp: printable_def newline_def byte_def)

text \<open>The state between two calls.\<close>

definition jsonl_inv :: "jsonl \<Rightarrow> bool" where
  "jsonl_inv s \<longleftrightarrow> terminated (committed s) \<and>
     (case poisoned s of None \<Rightarrow> True | Some (_, start, _) \<Rightarrow> start \<le> length (file_bytes s))"

section \<open>Write is a transaction\<close>

lemma append_line_cases:
  assumes "append_line env line s = (r, s')" and "poisoned s = None"
  obtains (ok) "r = None" "s' = s\<lparr>file_bytes := file_bytes s @ line\<rparr>"
  | (undone) err where "r = Some (RolledBack err (length (file_bytes s)))" "s' = s"
  | (poison) n w e where "r = Some (SinkPoisoned (w, length (file_bytes s), e))"
      "s' = s\<lparr>file_bytes := file_bytes s @ take n line, poisoned := Some (w, length (file_bytes s), e)\<rparr>"
proof -
  let ?n = "min (write_count env) (length line)"
  show thesis
  proof (cases "write_fault env = None \<and> ?n = length line")
    case True
    then have "r = None" "s' = s\<lparr>file_bytes := file_bytes s @ take ?n line\<rparr>"
      using assms(1) by (auto simp: append_line_def Let_def)
    then show thesis using True by (intro ok) simp_all
  next
    case False
    show thesis
    proof (cases "truncate_fault env")
      case None
      then show thesis
        using assms(1) False by (intro undone) (auto simp: append_line_def Let_def)
    next
      case (Some e)
      then show thesis
        using assms(1) False by (intro poison) (auto simp: append_line_def Let_def)
    qed
  qed
qed

lemma JSONL_Write_cases:
  assumes "JSONL_Write quote env ex s = (r, s')"
  obtains (same) e where "r = Some e" "s' = s"
  | (appended) raw where "Marshal quote ex = Some raw" "poisoned s = None" "\<not> closed s"
      "append_line env (raw @ [newline]) s = (r, s')"
  using assms
  by (auto simp: JSONL_Write_def file_stat_def split: option.splits if_splits)

lemma JSONL_Write_inv:
  assumes "JSONL_Write quote env ex s = (r, s')" and "jsonl_inv s"
  shows "jsonl_inv s'"
  using assms(1)
proof (cases rule: JSONL_Write_cases)
  case same
  then show ?thesis using assms(2) by simp
next
  case (appended raw)
  from appended(4,2) show ?thesis
    by (cases rule: append_line_cases)
      (use assms(2) appended(2) in \<open>auto simp: jsonl_inv_def committed_def terminated_def\<close>)
qed

lemma JSONL_Write_accepts:
  assumes "JSONL_Write quote env ex s = (None, s')"
  shows "\<exists>line. Marshal quote ex = Some line \<and> file_bytes s' = file_bytes s @ line @ [newline]
    \<and> poisoned s = None \<and> poisoned s' = None"
  using assms
proof (cases rule: JSONL_Write_cases)
  case (appended raw)
  from appended(4,2) show ?thesis by (cases rule: append_line_cases) (use appended in auto)
qed simp

lemma JSONL_Write_rejects:
  assumes "JSONL_Write quote env ex s = (Some e, s')"
  shows "committed s' = committed s \<and> (poisoned s' = poisoned s \<longrightarrow> file_bytes s' = file_bytes s)"
  using assms
proof (cases rule: JSONL_Write_cases)
  case (appended raw)
  from appended(4,2) show ?thesis
    by (cases rule: append_line_cases) (use appended in \<open>auto simp: committed_def\<close>)
qed simp


section \<open>The sink of the processor\<close>

text \<open>The sink with the answers that the calls to come will get.\<close>

type_synonym jsonl_world = "jsonl \<times> (nat \<Rightarrow> write_env)"

definition jsonl_sink :: "(string \<Rightarrow> string) \<Rightarrow> (jsonl_world, sink_err) sink_write" where
  "jsonl_sink quote w ex =
     (case w of (s, env) \<Rightarrow>
        (case JSONL_Write quote (env 0) ex s of (r, s') \<Rightarrow> (r, (s', \<lambda>i. env (Suc i)))))"

definition jsonl_contents :: "jsonl_world \<Rightarrow> string list" where
  "jsonl_contents w = lines (committed (fst w))"

definition jsonl_world_inv :: "jsonl_world \<Rightarrow> bool" where
  "jsonl_world_inv w \<longleftrightarrow> jsonl_inv (fst w)"

lemma jsonl_sink_step:
  assumes "jsonl_sink quote w ex = (r, w')"
  shows "JSONL_Write quote (snd w 0) ex (fst w) = (r, fst w')"
  using assms by (auto simp: jsonl_sink_def split: prod.splits)

lemma jsonl_world_inv_step:
  "jsonl_world_inv w \<Longrightarrow> jsonl_world_inv (snd (jsonl_sink quote w ex))"
  using JSONL_Write_inv [OF jsonl_sink_step [of quote w ex]]
  by (cases "jsonl_sink quote w ex") (simp add: jsonl_world_inv_def)

lemma jsonl_accepts:
  assumes "jsonl_world_inv w" and "jsonl_sink quote w ex = (None, w')"
  shows "\<exists>line. Marshal quote ex = Some line \<and> jsonl_contents w' = jsonl_contents w @ [line]"
proof -
  obtain line where l: "Marshal quote ex = Some line"
    and f: "file_bytes (fst w') = file_bytes (fst w) @ line @ [newline]"
    and p: "poisoned (fst w) = None" "poisoned (fst w') = None"
    using JSONL_Write_accepts [OF jsonl_sink_step [OF assms(2)]] by blast
  have "terminated (file_bytes (fst w))"
    using assms(1) p by (simp add: jsonl_world_inv_def jsonl_inv_def committed_def)
  then show ?thesis
    using l f p lines_append printable_no_newline [OF Marshal_printable [OF l]]
    by (simp add: jsonl_contents_def committed_def)
qed

lemma jsonl_rejects:
  "jsonl_sink quote w ex = (Some e, w') \<Longrightarrow> jsonl_contents w' = jsonl_contents w"
  using JSONL_Write_rejects [OF jsonl_sink_step [of quote w ex]] by (simp add: jsonl_contents_def)

interpretation jsonl: sink_contract "jsonl_sink quote" jsonl_contents "Marshal quote" jsonl_world_inv
  for quote
proof
  show "jsonl_world_inv w \<Longrightarrow> jsonl_world_inv (snd (jsonl_sink quote w ex))" for w ex
    by (rule jsonl_world_inv_step)
  show "jsonl_world_inv w \<Longrightarrow> jsonl_sink quote w ex = (None, w') \<Longrightarrow>
      \<exists>line. Marshal quote ex = Some line \<and> jsonl_contents w' = jsonl_contents w @ [line]" for w ex w'
    by (rule jsonl_accepts)
  show "jsonl_world_inv w \<Longrightarrow> jsonl_sink quote w ex = (Some e, w') \<Longrightarrow>
      jsonl_contents w' = jsonl_contents w" for w ex e w'
    by (rule jsonl_rejects)
qed

section \<open>Properties\<close>

text \<open>
  C27. Write is all or nothing. When it returns nil the file has grown by exactly the record
  and its line end; when it returns an error, either the file is as it was and the sink can
  be used again, or the rollback failed too, the sink is poisoned, and the file is the old
  one followed by a part of the record.
\<close>

theorem write_all_or_nothing:
  assumes "JSONL_Write quote env ex s = (r, s')" and "poisoned s = None"
  shows "case r of
      None \<Rightarrow> \<exists>line. Marshal quote ex = Some line \<and>
        s' = s\<lparr>file_bytes := file_bytes s @ line @ [newline]\<rparr>
    | Some err \<Rightarrow> s' = s \<or>
        (\<exists>line n p. Marshal quote ex = Some line \<and> err = SinkPoisoned p \<and>
          s' = s\<lparr>file_bytes := file_bytes s @ take n (line @ [newline]), poisoned := Some p\<rparr>)"
  using assms(1)
proof (cases rule: JSONL_Write_cases)
  case (appended raw)
  from appended(4,2) show ?thesis
    by (cases rule: append_line_cases) (use appended(1) in auto)
qed simp

text \<open>The operating system that answers well, and one that takes one byte and cannot truncate.\<close>

definition fine_env :: write_env where
  "fine_env = \<lparr>ctx_first = None, ctx_locked = None, stat_fault = None, write_count = 1000000,
     write_fault = None, truncate_fault = None\<rparr>"

definition torn_env :: write_env where
  "torn_env = fine_env\<lparr>write_count := 1, write_fault := Some (OSErr ''no space left''),
     truncate_fault := Some (OSErr ''i/o error'')\<rparr>"

definition new_file :: "string \<Rightarrow> jsonl" where
  "new_file t = \<lparr>jsonl_path = ''o'', file_bytes = t, closed = False, poisoned = None\<rparr>"

lemma sample_line: "\<exists>line. Marshal (\<lambda>s. s) ex_log = Some line \<and> line \<noteq> [] \<and> printable line"
  by (rule Marshal_total) simp

lemma torn_write:
  assumes "Marshal (\<lambda>s. s) ex_log = Some line" and "line \<noteq> []"
  shows "JSONL_Write (\<lambda>s. s) torn_env ex_log (new_file t)
     = (Some (SinkPoisoned (OSErr ''no space left'', length t, OSErr ''i/o error'')),
        (new_file t)\<lparr>file_bytes := t @ [hd line],
          poisoned := Some (OSErr ''no space left'', length t, OSErr ''i/o error'')\<rparr>)"
  using assms
  by (cases line) (simp_all add: JSONL_Write_def torn_env_def fine_env_def new_file_def
      file_stat_def append_line_def Let_def)

theorem write_all_or_nothing_witness:
  "\<exists>r s' line. JSONL_Write (\<lambda>s. s) torn_env ex_log (new_file []) = (r, s') \<and> r \<noteq> None
    \<and> Marshal (\<lambda>s. s) ex_log = Some line \<and> (\<exists>n. file_bytes s' = take n (line @ [newline]))"
proof -
  obtain line where l: "Marshal (\<lambda>s. s) ex_log = Some line" "line \<noteq> []" using sample_line by blast
  note w = torn_write [OF l, of "[]"]
  have "poisoned (new_file []) = None" by (simp add: new_file_def)
  from write_all_or_nothing [OF w this] l(1) w show ?thesis
    by (auto simp: new_file_def)
qed

text \<open>
  A poisoned sink stays poisoned. After an append that could not be undone, every later
  write is refused and the file is not touched again.
\<close>

theorem poisoned_refuses:
  assumes "poisoned s = Some p" and "JSONL_Write quote env ex s = (r, s')"
  shows "r \<noteq> None \<and> s' = s"
  using assms(2) by (cases rule: JSONL_Write_cases) (use assms(1) in auto)

theorem poisoned_refuses_witness:
  "\<exists>r s'. JSONL_Write (\<lambda>s. s) fine_env ex_log
      ((new_file [])\<lparr>poisoned := Some (ErrShortWrite, 0, ErrClosed)\<rparr>) = (r, s') \<and> r \<noteq> None"
proof -
  let ?s = "(new_file [])\<lparr>poisoned := Some (ErrShortWrite, 0, ErrClosed)\<rparr>"
  obtain r s' where w: "JSONL_Write (\<lambda>s. s) fine_env ex_log ?s = (r, s')" by fastforce
  have "poisoned ?s = Some (ErrShortWrite, 0, ErrClosed)" by simp
  from poisoned_refuses [OF this w] w show ?thesis by blast
qed

lemma file_log:
  assumes "NewJSONL oe path = Inr s0" and "terminated (existing oe)"
    and "reachable fl (Some (jsonl_sink quote)) wait (s0, answers) x"
  shows "map Some (lines (committed (fst (sinkst x)))) =
      map Some (lines (existing oe)) @ map (\<lambda>a. Marshal quote (a_ex a)) (written x)
    \<and> (poisoned (fst (sinkst x)) = None \<longrightarrow> file_bytes (fst (sinkst x)) = committed (fst (sinkst x)))"
proof -
  have s0: "file_bytes s0 = existing oe" "poisoned s0 = None"
    using assms(1) by (auto simp: NewJSONL_def Let_def split: if_splits option.splits)
  then have "jsonl_world_inv (s0, answers)"
    using assms(2) by (simp add: jsonl_world_inv_def jsonl_inv_def committed_def)
  note h = jsonl.reachable_holds_written [OF assms(3) this]
  have "map Some (map (\<lambda>a. the (Marshal quote (a_ex a))) (written x)) =
      map (\<lambda>a. Marshal quote (a_ex a)) (written x)"
    using h by (auto simp: jsonl.holds_written_def)
  then show ?thesis
    using h s0 by (simp add: jsonl.holds_written_def jsonl_contents_def committed_def)
qed

text \<open>
  C8. The file is the log of the run. A processor writes through a sink opened on a file
  whose last line is complete; whatever the receivers and the assembler do and whatever the
  operating system answers, the complete lines of the committed part of the file are those it
  had, followed by the encoded records the sink accepted, in order, none of which failed to
  encode; and the committed part is the whole file unless the sink is poisoned.
\<close>

theorem file_is_the_log:
  assumes "NewJSONL oe path = Inr s0" and "terminated (existing oe)"
    and "reachable fl (Some (jsonl_sink quote)) wait (s0, answers) x"
  shows "map Some (lines (committed (fst (sinkst x)))) =
      map Some (lines (existing oe)) @ map (\<lambda>a. Marshal quote (a_ex a)) (written x)
    \<and> (poisoned (fst (sinkst x)) = None \<longrightarrow> file_bytes (fst (sinkst x)) = committed (fst (sinkst x)))"
  by (rule file_log [OF assms])

text \<open>One tool call written through the sink into a new file.\<close>

definition fresh_env :: open_env where
  "fresh_env = \<lparr>mkdir_fault = None, open_fault = None, existing = []\<rparr>"

lemma run_calls_append:
  "run_calls fl sink (cs @ ds) sp = run_calls fl sink ds (run_calls fl sink cs sp)"
  by (induction cs arbitrary: sp) simp_all

definition call_record :: "(execution \<Rightarrow> execution) \<Rightarrow> execution" where
  "call_record f = merge (merge (f ex_client) (f ex_server)) (f ex_log)"

lemma call_record_wf: "exec_wf (call_record (stamp p))"
  by (simp add: call_record_def merge_wf)

lemma fresh_write:
  assumes "Marshal (\<lambda>s. s) ex = Some line" and "length line < n"
  shows "jsonl_sink (\<lambda>s. s) (new_file [], \<lambda>_. fine_env\<lparr>write_count := n\<rparr>) ex =
    (None, (new_file (line @ [newline]), \<lambda>_. fine_env\<lparr>write_count := n\<rparr>))"
  using assms
  by (simp add: jsonl_sink_def JSONL_Write_def fine_env_def new_file_def file_stat_def
      append_line_def Let_def min_absorb2)

text \<open>The call and a Flush, by a processor with an observer, through a sink on \<open>out\<close>.\<close>

lemma one_call_flushed:
  assumes "Marshal (\<lambda>s. s) (call_record (stamp (start_processor wait i v))) = Some line"
    and "length line < n" and "wait \<le> 0"
    and "run_calls plain_floats (Some (jsonl_sink (\<lambda>s. s))) one_call_demo
      ((new_file [], \<lambda>_. fine_env\<lparr>write_count := n\<rparr>), start_processor wait i v) = (w1, p1)"
    and "Flush (Some (jsonl_sink (\<lambda>s. s))) sorted_list_of_fset (w1, p1) = (r, w2, p2)"
  shows "r = None \<and> fst w2 = new_file (line @ [newline]) \<and> emitted p2 = {''01/03'', ''01/02''}"
proof -
  let ?w = "(new_file [], \<lambda>_ :: nat. fine_env\<lparr>write_count := n\<rparr>)"
  let ?f = "stamp (start_processor wait i v)"
  have "sink_call (Some (jsonl_sink (\<lambda>s. s))) ?w (merge (merge (?f ex_client) (?f ex_server)) (?f ex_log)) =
      (None, (new_file (line @ [newline]), \<lambda>_. fine_env\<lparr>write_count := n\<rparr>))"
    using fresh_write [OF assms(1,2)] by (simp add: sink_call_def call_record_def)
  moreover have "within_wait wait T" for T using assms(3) by (simp add: within_wait_def)
  ultimately have "r = None \<and> w2 = (new_file (line @ [newline]), \<lambda>_. fine_env\<lparr>write_count := n\<rparr>)
      \<and> emitted p2 = {''01/03'', ''01/02''}"
    using one_call_outcome [OF samples_Some one_call_keys(1,2,3) one_call_distinct
      one_call_keys(4,5,6) _ range_order_sorted one_call_mset assms(4) refl _ assms(5)] by simp
  then show ?thesis by simp
qed

lemma one_call_in_file:
  assumes "Marshal (\<lambda>s. s) (call_record (stamp (start_processor 0 i v))) = Some line"
    and "length line < n"
  shows "\<exists>x. reachable plain_floats (Some (jsonl_sink (\<lambda>s. s))) 0
      (new_file [], \<lambda>_. fine_env\<lparr>write_count := n\<rparr>) x
    \<and> fst (sinkst x) = new_file (line @ [newline])"
proof -
  let ?w = "(new_file [], \<lambda>_ :: nat. fine_env\<lparr>write_count := n\<rparr>)"
  let ?k = "Some (jsonl_sink (\<lambda>s. s))"
  obtain w1 p1 where
    r: "run_calls plain_floats ?k one_call_demo (?w, start_processor 0 i v) = (w1, p1)"
    by fastforce
  obtain e w2 p2 where f: "Flush ?k sorted_list_of_fset (w1, p1) = (e, w2, p2)"
    by (metis prod_cases3)
  have rc: "run_calls plain_floats ?k (one_call_demo @ [CallFlush sorted_list_of_fset])
      (?w, start_processor 0 i v) = (w2, p2)"
    by (simp add: run_calls_append r f)
  have "\<forall>c \<in> set (one_call_demo @ [CallFlush sorted_list_of_fset]). range_order (call_order c)"
    by (simp add: one_call_demo_def range_order_sorted)
  from reachable_started [OF rc this] obtain wr where
    "reachable plain_floats ?k 0 ?w (sys_of p2 Idle w2 {#} wr)" ..
  moreover have "fst (sinkst (sys_of p2 Idle w2 {#} wr)) = new_file (line @ [newline])"
    using one_call_flushed [OF assms order_refl r f] by (simp add: sys_of_def)
  ultimately show ?thesis by blast
qed

theorem file_is_the_log_witness:
  "\<exists>x line answers s0. NewJSONL fresh_env ''o'' = Inr s0 \<and>
     reachable plain_floats (Some (jsonl_sink (\<lambda>s. s))) 0 (s0, answers) x \<and>
     lines (committed (fst (sinkst x))) = [line] \<and>
     map (\<lambda>a. Marshal (\<lambda>s. s) (a_ex a)) (written x) = [Some line]"
proof -
  obtain line where
    l: "Marshal (\<lambda>s. s) (call_record (stamp (start_processor 0 ''b'' []))) = Some line"
      "printable line" using Marshal_total [OF call_record_wf] by blast
  let ?w = "(new_file [], \<lambda>_ :: nat. fine_env\<lparr>write_count := Suc (length line)\<rparr>)"
  obtain x where x: "reachable plain_floats (Some (jsonl_sink (\<lambda>s. s))) 0 ?w x"
    "fst (sinkst x) = new_file (line @ [newline])"
    using one_call_in_file [OF l(1) lessI] by blast
  have n: "NewJSONL fresh_env ''o'' = Inr (new_file [])"
    by (simp add: NewJSONL_def fresh_env_def new_file_def Let_def)
  have e: "terminated (existing fresh_env)" by (simp add: fresh_env_def terminated_def)
  have c: "lines (committed (fst (sinkst x))) = [line]"
    using x(2) lines_append [of "[]" line] printable_no_newline [OF l(2)]
    by (simp add: committed_def new_file_def terminated_def)
  with file_is_the_log [OF n e x(1)] have
    "map (\<lambda>a. Marshal (\<lambda>s. s) (a_ex a)) (written x) = [Some line]"
    by (simp add: fresh_env_def)
  then show ?thesis by (intro exI conjI) (rule n, rule x(1), rule c)
qed

section \<open>Reopening a torn file\<close>

text \<open>
  \<open>NewJSONL\<close> does not look at the end of the file it opens. When an earlier process left a
  part of a record behind, the first record of the next process is glued to it: the write
  succeeds, and no line of the file is the record.
\<close>

lemma reopen_torn_file:
  assumes "Marshal (\<lambda>s. s) ex_log = Some line" and "line \<noteq> []" and "length line < 1000000"
    and "newline \<notin> set line"
  shows "JSONL_Write (\<lambda>s. s) fine_env ex_log (new_file [hd line])
      = (None, new_file (hd line # line @ [newline]))"
    and "lines (hd line # line @ [newline]) = [hd line # line]"
proof -
  show "JSONL_Write (\<lambda>s. s) fine_env ex_log (new_file [hd line])
      = (None, new_file (hd line # line @ [newline]))"
    using assms(1,3)
    by (simp add: JSONL_Write_def fine_env_def new_file_def file_stat_def append_line_def Let_def
        min_absorb2)
  have "newline \<notin> set (hd line # line)" using assms(2,4) by (cases line) auto
  then show "lines (hd line # line @ [newline]) = [hd line # line]"
    using lines_append [of "[]" "hd line # line"] by (simp add: terminated_def)
qed

end
