(* ===== verification/Expiry.thy ===== *)
theory Expiry
  imports Assembly
begin

text \<open>
  What \<open>Flush\<close> and the expiry of the merge wait take out of the buffers, and the two shapes
  of trace for which they do not take what the comments of the code promise.
\<close>

section \<open>Which keys an assembly takes\<close>

lemma accepted_subset: "set (accepted sink out (s, p)) \<subseteq> set out"
proof (induction out arbitrary: s p)
  case (Cons a out)
  then show ?case by (auto split: prod.splits option.splits dest: subsetD [OF Cons.IH])
qed simp

lemma assemble_accepted_subset:
  "set (assemble_accepted sink rng cutoff (s, p)) \<subseteq> set (snapshot cutoff rng p)"
  using accepted_subset by (simp add: assemble_accepted_def claim_snapshot)

lemma accepted_ready:
  assumes "proc_inv p" and "k \<in> consumed (assemble_accepted sink rng cutoff (s, p))"
  shows "\<exists>c. is_ready cutoff p c \<and> (k = c \<or> claims_parent p c k)"
proof -
  obtain a where a: "a \<in> set (snapshot cutoff rng p)" "k \<in> set (a_consumedKeys a)"
    using assms(2) subsetD [OF assemble_accepted_subset] by (fastforce simp: consumed_def)
  then obtain c where "is_ready cutoff p c" "assembleKey c p = Some a" by (auto simp: in_snapshot)
  moreover have "a_key a = c" using assembleKey_consumed(1) calculation by blast
  ultimately show ?thesis using snapshot_members(5) [OF assms(1) a(1)] a(2) by blast
qed

lemma accepted_buffered:
  assumes "proc_inv p"
  shows "consumed (assemble_accepted sink rng cutoff (s, p)) \<subseteq> fmdom' (firstSeen p)"
proof -
  have "set (a_consumedKeys a) \<subseteq> fmdom' (firstSeen p)"
    if "a \<in> set (assemble_accepted sink rng cutoff (s, p))" for a
    by (rule snapshot_members(3) [OF assms subsetD [OF assemble_accepted_subset that]])
  then show ?thesis by (auto simp: consumed_def)
qed

section \<open>Flush\<close>

lemma claims_parent_spans: "claims_parent p c k \<Longrightarrow> c \<in> fmdom' (spans p)"
  by (auto simp: claims_parent_def in_fmdom'_iff)

text \<open>The test of \<^const>\<open>one_level\<close> on a concrete processor.\<close>

definition claimed_by :: "processor \<Rightarrow> string \<Rightarrow> string option" where
  "claimed_by p c =
     (case fmlookup (spans p) c of
        Some sp \<Rightarrow> if names_parent sp then Some (parent_key sp) else None | None \<Rightarrow> None)"

lemma claims_parent_claimed_by: "claims_parent p c k \<longleftrightarrow> claimed_by p c = Some k"
  by (auto simp: claims_parent_def claimed_by_def split: option.splits)

lemma one_level_check:
  assumes "list_all (\<lambda>c. case claimed_by p c of None \<Rightarrow> True
      | Some k \<Rightarrow> list_all (\<lambda>d. claimed_by p d = Some c \<longrightarrow> d = c) ks) ks"
    and "fmdom' (spans p) \<subseteq> set ks"
  shows "one_level p"
  unfolding one_level_def
proof (intro allI impI)
  fix c d k
  assume c: "claims_parent p c k" "claims_parent p d c"
  then have "c \<in> set ks" "d \<in> set ks" using claims_parent_spans assms(2) by blast+
  with assms(1) c show "d = c" by (fastforce simp: list_all_iff claims_parent_claimed_by)
qed

lemma spans_sorted_keys: "fmdom' (spans p) \<subseteq> set (sorted_keys (spans p))"
  by simp

lemma flush_nil_complete:
  assumes "quiescent p" and "one_level p" and "range_order rng"
    and "Flush sink rng (s, p) = (None, s', p')"
  shows "firstSeen p' = fmempty \<and> spans p' = fmempty \<and> logs p' = fmempty
    \<and> emitted p' = emitted p \<union> fmdom' (firstSeen p)
    \<and> StillBuffered (ProcessorStats p') = 0"
proof -
  note fl = Flush_leaves [OF assms(4,1,3)]
  have as: "assemble sink rng None (s, p) = (None, s', p')" using assms(4) by (simp add: Flush_def)
  have none: "k \<notin> fmdom' (firstSeen p')" for k
    using fl [of k] one_level_leaves_nothing [OF assms(2), of rng k] by blast
  then have f: "fmdom' (firstSeen p') = {}" by blast
  have q: "quiescent p'" using assemble_outcome(3) [OF as assms(1,3)] .
  then have i: "proc_inv p'" by (simp add: quiescent_def)
  have sl: "fmdom' (spans p') = {}" "fmdom' (logs p') = {}" using proc_invD(3) [OF i] f by auto
  have "k \<in> emitted p'" if "k \<in> fmdom' (firstSeen p)" for k
  proof (rule ccontr)
    assume "k \<notin> emitted p'"
    then have "keeps p p' k"
      using assemble_outcome(1,2) [OF as assms(1,3)] by blast
    with that none [of k] show False by (simp add: keeps_def in_fmdom'_iff)
  qed
  then have e: "emitted p' = emitted p \<union> fmdom' (firstSeen p)"
    using assemble_outcome(1) [OF as assms(1,3)] accepted_buffered [of p sink rng None s] assms(1)
    by (auto simp: quiescent_def)
  have "StillBuffered (ProcessorStats p') = 0" using StillBuffered_eq [OF i] f by simp
  with f sl e show ?thesis by (simp add: fmdom'_eq_empty)
qed


text \<open>
  Flush is complete. When no claimed client span is itself a parent of another one, a
  Flush that reports success has made every key that was buffered final, and nothing is left
  buffered.
\<close>

theorem flush_complete:
  assumes "quiescent p" and "one_level p" and "range_order rng"
    and "Flush sink rng (s, p) = (None, s', p')"
  shows "firstSeen p' = fmempty \<and> spans p' = fmempty \<and> logs p' = fmempty
    \<and> emitted p' = emitted p \<union> fmdom' (firstSeen p)
    \<and> StillBuffered (ProcessorStats p') = 0"
  by (rule flush_nil_complete [OF assms])

theorem flush_complete_witness:
  "\<exists>s' p'. Flush (Some recordingSink) sorted_list_of_fset ([], one_call_state) = (None, s', p')
    \<and> emitted p' = emitted one_call_state \<union> fmdom' (firstSeen one_call_state)
    \<and> firstSeen p' = fmempty"
proof -
  have "list_all (\<lambda>c. case claimed_by one_call_state c of None \<Rightarrow> True
      | Some k \<Rightarrow> list_all (\<lambda>d. claimed_by one_call_state d = Some c \<longrightarrow> d = c)
          (sorted_keys (spans one_call_state))) (sorted_keys (spans one_call_state))"
    by code_simp
  then have l: "one_level one_call_state" using one_level_check spans_sorted_keys by blast
  obtain r s' p' where
    f: "Flush (Some recordingSink) sorted_list_of_fset ([], one_call_state) = (r, s', p')"
    by (metis prod_cases3)
  have r: "r = None" by (rule Flush_accepts [OF f recordingSink_accepts])
  from flush_complete [OF one_call_state_quiescent l range_order_sorted f [unfolded r]] f r
  show ?thesis by blast
qed

text \<open>
  C24. What Flush leaves. Against a sink that accepts every record Flush reports success, and a
  Flush that reports success leaves buffered exactly the keys that a client span claims while every client span that
  claims them is itself claimed by another one: a client span below a client span holds its
  grandparent back, and two that name each other hold each other for ever.
\<close>

theorem flush_leaves:
  assumes "quiescent p" and "range_order rng" and "Flush sink rng (s, p) = (r, s', p')"
  shows "(always_accepts sink \<longrightarrow> r = None) \<and>
    (r = None \<longrightarrow> fmdom' (firstSeen p') =
      {k \<in> fmdom' (firstSeen p). suppressed (childOf rng p) k \<and>
         (\<forall>c. claims_parent p c k \<longrightarrow> suppressed (childOf rng p) c)})"
  using Flush_accepts [OF assms(3)] Flush_leaves [of sink rng s p s' p'] assms by blast

text \<open>Two client spans that name each other.\<close>

definition cycle_calls :: "call list" where
  "cycle_calls =
     [CallSpans sorted_list_of_fset (\<lambda>_. 0)
        [Some (gatewaySpan [1] [3] [4] SPAN_KIND_CLIENT ''restart'' ''alpha'' STATUS_CODE_UNSET),
         Some (gatewaySpan [1] [4] [3] SPAN_KIND_CLIENT ''restart'' ''alpha'' STATUS_CODE_UNSET)]]"

definition cycle_state :: processor where
  "cycle_state =
     snd (run_calls plain_floats (Some recordingSink) cycle_calls ([], NewProcessor 0))"

lemma run_state_quiescent:
  assumes "\<forall>c \<in> set cs. range_order (call_order c)"
  shows "quiescent (snd (run_calls fl sink cs (s0, NewProcessor wait)))"
proof -
  obtain s p where r: "run_calls fl sink cs (s0, NewProcessor wait) = (s, p)" by fastforce
  from reachable_calls [OF r assms] obtain wr where
    "reachable fl sink wait s0 (sys_of p Idle s {#} wr)" ..
  from reachable_quiescent [OF this] show ?thesis by (simp add: sys_of_def r)
qed

lemma cycle_state_quiescent: "quiescent cycle_state"
  unfolding cycle_state_def
  by (rule run_state_quiescent) (simp add: cycle_calls_def range_order_sorted)

lemma cycle_state_eval:
  "sorted_keys (firstSeen cycle_state) = [''01/03'', ''01/04'']"
  "suppressed (childOf sorted_list_of_fset cycle_state) ''01/03''"
  "suppressed (childOf sorted_list_of_fset cycle_state) ''01/04''"
  "list_all (\<lambda>c. claimed_by cycle_state c \<in> {Some ''01/03'', Some ''01/04''})
     (sorted_keys (spans cycle_state))"
  "sorted_keys (spans cycle_state) = [''01/03'', ''01/04'']"
  by code_simp+

theorem flush_leaves_witness:
  "\<exists>s' p'. Flush (Some recordingSink) sorted_list_of_fset ([], cycle_state) = (None, s', p')
    \<and> fmdom' (firstSeen p') = {''01/03'', ''01/04''}"
proof -
  obtain r s' p' where
    f: "Flush (Some recordingSink) sorted_list_of_fset ([], cycle_state) = (r, s', p')"
    by (metis prod_cases3)
  have fl: "r = None \<and> fmdom' (firstSeen p') =
      {k \<in> fmdom' (firstSeen cycle_state). suppressed (childOf sorted_list_of_fset cycle_state) k \<and>
        (\<forall>c. claims_parent cycle_state c k \<longrightarrow>
           suppressed (childOf sorted_list_of_fset cycle_state) c)}"
    using flush_leaves [OF cycle_state_quiescent range_order_sorted f] recordingSink_accepts by blast
  have d: "fmdom' (firstSeen cycle_state) = {''01/03'', ''01/04''}"
    "fmdom' (spans cycle_state) = {''01/03'', ''01/04''}"
    using set_sorted_keys [of "firstSeen cycle_state"] set_sorted_keys [of "spans cycle_state"]
    by (simp_all only: cycle_state_eval(1,5) list.set)
  have c: "c \<in> {''01/03'', ''01/04''}" if "claims_parent cycle_state c k" for c k
    using claims_parent_spans [OF that] d(2) by blast
  have "fmdom' (firstSeen p') = {''01/03'', ''01/04''}"
    using fl d(1) c cycle_state_eval(2,3) by blast
  with fl f show ?thesis by blast
qed

section \<open>Expiry\<close>

text \<open>
  C26. The wait is respected. A receive call assembles nothing when no wait is configured;
  otherwise each key that it makes final was first seen more than the wait ago, or is the
  parent that such a key claims, and no key becomes final that was not buffered.
\<close>

theorem wait_respected:
  assumes "quiescent p" and "range_order rng"
    and "assembleExpired sink rng now (s, p) = (r, s', p')" and "k \<in> emitted p' - emitted p"
  shows "0 < maxWait p \<and> k \<in> fmdom' (firstSeen p) \<and>
    (\<exists>c seen. fmlookup (firstSeen p) c = Some seen \<and> seen + maxWait p < now \<and>
       (k = c \<or> claims_parent p c k))"
proof -
  have w: "0 < maxWait p" using assms(3,4) by (auto simp: assembleExpired_def split: if_splits)
  then have as: "assemble sink rng (Some (now - maxWait p)) (s, p) = (r, s', p')"
    using assms(3) by (simp add: assembleExpired_def)
  have i: "proc_inv p" using assms(1) by (simp add: quiescent_def)
  have k: "k \<in> consumed (assemble_accepted sink rng (Some (now - maxWait p)) (s, p))"
    using assemble_outcome(1) [OF as assms(1,2)] assms(4) by blast
  show ?thesis
    using w accepted_ready [OF i k] subsetD [OF accepted_buffered [OF i] k]
    by (fastforce simp: is_ready_def)
qed

text \<open>The client span at time 0, the server span that it names at time 8; the wait is 5.\<close>

definition waiting_calls :: "call list" where
  "waiting_calls =
     [CallSpans sorted_list_of_fset (\<lambda>_. 0)
        [Some (gatewaySpan [1] [3] [2] SPAN_KIND_CLIENT ''restart'' ''alpha'' STATUS_CODE_UNSET)],
      CallSpans sorted_list_of_fset (\<lambda>i. if i = 0 then 8 else 4)
        [Some (gatewaySpan [1] [2] [] SPAN_KIND_SERVER ''restart'' ''alpha'' STATUS_CODE_UNSET)]]"

definition waiting_state :: processor where
  "waiting_state =
     snd (run_calls plain_floats (Some recordingSink) waiting_calls ([], NewProcessor 5))"

lemma waiting_state_quiescent: "quiescent waiting_state"
  unfolding waiting_state_def
  by (rule run_state_quiescent) (simp add: waiting_calls_def range_order_sorted)

lemma waiting_state_wait: "maxWait waiting_state = 5"
  by code_simp

lemma waiting_state_seen: "fmlookup (firstSeen waiting_state) ''01/02'' = Some 8"
  by code_simp

lemma waiting_state_expired:
  "fmlookup (firstSeen (snd (snd
     (assembleExpired (Some recordingSink) sorted_list_of_fset 10 ([], waiting_state))))) ''01/02'' = None"
  by code_simp

lemma waiting_state_emits:
  assumes "assembleExpired (Some recordingSink) sorted_list_of_fset 10 ([], waiting_state) = (r, s', p')"
  shows "''01/02'' \<in> emitted p' - emitted waiting_state"
proof -
  have as: "assemble (Some recordingSink) sorted_list_of_fset (Some 5) ([], waiting_state) = (r, s', p')"
    using assms by (simp add: assembleExpired_def waiting_state_wait)
  note o = assemble_outcome [OF as waiting_state_quiescent range_order_sorted]
  have "''01/02'' \<in> emitted p'"
    using o(1) o(2) [of "''01/02''"] waiting_state_seen waiting_state_expired assms by (auto simp: keeps_def)
  moreover have "''01/02'' \<notin> emitted waiting_state"
    using waiting_state_quiescent waiting_state_seen proc_invD(6)
    by (fastforce simp: quiescent_def in_fmdom'_iff)
  ultimately show ?thesis by blast
qed

theorem wait_respected_witness:
  "\<exists>c seen. fmlookup (firstSeen waiting_state) c = Some seen \<and> seen + 5 < 10
    \<and> claims_parent waiting_state c ''01/02''"
proof -
  obtain r s' p' where
    o: "assembleExpired (Some recordingSink) sorted_list_of_fset 10 ([], waiting_state) = (r, s', p')"
    by (metis prod_cases3)
  from wait_respected [OF waiting_state_quiescent range_order_sorted o waiting_state_emits [OF o]]
  obtain c seen where
    c: "fmlookup (firstSeen waiting_state) c = Some seen" "seen + 5 < 10"
      "''01/02'' = c \<or> claims_parent waiting_state c ''01/02''"
    unfolding waiting_state_wait by blast
  moreover have "c \<noteq> ''01/02''" using c(1,2) waiting_state_seen by auto
  ultimately show ?thesis by blast
qed

section \<open>A parent that two calls share\<close>

text \<open>
  Two client spans below one server span that carries the operation id. When the second
  write fails, the parent has left the buffers with the first record, and the retry writes
  the second record without the operation id that it would have had.
\<close>

definition sample_call :: "string \<Rightarrow> string \<Rightarrow> string \<Rightarrow> string \<Rightarrow> execution" where
  "sample_call sid pid kind op =
     \<lparr>TraceID = ''01'', SpanID = sid, ParentSpanID = pid, SpanKind = kind, OperationID = op,
      Correlation = (if op = [] then Unattributed else Correlated), CorrelationDetail = [],
      Target = ''alpha'', Tool = ''restart'', StartedAt = None, FinishedAt = None, DurationMS = 6,
      Status = StatusSuccess, ErrorType = [], ErrorCode = [], ArgumentsFingerprint = [],
      ArgumentsFingerprintStatus = NotEmitted, ResultFingerprint = [],
      ResultFingerprintStatus = NotEmitted, ReadOnlyDeclared = False,
      ReadOnlyAnnotationKnown = False, AnnotationsVerified = False,
      Source = \<lparr>ObserverType = ''agentgateway'', ObserverID = [], ObserverVersion = [],
        Transport = ''traces'', ServiceName = [], ProtocolVersion = [], NetworkTransport = [],
        SessionID = []\<rparr>,
      SeenFrom = [''traces''], Disagreements = []\<rparr>"

definition shared_start :: "execution list \<times> processor" where
  "shared_start =
     ([], fold (\<lambda>ex. buffer 0 ex SignalTraces)
        [sample_call ''02'' [] SpanKindServer opA, sample_call ''03'' ''02'' SpanKindClient [],
         sample_call ''04'' ''02'' SpanKindClient []] (NewProcessor 0))"

text \<open>A sink with room for one record.\<close>

definition fullSink :: "(execution list, string) sink_write" where
  "fullSink ws ex = (if ws = [] then (None, [ex]) else (Some ''full'', ws))"

definition flush_ops ::
  "(execution list, string) sink_write \<Rightarrow> execution list \<times> processor \<Rightarrow> execution list \<times> processor" where
  "flush_ops w sp = snd (Flush (Some w) sorted_list_of_fset sp)"

lemma shared_parent_retry:
  "map OperationID (fst (flush_ops recordingSink shared_start)) = [opA, opA]"
  "map OperationID (fst (flush_ops recordingSink (flush_ops fullSink shared_start))) = [opA, []]"
  by code_simp+

end
