(* ===== verification/Drain.thy ===== *)
theory Drain
  imports Sink Expiry Delivery
begin

text \<open>
  The last Flush of a process whose receivers worked concurrently: it may start from whatever
  state any interleaving of receivers and assembler has led to, once no assembly is running.
\<close>

text \<open>
  A clean drain loses nothing, whatever went before. Take any interleaving of concurrent
  receivers, assemblies, sink failures and retries that has come to rest, with no claimed
  client span that is itself a parent. If Flush then reports success, nothing is buffered, the
  complete lines of the file are those it had followed by one encoded record for each accepted
  record, no two of these have the same key, and every signal that was ever taken in belongs
  to a key that one of them was made from.
\<close>

theorem drain_nothing_lost:
  assumes "NewJSONL oe path = Inr s0" and "terminated (existing oe)"
    and "run_history fl (Some (jsonl_sink quote)) wait (s0, answers) x h" and "phase x = Idle"
    and "one_level (proc x)" and "range_order rng"
    and "Flush (Some (jsonl_sink quote)) rng (sinkst x, proc x) = (None, w', p')"
  shows "\<exists>recs :: assembled list. firstSeen p' = fmempty
    \<and> map Some (lines (committed (fst w'))) =
        map Some (lines (existing oe)) @ map (\<lambda>a. Marshal quote (a_ex a)) recs
    \<and> distinct (map a_key recs)
    \<and> (\<forall>k sig. sig \<in> taken h k \<longrightarrow> (\<exists>a \<in> set recs. k \<in> set (a_consumedKeys a)))"
proof -
  let ?k = "Some (jsonl_sink quote)"
  note r = run_history_reachable [OF assms(3)]
  have x: "x = sys_of (proc x) Idle (sinkst x) (received x) (written x)"
    using assms(4) by (simp add: sys_of_def)
  have "run_call fl ?k (CallFlush rng) (sinkst x, proc x) = (None, w', p')" using assms(7) by simp
  from run_call_steps [OF this, where rcv = "received x" and wr = "written x"] assms(6)
  obtain w where st: "(step fl ?k)\<^sup>*\<^sup>* x (sys_of p' Idle w' (received x) (written x @ w))"
    using x by auto
  let ?y = "sys_of p' Idle w' (received x) (written x @ w)"
  have y: "reachable fl ?k wait (s0, answers) ?y" by (rule reachable_steps [OF st r])
  have f: "firstSeen p' = fmempty"
    using flush_nil_complete [OF reachable_quiescent [OF r assms(4)] assms(5-7)] by simp
  have "known (proc x) \<subseteq> known p'" using steps_known [OF st reachable_inv [OF r]] by simp
  moreover have "known p' \<subseteq> consumed (written x @ w)" using delivered [OF y] f by simp
  moreover have "k \<in> known (proc x)" if "sig \<in> taken h k" for sig k
    using taken_kept [OF assms(3) that] by (simp add: known_def)
  ultimately have "\<forall>k sig. sig \<in> taken h k \<longrightarrow>
      (\<exists>a \<in> set (written x @ w). k \<in> set (a_consumedKeys a))"
    unfolding consumed_def by fastforce
  moreover have "map Some (lines (committed (fst w'))) =
      map Some (lines (existing oe)) @ map (\<lambda>a. Marshal quote (a_ex a)) (written x @ w)"
    using file_log [OF assms(1,2) y] by simp
  moreover have "distinct (map a_key (written x @ w))"
    using reachable_inv [OF y] by (simp add: sys_inv_def log_inv_def)
  ultimately show ?thesis using f by (intro exI [of _ "written x @ w"]) simp
qed

text \<open>One call over a sink on a new file, before its Flush.\<close>

lemma one_call_one_level:
  assumes "run_calls plain_floats k one_call_demo (w, start_processor 0 i v) = (w1, p1)"
  shows "one_level p1"
proof -
  let ?f = "stamp (start_processor 0 i v)"
  let ?T = "readings [\<lambda>_. 0, \<lambda>_. 0, \<lambda>_. 0]"
  have z: "within_wait 0 ?T" by (simp add: within_wait_def)
  have r: "took_in_call ?f ?T p1 (fmupd ''01/03'' (?f ex_client) (fmupd ''01/02'' (?f ex_server) fmempty))
      (fmupd ''01/02'' (?f ex_log) fmempty) {''01/03'', ''01/02''}"
    using three_arrivals [OF samples_Some one_call_keys(1,2,3) one_call_distinct one_call_mset
        refl receives_new [OF z, of i v] _ _ _ assms]
    by (simp add: start_processor_def SetObserver_def NewProcessor_def)
  then have "claims_parent p1 c k \<Longrightarrow> c = ''01/03''" for c k
    using one_call_keys(6)
    by (auto simp: claims_parent_def took_in_call_def split: if_splits)
  then show ?thesis unfolding one_level_def by metis
qed

theorem drain_nothing_lost_witness:
  "\<exists>s0 answers x h w' p' line. NewJSONL fresh_env ''o'' = Inr s0 \<and>
     run_history plain_floats (Some (jsonl_sink (\<lambda>s. s))) 0 (s0, answers) x (h :: history) \<and>
     Flush (Some (jsonl_sink (\<lambda>s. s))) sorted_list_of_fset (sinkst x, proc x) = (None, w', p') \<and>
     firstSeen p' = fmempty \<and> lines (committed (fst w')) = [line]"
proof -
  let ?st = "start_processor 0 ''b'' []"
  let ?k = "Some (jsonl_sink (\<lambda>s. s))"
  obtain line where l: "Marshal (\<lambda>s. s) (call_record (stamp ?st)) = Some line" "printable line"
    using Marshal_total [OF call_record_wf] by blast
  let ?w = "(new_file [], \<lambda>_ :: nat. fine_env\<lparr>write_count := Suc (length line)\<rparr>)"
  obtain w1 p1 where r: "run_calls plain_floats ?k one_call_demo (?w, ?st) = (w1, p1)" by fastforce
  obtain e w2 p2 where f: "Flush ?k sorted_list_of_fset (w1, p1) = (e, w2, p2)"
    by (metis prod_cases3)
  note o = one_call_flushed [OF l(1) lessI order_refl r f]
  have "\<forall>c \<in> set one_call_demo. range_order (call_order c)"
    by (simp add: one_call_demo_def range_order_sorted)
  from reachable_started [OF r this] obtain wr where
    "reachable plain_floats ?k 0 ?w (sys_of p1 Idle w1 {#} wr)" ..
  from reachable_run_history [OF this] obtain h where
    h: "run_history plain_floats ?k 0 ?w (sys_of p1 Idle w1 {#} wr) h" ..
  have n: "NewJSONL fresh_env ''o'' = Inr (new_file [])" "terminated (existing fresh_env)"
    by (simp_all add: NewJSONL_def fresh_env_def new_file_def Let_def terminated_def)
  have fl: "Flush ?k sorted_list_of_fset (sinkst (sys_of p1 Idle w1 {#} wr), proc (sys_of p1 Idle w1 {#} wr))
      = (None, w2, p2)" using f o by simp
  have "lines (committed (fst w2)) = [line]"
    using o lines_append [of "[]" line] printable_no_newline [OF l(2)]
    by (simp add: committed_def new_file_def terminated_def)
  moreover have "firstSeen p2 = fmempty"
    using drain_nothing_lost [OF n h _ _ range_order_sorted fl] one_call_one_level [OF r] by auto
  ultimately show ?thesis
    by (intro exI conjI) (rule n(1), rule h, rule fl, assumption+)
qed

end
