(* ===== verification/Receiver.thy ===== *)
theory Receiver
  imports Flushing
begin

text \<open>
  The two receivers: \<open>internal/otlphttp/handler.go\<close> and \<open>internal/otlpgrpc/server.go\<close>. Both
  flatten an export request to its records and hand them to a consumer, which is the
  processor. The messages and their decoding (\<open>proto.Unmarshal\<close>) belong to the OpenTelemetry
  and protobuf packages: the request is a record of lists, the decoder an argument.
\<close>

section \<open>Requests\<close>

record 'r scope_group = sg_Records :: "'r list"

record 'r resource_group =
  rg_Attributes :: "key_value option list"
  rg_Scopes :: "'r scope_group list"

record 'r export_request = er_Resources :: "'r resource_group list"

definition flatten_scopes :: "'r scope_group list \<Rightarrow> 'r list \<Rightarrow> 'r list" where
  "flatten_scopes scopes records = fold (\<lambda>sg acc. acc @ sg_Records sg) scopes records"

definition flattenLogRecords ::
  "log_record option export_request \<Rightarrow> log_record option list" where
  "flattenLogRecords req = fold (\<lambda>rg acc. flatten_scopes (rg_Scopes rg) acc) (er_Resources req) []"

definition flattenSpans :: "span option export_request \<Rightarrow> span option list" where
  "flattenSpans req = fold (\<lambda>rg acc. flatten_scopes (rg_Scopes rg) acc) (er_Resources req) []"

text \<open>Every record of the request, in its order.\<close>

definition request_records :: "'r export_request \<Rightarrow> 'r list" where
  "request_records req = [r. rg \<leftarrow> er_Resources req, sg \<leftarrow> rg_Scopes rg, r \<leftarrow> sg_Records sg]"

lemma flatten_scopes_concat: "flatten_scopes scopes acc = acc @ concat (map sg_Records scopes)"
  by (induction scopes arbitrary: acc) (simp_all add: flatten_scopes_def)

lemma flatten_fold:
  "fold (\<lambda>rg acc. flatten_scopes (rg_Scopes rg) acc) rgs acc =
     acc @ concat (map (\<lambda>rg. concat (map sg_Records (rg_Scopes rg))) rgs)"
  by (induction rgs arbitrary: acc) (simp_all add: flatten_scopes_concat)

lemma flatten_request:
  "flattenLogRecords req = request_records req" "flattenSpans sreq = request_records sreq"
  by (simp_all add: flattenLogRecords_def flattenSpans_def request_records_def flatten_fold)

section \<open>OTLP over HTTP\<close>

type_synonym ('r, 'e, 'st) consumer = "'r list \<Rightarrow> 'st \<Rightarrow> 'e option \<times> 'st"

text \<open>A body that could not be read is \<open>None\<close>.\<close>

record http_request =
  rq_Method :: string
  rq_Body :: "string option"

record http_response =
  rs_Status :: nat
  rs_ContentType :: string
  rs_Text :: string

text \<open>
  A status without a body, and \<open>http.Error\<close>. \<open>rs_ContentType\<close> is the header that the handler
  sets, empty where it sets none.
\<close>

definition reply :: "nat \<Rightarrow> http_response" where
  "reply code = \<lparr>rs_Status = code, rs_ContentType = [], rs_Text = []\<rparr>"

definition http_Error :: "string \<Rightarrow> nat \<Rightarrow> http_response" where
  "http_Error msg code =
     \<lparr>rs_Status = code, rs_ContentType = ''text/plain; charset=utf-8'', rs_Text = msg @ [CHR 0x0A]\<rparr>"

definition StatusAccepted :: nat where "StatusAccepted = 202"
definition StatusBadRequest :: nat where "StatusBadRequest = 400"
definition StatusMethodNotAllowed :: nat where "StatusMethodNotAllowed = 405"
definition StatusInternalServerError :: nat where "StatusInternalServerError = 500"

definition ServeHTTP_logs ::
  "(string \<Rightarrow> log_record option export_request option) \<Rightarrow>
   (log_record option, 'e, 'st) consumer option \<Rightarrow> http_request \<Rightarrow> 'st \<Rightarrow> http_response \<times> 'st" where
  "ServeHTTP_logs decode consumer r st =
     (if rq_Method r \<noteq> ''POST'' then (reply StatusMethodNotAllowed, st)
      else (case rq_Body r of
          None \<Rightarrow> (http_Error ''read body'' StatusBadRequest, st)
        | Some body \<Rightarrow>
            (case decode body of
               None \<Rightarrow> (http_Error ''decode otlp logs'' StatusBadRequest, st)
             | Some req \<Rightarrow>
                 (case consumer of
                    None \<Rightarrow> (reply StatusAccepted, st)
                  | Some consume \<Rightarrow>
                      (case consume (flattenLogRecords req) st of
                         (Some err, st) \<Rightarrow> (http_Error ''consume logs'' StatusInternalServerError, st)
                       | (None, st) \<Rightarrow> (reply StatusAccepted, st))))))"

definition ServeHTTP_traces ::
  "(string \<Rightarrow> span option export_request option) \<Rightarrow>
   (span option, 'e, 'st) consumer option \<Rightarrow> http_request \<Rightarrow> 'st \<Rightarrow> http_response \<times> 'st" where
  "ServeHTTP_traces decode consumer r st =
     (if rq_Method r \<noteq> ''POST'' then (reply StatusMethodNotAllowed, st)
      else (case rq_Body r of
          None \<Rightarrow> (http_Error ''read body'' StatusBadRequest, st)
        | Some body \<Rightarrow>
            (case decode body of
               None \<Rightarrow> (http_Error ''decode otlp traces'' StatusBadRequest, st)
             | Some req \<Rightarrow>
                 (case consumer of
                    None \<Rightarrow> (reply StatusAccepted, st)
                  | Some consume \<Rightarrow>
                      (case consume (flattenSpans req) st of
                         (Some err, st) \<Rightarrow> (http_Error ''consume traces'' StatusInternalServerError, st)
                       | (None, st) \<Rightarrow> (reply StatusAccepted, st))))))"

text \<open>The constructors; a handler is its method \<open>ServeHTTP\<close>.\<close>

definition NewLogsHandler ::
  "(string \<Rightarrow> log_record option export_request option) \<Rightarrow>
   (log_record option, 'e, 'st) consumer option \<Rightarrow> http_request \<Rightarrow> 'st \<Rightarrow> http_response \<times> 'st" where
  "NewLogsHandler decode consumer = ServeHTTP_logs decode consumer"

definition NewTracesHandler ::
  "(string \<Rightarrow> span option export_request option) \<Rightarrow>
   (span option, 'e, 'st) consumer option \<Rightarrow> http_request \<Rightarrow> 'st \<Rightarrow> http_response \<times> 'st" where
  "NewTracesHandler decode consumer = ServeHTTP_traces decode consumer"

lemma handlers_serve [simp]:
  "NewLogsHandler = ServeHTTP_logs" "NewTracesHandler = ServeHTTP_traces"
  by (simp_all add: fun_eq_iff NewLogsHandler_def NewTracesHandler_def)

section \<open>OTLP over gRPC\<close>

text \<open>The package has its own copies of the two flattening functions.\<close>

definition grpc_flattenSpans :: "span option export_request \<Rightarrow> span option list" where
  "grpc_flattenSpans req =
     fold (\<lambda>rg spans. fold (\<lambda>sg spans. spans @ sg_Records sg) (rg_Scopes rg) spans)
       (er_Resources req) []"

definition grpc_flattenLogRecords ::
  "log_record option export_request \<Rightarrow> log_record option list" where
  "grpc_flattenLogRecords req =
     fold (\<lambda>rg records. fold (\<lambda>sg records. records @ sg_Records sg) (rg_Scopes rg) records)
       (er_Resources req) []"

lemma grpc_flatten:
  "grpc_flattenLogRecords req = flattenLogRecords req" "grpc_flattenSpans sreq = flattenSpans sreq"
  by (simp_all add: grpc_flattenLogRecords_def grpc_flattenSpans_def flattenLogRecords_def
      flattenSpans_def flatten_scopes_def)

text \<open>The empty response of an export, or the consumer's error.\<close>

definition Export_logs ::
  "(log_record option, 'e, 'st) consumer option \<Rightarrow> log_record option export_request \<Rightarrow> 'st
     \<Rightarrow> ('e + unit) \<times> 'st" where
  "Export_logs consumer req st =
     (case consumer of
        None \<Rightarrow> (Inr (), st)
      | Some consume \<Rightarrow>
          (case consume (grpc_flattenLogRecords req) st of
             (Some err, st) \<Rightarrow> (Inl err, st) | (None, st) \<Rightarrow> (Inr (), st)))"

definition Export_traces ::
  "(span option, 'e, 'st) consumer option \<Rightarrow> span option export_request \<Rightarrow> 'st
     \<Rightarrow> ('e + unit) \<times> 'st" where
  "Export_traces consumer req st =
     (case consumer of
        None \<Rightarrow> (Inr (), st)
      | Some consume \<Rightarrow>
          (case consume (grpc_flattenSpans req) st of
             (Some err, st) \<Rightarrow> (Inl err, st) | (None, st) \<Rightarrow> (Inr (), st)))"

section \<open>What a receiver relies on\<close>

text \<open>
  A consumer counts every record that it is handed, whether or not it reports an error: what
  was handed over has been taken in.
\<close>

locale counting_consumer =
  fixes consume :: "('r, 'e, 'st) consumer" and counter :: "'st \<Rightarrow> nat"
  assumes counts: "consume rs st = (r, st') \<Longrightarrow> counter st' = counter st + length rs"
begin

definition took_in :: "'r export_request \<Rightarrow> 'st \<Rightarrow> 'st \<Rightarrow> bool" where
  "took_in req st st' \<longleftrightarrow> counter st' = counter st + length (request_records req)"

lemma consume_took_in:
  "consume (request_records req) st = (r, st') \<Longrightarrow> took_in req st st'"
  using counts by (simp add: took_in_def)

end

subsection \<open>The processor is such a consumer\<close>

definition seen_counts :: "processor \<Rightarrow> nat \<times> nat" where
  "seen_counts p = (LogRecordsSeen (stats p), SpansSeen (stats p))"

lemma seen_counts_acknowledge [simp]: "seen_counts (acknowledge a p) = seen_counts p"
  using fold_ack_stats [of "a_consumedKeys a" p]
  by (simp add: seen_counts_def acknowledge_def count_stat_def record_emitted_def Let_def
      split: correlation.split)

lemma seen_counts_restore [simp]: "seen_counts (restoreReserved out p) = seen_counts p"
proof -
  have "stats (fold restore_key ks q) = stats q" for ks q
    by (induction ks arbitrary: q)
      (simp_all add: restore_key_def mergePendingIntoActive_def split: option.split)
  then show ?thesis by (simp add: seen_counts_def restoreReserved_def)
qed

lemma seen_counts_frame [simp]:
  "seen_counts (write_failed p) = seen_counts p"
  "seen_counts (p\<lparr>inFlight := X\<rparr>) = seen_counts p"
  "seen_counts (buffer now ex signal p) = seen_counts p"
  "seen_counts (count_stat call_ignored p) = seen_counts p"
  by (auto simp: seen_counts_def write_failed_def count_stat_def call_ignored_def buffer_def Let_def)

lemma seen_counts_emit_all: "seen_counts (snd (snd (emit_all sink out (s, p)))) = seen_counts p"
proof (induction out arbitrary: s p)
  case (Cons a out)
  then show ?case by (auto simp: emit_def split: prod.split option.split)
qed simp

lemma seen_counts_assembleExpired:
  "seen_counts (snd (snd (assembleExpired sink rng now (s, p)))) = seen_counts p"
  by (simp add: assembleExpired_def assemble_def claim_snapshot seen_counts_emit_all Let_def
      case_prod_beta)

lemma seen_counts_take_signal [simp]: "seen_counts (take_signal now es p) = seen_counts p"
  by (auto simp: take_signal_def split: prod.split option.split)

lemma seen_counts_consume:
  "seen_counts (consume_logs fl now rs p) =
     (fst (seen_counts p) + length rs, snd (seen_counts p))"
  "seen_counts (consume_spans fl now ss p) =
     (fst (seen_counts p), snd (seen_counts p) + length ss)"
proof -
  have l: "seen_counts (count_stat log_seen q) = (fst (seen_counts q) + 1, snd (seen_counts q))"
    and s: "seen_counts (count_stat span_seen q) = (fst (seen_counts q), snd (seen_counts q) + 1)"
    for q by (simp_all add: seen_counts_def count_stat_def log_seen_def span_seen_def)
  show "seen_counts (consume_logs fl now rs p) =
     (fst (seen_counts p) + length rs, snd (seen_counts p))"
    by (induction rs arbitrary: now p) (simp_all add: l)
  show "seen_counts (consume_spans fl now ss p) =
     (fst (seen_counts p), snd (seen_counts p) + length ss)"
    by (induction ss arbitrary: now p) (simp_all add: s)
qed

interpretation log_consumer:
  counting_consumer "\<lambda>rs. ConsumeLogRecords fl sink rng now rs" "\<lambda>sp. LogRecordsSeen (stats (snd sp))"
  for fl sink rng now
proof
  fix rs and st :: "'a \<times> processor" and r st'
  assume "ConsumeLogRecords fl sink rng now rs st = (r, st')"
  then show "LogRecordsSeen (stats (snd st')) = LogRecordsSeen (stats (snd st)) + length rs"
    using seen_counts_assembleExpired [of sink rng "now (length rs)" "fst st" "consume_logs fl now rs (snd st)"]
      seen_counts_consume(1) [of fl now rs "snd st"]
    by (auto simp: ConsumeLogRecords_def seen_counts_def split: prod.splits)
qed

interpretation span_consumer:
  counting_consumer "\<lambda>rs. ConsumeSpans fl sink rng now rs" "\<lambda>sp. SpansSeen (stats (snd sp))"
  for fl sink rng now
proof
  fix rs and st :: "'a \<times> processor" and r st'
  assume "ConsumeSpans fl sink rng now rs st = (r, st')"
  then show "SpansSeen (stats (snd st')) = SpansSeen (stats (snd st)) + length rs"
    using seen_counts_assembleExpired [of sink rng "now (length rs)" "fst st" "consume_spans fl now rs (snd st)"]
      seen_counts_consume(2) [of fl now rs "snd st"]
    by (auto simp: ConsumeSpans_def seen_counts_def split: prod.splits)
qed


section \<open>Properties\<close>

lemma logs_reply:
  assumes "ServeHTTP_logs decode (Some (ConsumeLogRecords fl sink rng now)) r (s, p) = (resp, s', p')"
  shows "(rs_Status resp \<in> {400, 405} \<and> s' = s \<and> p' = p) \<or>
    (\<exists>body req e. rq_Method r = ''POST'' \<and> rq_Body r = Some body \<and> decode body = Some req \<and>
       ConsumeLogRecords fl sink rng now (request_records req) (s, p) = (e, s', p') \<and>
       rs_Status resp = (if e = None then 202 else 500) \<and>
       LogRecordsSeen (stats p') = LogRecordsSeen (stats p) + length (request_records req))"
proof (cases "rq_Method r = ''POST'' \<and> rq_Body r \<noteq> None \<and> decode (the (rq_Body r)) \<noteq> None")
  case False
  then show ?thesis
    using assms by (auto simp: ServeHTTP_logs_def reply_def http_Error_def StatusMethodNotAllowed_def
        StatusBadRequest_def split: if_splits option.splits)
next
  case True
  then obtain body req where b: "rq_Method r = ''POST''" "rq_Body r = Some body"
    "decode body = Some req" by auto
  obtain e s2 p2 where c: "ConsumeLogRecords fl sink rng now (request_records req) (s, p) = (e, s2, p2)"
    by (metis prod_cases3)
  then have "s2 = s'" "p2 = p'" "rs_Status resp = (if e = None then 202 else 500)"
    using assms b by (auto simp: ServeHTTP_logs_def reply_def http_Error_def flatten_request StatusAccepted_def
        StatusInternalServerError_def split: option.splits)
  then show ?thesis
    using b c log_consumer.consume_took_in [OF c] by (simp add: log_consumer.took_in_def)
qed

lemma traces_reply:
  assumes "ServeHTTP_traces decode (Some (ConsumeSpans fl sink rng now)) r (s, p) = (resp, s', p')"
  shows "(rs_Status resp \<in> {400, 405} \<and> s' = s \<and> p' = p) \<or>
    (\<exists>body req e. rq_Method r = ''POST'' \<and> rq_Body r = Some body \<and> decode body = Some req \<and>
       ConsumeSpans fl sink rng now (request_records req) (s, p) = (e, s', p') \<and>
       rs_Status resp = (if e = None then 202 else 500) \<and>
       SpansSeen (stats p') = SpansSeen (stats p) + length (request_records req))"
proof (cases "rq_Method r = ''POST'' \<and> rq_Body r \<noteq> None \<and> decode (the (rq_Body r)) \<noteq> None")
  case False
  then show ?thesis
    using assms by (auto simp: ServeHTTP_traces_def reply_def http_Error_def StatusMethodNotAllowed_def
        StatusBadRequest_def split: if_splits option.splits)
next
  case True
  then obtain body req where b: "rq_Method r = ''POST''" "rq_Body r = Some body"
    "decode body = Some req" by auto
  obtain e s2 p2 where c: "ConsumeSpans fl sink rng now (request_records req) (s, p) = (e, s2, p2)"
    by (metis prod_cases3)
  then have "s2 = s'" "p2 = p'" "rs_Status resp = (if e = None then 202 else 500)"
    using assms b by (auto simp: ServeHTTP_traces_def reply_def http_Error_def flatten_request StatusAccepted_def
        StatusInternalServerError_def split: option.splits)
  then show ?thesis
    using b c span_consumer.consume_took_in [OF c] by (simp add: span_consumer.took_in_def)
qed


lemma max_wait_buffer [simp]: "maxWait (buffer now ex signal p) = maxWait p"
  by (auto simp: buffer_def Let_def)

lemma max_wait_consume:
  "maxWait (consume_logs fl now rs p) = maxWait p" "maxWait (consume_spans fl now ss p) = maxWait p"
proof -
  have t: "maxWait (take_signal t es p) = maxWait p" for t es p
    by (simp add: take_signal_def split: option.split prod.split)
  show "maxWait (consume_logs fl now rs p) = maxWait p"
    by (induction rs arbitrary: now p) (simp_all add: t)
  show "maxWait (consume_spans fl now ss p) = maxWait p"
    by (induction ss arbitrary: now p) (simp_all add: t)
qed

text \<open>A request with the one log of the sample call.\<close>

definition one_log_request :: "log_record option export_request" where
  "one_log_request =
     \<lparr>er_Resources = [\<lparr>rg_Attributes = [], rg_Scopes = [\<lparr>sg_Records =
       [Some (gatewayLog [1] [2] ''restart'' ''alpha'' opA)]\<rparr>]\<rparr>]\<rparr>"

definition post_body :: http_request where
  "post_body = \<lparr>rq_Method = ''POST'', rq_Body = Some ''body''\<rparr>"

text \<open>A request with one span, and a processor that assembles nothing on its own.\<close>

definition server_span_request :: "span option export_request" where
  "server_span_request =
     \<lparr>er_Resources = [\<lparr>rg_Attributes = [], rg_Scopes = [\<lparr>sg_Records =
       [Some (gatewaySpan [1] [2] [] SPAN_KIND_SERVER ''restart'' ''alpha'' STATUS_CODE_UNSET)]\<rparr>]\<rparr>]\<rparr>"

definition demo_logs_reply :: "http_response \<times> unit \<times> processor" where
  "demo_logs_reply =
     ServeHTTP_logs (\<lambda>b. if b = ''body'' then Some one_log_request else None)
       (Some (ConsumeLogRecords plain_floats (None :: (unit, string) sink_write option)
         sorted_list_of_fset (\<lambda>_. 0))) post_body ((), NewProcessor 0)"

definition demo_traces_reply :: "http_response \<times> unit \<times> processor" where
  "demo_traces_reply =
     ServeHTTP_traces (\<lambda>b. if b = ''body'' then Some server_span_request else None)
       (Some (ConsumeSpans plain_floats (None :: (unit, string) sink_write option)
         sorted_list_of_fset (\<lambda>_. 0))) post_body ((), NewProcessor 0)"

lemma no_wait_no_error:
  "ConsumeLogRecords fl sink rng now xs (s, NewProcessor 0) = (e, s', p') \<Longrightarrow> e = None"
  "ConsumeSpans fl sink rng now ys (s, NewProcessor 0) = (e, s', p') \<Longrightarrow> e = None"
  by (simp_all add: ConsumeLogRecords_def ConsumeSpans_def assembleExpired_def max_wait_consume
      NewProcessor_def)


text \<open>
  The transport does not matter. For both signals, a decoded request drives its consumer
  over HTTP exactly as over gRPC: the same state afterwards, and 202 over HTTP exactly when
  the export succeeds over gRPC. Without a consumer both accept and change nothing.
\<close>

theorem transports_agree:
  assumes "rq_Method r = ''POST''" and "rq_Body r = Some body"
    and "decode_logs body = Some lreq" and "decode_traces body = Some treq"
  shows "snd (ServeHTTP_logs decode_logs lc r st) = snd (Export_logs lc lreq st)
    \<and> (rs_Status (fst (ServeHTTP_logs decode_logs lc r st)) = 202 \<longleftrightarrow>
         fst (Export_logs lc lreq st) = Inr ())
    \<and> snd (ServeHTTP_traces decode_traces tc r st) = snd (Export_traces tc treq st)
    \<and> (rs_Status (fst (ServeHTTP_traces decode_traces tc r st)) = 202 \<longleftrightarrow>
         fst (Export_traces tc treq st) = Inr ())"
  using assms
  by (auto simp: ServeHTTP_logs_def Export_logs_def ServeHTTP_traces_def Export_traces_def grpc_flatten
      reply_def http_Error_def StatusAccepted_def StatusInternalServerError_def split: option.splits prod.splits)


theorem transports_agree_witness:
  "\<exists>lreq. snd (ServeHTTP_logs (\<lambda>_. Some lreq) (Some (\<lambda>rs n. (None :: string option, n + length rs))) post_body (0 :: nat))
      = snd (Export_logs (Some (\<lambda>rs n. (None :: string option, n + length rs))) lreq 0)
    \<and> length (request_records lreq) = 1"
proof -
  have b: "rq_Method post_body = ''POST''" "rq_Body post_body = Some ''body''"
    by (simp_all add: post_body_def)
  have "length (request_records one_log_request) = 1"
    by (simp add: request_records_def one_log_request_def)
  with transports_agree [OF b, of "\<lambda>_. Some one_log_request" one_log_request
      "\<lambda>_. Some \<lparr>er_Resources = []\<rparr>" "\<lparr>er_Resources = []\<rparr>"
      "Some (\<lambda>rs n. (None :: string option, n + length rs))" 0 None]
  show ?thesis by blast
qed

section \<open>Redelivery\<close>

text \<open>A text that starts with a visible byte is not blank.\<close>

lemma trim_by_Nil:
  "trim_by ws s = [] \<Longrightarrow> \<exists>rs. set rs \<subseteq> set ws \<and> [] \<notin> set rs \<and> s = concat rs"
proof (induction ws s rule: trim_by.induct)
  case (1 ws s)
  show ?case
  proof (cases "leading ws s")
    case None
    then have "s = []" using 1(2) by (simp add: trim_by_fixed)
    then show ?thesis by (intro exI [of _ "[]"]) simp
  next
    case (Some w)
    note w = leading_Some [OF Some]
    have "trim_by ws (drop (length w) s) = []" using 1(2) Some by (simp add: trim_by.simps [of ws s])
    from 1(1) [OF Some this] obtain rs where
      r: "set rs \<subseteq> set ws" "[] \<notin> set rs" "drop (length w) s = concat rs" by blast
    obtain t where "s = w @ t" using w(2) by blast
    then have "s = concat (w # rs)" using r(3) by simp
    then show ?thesis using r w by (intro exI [of _ "w # rs"]) simp
  qed
qed

lemma trim_space_visible:
  assumes "s \<noteq> []" and "\<forall>w \<in> set space_runes. hd w \<noteq> hd s"
  shows "trim_space s \<noteq> []"
proof
  assume b: "trim_space s = []"
  have "leading space_runes s = None" using assms by (intro leading_plain) auto
  then have "trim_right s = []" using b by (simp add: trim_space_def trim_left_def trim_by_fixed)
  then obtain rs where
    r: "set rs \<subseteq> set (map rev space_runes)" "[] \<notin> set rs" "rev s = concat rs"
    using trim_by_Nil [of "map rev space_runes" "rev s"] by (auto simp: trim_right_def)
  then obtain qs q where rs: "rs = qs @ [q]" using assms(1) by (cases rs rule: rev_cases) auto
  then have "s = rev q @ rev (concat qs)" using r(3) by (metis concat.simps(1) concat.simps(2)
      concat_append append_Nil2 rev_append rev_rev_ident)
  moreover have "q \<noteq> []" using r(2) rs by auto
  ultimately have "hd s = hd (rev q)" by simp
  moreover have "rev q \<in> set space_runes" using r(1) rs by auto
  ultimately show False using assms(2) by metis
qed

lemma classify_detail_visible:
  assumes "ClassifyOperation ids = (Ambiguous, i, d)"
  shows "trim_space d \<noteq> []"
proof -
  have "\<exists>t. d = ''conflicting operation ids: '' @ t \<or> d = ''operation id is not well formed: '' @ t"
    using assms by (auto simp: ClassifyOperation_def split: list.splits if_splits)
  then show ?thesis by (intro trim_space_visible) (auto simp: space_runes_def)
qed

lemma classify_again:
  assumes "ClassifyOperation ids = (c, i, d)" and "c \<noteq> Ambiguous"
  shows "ClassifyOperation [i, i] = (c, i, d)"
proof (cases c)
  case Correlated
  then have "ValidOperationID i \<and> trim_space i = i"
    using ClassifyOperation_wf [OF assms(1)] by (simp add: corr_wf_def)
  moreover have "i \<noteq> []" using ClassifyOperation_wf [OF assms(1)] corr_wf_nonempty Correlated by blast
  moreover have "d = []" using ClassifyOperation_detail_correlated assms(1) Correlated by blast
  ultimately show ?thesis using Correlated by (simp add: ClassifyOperation_def present_ids_def)
next
  case Unattributed
  then have "i = []" using ClassifyOperation_wf [OF assms(1)] by (simp add: corr_wf_def)
  then show ?thesis
    using assms(1) Unattributed
    by (auto simp: ClassifyOperation_def present_ids_def split: list.splits if_splits)
qed (use assms(2) in simp)

text \<open>
  An exporter that gets a 500 sends its batch again. Merging a normalized record with itself
  changes nothing but error texts made of white space, which are dropped.
\<close>

definition blank_dropped :: "string \<Rightarrow> string" where
  "blank_dropped s = (if trim_space s = [] then [] else s)"

lemma merge_firstNonEmpty_twice: "merge_firstNonEmpty [s, s] = blank_dropped s"
  by (simp add: blank_dropped_def)

lemma mergeSource_self: "mergeSource a a = a"
  by (simp add: mergeSource_def)

lemma transport_same: "Transport src = t \<Longrightarrow> src\<lparr>Transport := t\<rparr> = src"
  by (cases src) simp

lemma merge_self:
  assumes "Disagreements ex = []" and "SeenFrom ex = [v]" and "v \<noteq> []"
    and "Transport (Source ex) = ''otlp_'' @ v"
    and "ClassifyOperation ids = (Correlation ex, OperationID ex, CorrelationDetail ex)"
    and "\<And>a b. StartedAt ex = Some a \<Longrightarrow> FinishedAt ex = Some b \<Longrightarrow>
      DurationMS ex = milliseconds (time_sub b a)"
  shows "merge ex ex =
    ex\<lparr>ErrorType := blank_dropped (ErrorType ex), ErrorCode := blank_dropped (ErrorCode ex)\<rparr>"
proof -
  have c: "mergeCorrelation ex ex = (Correlation ex, OperationID ex, CorrelationDetail ex)"
  proof (cases "Correlation ex = Ambiguous")
    case True
    then have "OperationID ex = []" "trim_space (CorrelationDetail ex) \<noteq> []"
      using ClassifyOperation_wf [OF assms(5)] classify_detail_visible assms(5)
      by (auto simp: corr_wf_def)
    then show ?thesis using True by (simp add: mergeCorrelation_def)
  next
    case False
    then show ?thesis using classify_again [OF assms(5)] by (simp add: mergeCorrelation_def)
  qed
  have u: "union_names [v] [v] = [v]" using assms(3) by (simp add: union_names_def)
  have d: "(case StartedAt ex of None \<Rightarrow> DurationMS ex
      | Some a \<Rightarrow> (case FinishedAt ex of None \<Rightarrow> DurationMS ex
        | Some b \<Rightarrow> if DurationMS ex = 0 then milliseconds (time_sub b a) else DurationMS ex))
      = DurationMS ex"
    using assms(6) by (simp split: option.split)
  show ?thesis
    by (rule execution.equality)
      (simp_all add: merge_unfold c u transport_same assms(4) d mergeSource_self mergeField_def mergeStatus_def
        merge_firstNonEmpty_twice strongerAvailability_def assms(1,2) transportOf_def
        del: merge_firstNonEmpty.simps)
qed


text \<open>
  Sending a signal again does no harm. A normalized record, of a log or of a span,
  merged with itself is itself, but for an error type or code that is only white space; in
  particular no disagreement, no status and no attribution is made up by a retry.
\<close>

theorem redelivery_harmless:
  assumes "FromLogRecord fl r = Some ex \<or> FromSpan fl s = Some ex"
  shows "merge ex ex =
    ex\<lparr>ErrorType := blank_dropped (ErrorType ex), ErrorCode := blank_dropped (ErrorCode ex)\<rparr>"
  using assms
proof
  assume "FromLogRecord fl r = Some ex"
  then obtain r' where
    r': "ex = log_execution fl (attributeMap fl (lr_Attributes r')) r'" by (rule FromLogRecord_Some)
  show ?thesis
    by (rule merge_self [of _ SignalLogs "operationID (attributeMap fl (lr_Attributes r'))"])
      (simp_all add: r' log_execution_def case_prod_beta Let_def signal_names_nonempty
        classify_def sourceFrom_def TransportLogs_def SignalLogs_def)
next
  assume "FromSpan fl s = Some ex"
  then obtain s' where
    s': "ex = span_execution (attributeMap fl (sp_Attributes s')) s'" by (rule FromSpan_Some)
  show ?thesis
    by (rule merge_self [of _ SignalTraces "operationID (attributeMap fl (sp_Attributes s'))"])
      (simp_all add: s' span_execution_def case_prod_beta Let_def signal_names_nonempty
        classify_def sourceFrom_def TransportTraces_def SignalTraces_def split: option.split)
qed

theorem redelivery_harmless_witness:
  "merge ex_client ex_client =
     ex_client\<lparr>ErrorType := blank_dropped (ErrorType ex_client),
               ErrorCode := blank_dropped (ErrorCode ex_client)\<rparr>"
  by (rule redelivery_harmless [OF disjI2 [OF samples_Some(2)]])

end
