(* ===== verification/JsonParse.thy ===== *)
theory JsonParse
  imports Json
begin

text \<open>
  The reading half of \<open>encoding/json\<close>, as far as \<open>json.Unmarshal\<close> into a record needs it:
  the grammar, checked by a machine with a stack as the scanner of the package does it, and
  the meaning of a string literal. A value keeps its number and string literals as they are
  written, because \<open>time.Time.UnmarshalJSON\<close> reads the literal itself.
\<close>

section \<open>Tokens\<close>

datatype json =
    JNull
  | JBool bool
  | JNum string
  | JStr string
  | JArr "json list"
  | JObj "(string \<times> json) list"

datatype token =
    BraceOpen | BraceClose | BracketOpen | BracketClose | Comma | Colon
  | StrTok string | NumTok string | TrueTok | FalseTok | NullTok

definition is_digit :: "char \<Rightarrow> bool" where
  "is_digit c \<longleftrightarrow> in_range 48 57 c"

definition is_hex :: "char \<Rightarrow> bool" where
  "is_hex c \<longleftrightarrow> is_digit c \<or> in_range 65 70 c \<or> in_range 97 102 c"

text \<open>How many bytes an escape has after its backslash.\<close>

definition escape_length :: "string \<Rightarrow> nat option" where
  "escape_length s =
     (case s of
        [] \<Rightarrow> None
      | e # r \<Rightarrow>
          if e \<in> set ''bfnrt/'' \<or> e = backslash \<or> e = dquote then Some 1
          else if e = CHR ''u'' \<and> length (take 4 r) = 4 \<and> list_all is_hex (take 4 r) then Some 5
          else None)"

text \<open>A string literal after its opening quote: the text up to the closing one, and the rest.\<close>

function lex_string :: "string \<Rightarrow> (string \<times> string) option" where
  "lex_string [] = None"
| "lex_string (c # s) =
     (if c = dquote then Some ([], s)
      else if c = backslash then
        (case escape_length s of
           None \<Rightarrow> None
         | Some n \<Rightarrow> map_option (\<lambda>(b, r). (c # take n s @ b, r)) (lex_string (drop n s)))
      else if byte c < 32 then None
      else map_option (\<lambda>(b, r). (c # b, r)) (lex_string s))"
  by pat_completeness auto
termination by (relation "measure length") auto

definition strip_sign :: "string \<Rightarrow> string \<Rightarrow> string" where
  "strip_sign signs s = (case s of [] \<Rightarrow> [] | c # t \<Rightarrow> if c \<in> set signs then t else s)"

definition valid_exponent :: "string \<Rightarrow> bool" where
  "valid_exponent s \<longleftrightarrow>
     (case s of
        [] \<Rightarrow> True
      | c # t \<Rightarrow>
          c \<in> set ''eE'' \<and> strip_sign ''+-'' t \<noteq> [] \<and> list_all is_digit (strip_sign ''+-'' t))"

definition valid_fraction :: "string \<Rightarrow> bool" where
  "valid_fraction s \<longleftrightarrow>
     (case s of
        [] \<Rightarrow> True
      | c # t \<Rightarrow>
          if c = CHR ''.'' then takeWhile is_digit t \<noteq> [] \<and> valid_exponent (dropWhile is_digit t)
          else valid_exponent s)"

definition valid_number :: "string \<Rightarrow> bool" where
  "valid_number s \<longleftrightarrow>
     (let s = strip_sign ''-'' s; ds = takeWhile is_digit s
      in ds \<noteq> [] \<and> (hd ds = CHR ''0'' \<longrightarrow> tl ds = []) \<and> valid_fraction (dropWhile is_digit s))"

text \<open>The bytes of which number literals consist; none of them may follow one.\<close>

definition num_char :: "char \<Rightarrow> bool" where
  "num_char c \<longleftrightarrow> is_digit c \<or> c \<in> set ''+-.eE''"

definition json_space :: "char \<Rightarrow> bool" where
  "json_space c \<longleftrightarrow> byte c = 32 \<or> byte c = 9 \<or> byte c = 13 \<or> byte c = 10"

fun punctuation :: "char \<Rightarrow> token option" where
  "punctuation c =
     (if c = CHR ''{'' then Some BraceOpen else if c = CHR ''}'' then Some BraceClose
      else if c = CHR ''['' then Some BracketOpen else if c = CHR '']'' then Some BracketClose
      else if c = CHR '','' then Some Comma else if c = CHR '':'' then Some Colon else None)"

lemma lex_string_shorter: "lex_string s = Some (b, r) \<Longrightarrow> length r < length s"
proof (induction s arbitrary: b r rule: lex_string.induct)
  case (2 c s)
  show ?case
  proof (cases "c = backslash \<and> c \<noteq> dquote")
    case True
    then obtain n b' where "escape_length s = Some n" "lex_string (drop n s) = Some (b', r)"
      using 2(3) by (auto split: option.splits)
    then have "length r < length (drop n s)" using 2(1) True by blast
    then show ?thesis by simp
  next
    case False
    then show ?thesis using 2(2,3) by (fastforce split: if_splits)
  qed
qed simp

function lex_tokens :: "string \<Rightarrow> token list option" where
  "lex_tokens [] = Some []"
| "lex_tokens (c # s) =
     (if json_space c then lex_tokens s
      else (case punctuation c of
          Some t \<Rightarrow> map_option (Cons t) (lex_tokens s)
        | None \<Rightarrow>
            if c = dquote then
              (case lex_string s of
                 None \<Rightarrow> None
               | Some (b, r) \<Rightarrow> map_option (Cons (StrTok b)) (lex_tokens r))
            else if has_prefix ''true'' (c # s)
              then map_option (Cons TrueTok) (lex_tokens (drop 3 s))
            else if has_prefix ''false'' (c # s)
              then map_option (Cons FalseTok) (lex_tokens (drop 4 s))
            else if has_prefix ''null'' (c # s)
              then map_option (Cons NullTok) (lex_tokens (drop 3 s))
            else if num_char c \<and> valid_number (takeWhile num_char (c # s))
              then map_option (Cons (NumTok (takeWhile num_char (c # s))))
                     (lex_tokens (dropWhile num_char (c # s)))
            else None))"
  by pat_completeness auto
termination
  by (relation "measure length")
     (auto dest: lex_string_shorter intro: le_less_trans [OF length_dropWhile_le])

section \<open>The grammar\<close>

text \<open>
  A container that is not finished: an array with its elements so far, or an object with its
  members so far and the name whose value is being read. The other states name what may come
  next; a container just opened may also close. \<open>maxNestingDepth\<close> of the package is 10000.
\<close>

datatype frame =
    InArray "json list"
  | InMember "(string \<times> json) list" string

datatype mode =
    WantValue
  | WantFirst
  | WantKey "(string \<times> json) list"
  | WantFirstKey
  | WantColon "(string \<times> json) list" string
  | AfterElem "json list"
  | AfterMember "(string \<times> json) list"
  | Finished json

fun complete_value :: "json \<Rightarrow> frame list \<Rightarrow> mode \<times> frame list" where
  "complete_value v [] = (Finished v, [])"
| "complete_value v (InArray vs # st) = (AfterElem (vs @ [v]), st)"
| "complete_value v (InMember kvs k # st) = (AfterMember (kvs @ [(k, v)]), st)"

definition may_open :: "frame list \<Rightarrow> bool" where
  "may_open st \<longleftrightarrow> int (length st) < 10000"

fun begin_value :: "token \<Rightarrow> frame list \<Rightarrow> (mode \<times> frame list) option" where
  "begin_value BraceOpen st = (if may_open st then Some (WantFirstKey, st) else None)"
| "begin_value BracketOpen st = (if may_open st then Some (WantFirst, InArray [] # st) else None)"
| "begin_value (StrTok s) st = Some (complete_value (JStr s) st)"
| "begin_value (NumTok s) st = Some (complete_value (JNum s) st)"
| "begin_value TrueTok st = Some (complete_value (JBool True) st)"
| "begin_value FalseTok st = Some (complete_value (JBool False) st)"
| "begin_value NullTok st = Some (complete_value JNull st)"
| "begin_value _ st = None"

fun scan_token :: "token \<Rightarrow> mode \<times> frame list \<Rightarrow> (mode \<times> frame list) option" where
  "scan_token t (WantValue, st) = begin_value t st"
| "scan_token t (WantFirst, st) =
     (if t = BracketClose then
        (case st of InArray vs # st \<Rightarrow> Some (complete_value (JArr vs) st) | _ \<Rightarrow> None)
      else begin_value t st)"
| "scan_token (StrTok k) (WantFirstKey, st) = Some (WantColon [] k, st)"
| "scan_token BraceClose (WantFirstKey, st) = Some (complete_value (JObj []) st)"
| "scan_token (StrTok k) (WantKey kvs, st) = Some (WantColon kvs k, st)"
| "scan_token Colon (WantColon kvs k, st) = Some (WantValue, InMember kvs k # st)"
| "scan_token Comma (AfterElem vs, st) = Some (WantValue, InArray vs # st)"
| "scan_token BracketClose (AfterElem vs, st) = Some (complete_value (JArr vs) st)"
| "scan_token Comma (AfterMember kvs, st) = Some (WantKey kvs, st)"
| "scan_token BraceClose (AfterMember kvs, st) = Some (complete_value (JObj kvs) st)"
| "scan_token _ _ = None"

fun scan_tokens :: "token list \<Rightarrow> mode \<times> frame list \<Rightarrow> (mode \<times> frame list) option" where
  "scan_tokens [] s = Some s"
| "scan_tokens (t # ts) s =
     (case scan_token t s of None \<Rightarrow> None | Some s \<Rightarrow> scan_tokens ts s)"

definition parse_json :: "string \<Rightarrow> json option" where
  "parse_json s =
     (case lex_tokens s of
        None \<Rightarrow> None
      | Some ts \<Rightarrow>
          (case scan_tokens ts (WantValue, []) of
             Some (Finished v, _) \<Rightarrow> Some v
           | _ \<Rightarrow> None))"

section \<open>String literals\<close>

definition hex_value :: "char \<Rightarrow> nat" where
  "hex_value c =
     (if is_digit c then byte c - 48 else if in_range 65 70 c then byte c - 55 else byte c - 87)"

definition hex4 :: "string \<Rightarrow> nat" where
  "hex4 s = foldl (\<lambda>n c. 16 * n + hex_value c) 0 s"

text \<open>\<open>utf8.AppendRune\<close>, for a rune that is not a surrogate.\<close>

definition encode_rune :: "nat \<Rightarrow> string" where
  "encode_rune r =
     (if r < 0x80 then [char_of r]
      else if r < 0x800 then [char_of (0xC0 + r div 64), char_of (0x80 + r mod 64)]
      else if r < 0x10000 then
        [char_of (0xE0 + r div 4096), char_of (0x80 + r div 64 mod 64), char_of (0x80 + r mod 64)]
      else
        [char_of (0xF0 + r div 262144), char_of (0x80 + r div 4096 mod 64),
         char_of (0x80 + r div 64 mod 64), char_of (0x80 + r mod 64)])"

definition replacement :: string where
  "replacement = [CHR 0xEF, CHR 0xBF, CHR 0xBD]"

definition unescape :: "char \<Rightarrow> char" where
  "unescape e =
     (if e = CHR ''b'' then char_of (8 :: nat) else if e = CHR ''f'' then char_of (12 :: nat)
      else if e = CHR ''n'' then char_of (10 :: nat) else if e = CHR ''r'' then char_of (13 :: nat)
      else if e = CHR ''t'' then char_of (9 :: nat) else e)"

text \<open>The second half of a surrogate pair, when it follows.\<close>

definition low_surrogate :: "string \<Rightarrow> nat option" where
  "low_surrogate s =
     (if has_prefix (backslash # ''u'') s
         \<and> 0xDC00 \<le> hex4 (take 4 (drop 2 s)) \<and> hex4 (take 4 (drop 2 s)) < 0xE000
      then Some (hex4 (take 4 (drop 2 s))) else None)"

function unquote :: "string \<Rightarrow> string" where
  "unquote [] = []"
| "unquote (c # s) =
     (if c = backslash then
        (case s of
           [] \<Rightarrow> []
         | e # r \<Rightarrow>
             if e = CHR ''u'' then
               (let rune = hex4 (take 4 r); r = drop 4 r
                in if 0xD800 \<le> rune \<and> rune < 0xE000 then
                     (case low_surrogate r of
                        Some low \<Rightarrow>
                          if rune < 0xDC00
                          then encode_rune (0x10000 + (rune - 0xD800) * 1024 + (low - 0xDC00))
                                 @ unquote (drop 6 r)
                          else replacement @ unquote r
                      | None \<Rightarrow> replacement @ unquote r)
                   else encode_rune rune @ unquote r)
             else unescape e # unquote r)
      else if byte c < 0x80 then c # unquote s
      else (case utf8_len (c # s) of
              None \<Rightarrow> replacement @ unquote s
            | Some n \<Rightarrow> take n (c # s) @ unquote (drop (n - 1) s)))"
  by pat_completeness auto
termination by (relation "measure length") auto

text \<open>
  A byte string with every byte that is not part of well-formed UTF-8 replaced by U+FFFD: what
  is left of it after it was written as JSON.
\<close>

function to_utf8 :: "string \<Rightarrow> string" where
  "to_utf8 [] = []"
| "to_utf8 (c # s) =
     (if byte c < 0x80 then c # to_utf8 s
      else (case utf8_len (c # s) of
              None \<Rightarrow> replacement @ to_utf8 s
            | Some n \<Rightarrow> take n (c # s) @ to_utf8 (drop (n - 1) s)))"
  by pat_completeness auto
termination by (relation "measure length") auto

function valid_utf8 :: "string \<Rightarrow> bool" where
  "valid_utf8 [] = True"
| "valid_utf8 (c # s) =
     (case utf8_len (c # s) of None \<Rightarrow> False | Some n \<Rightarrow> valid_utf8 (drop (n - 1) s))"
  by pat_completeness auto
termination by (relation "measure length") auto

end
