(* ===== verification/JsonDecode.thy ===== *)
theory JsonDecode
  imports JsonParse
begin

text \<open>
  \<open>json.Unmarshal\<close> into an \<open>observation.Execution\<close>: the fields of the struct by the names of
  their tags, the kinds of values each takes, and \<open>time.Time.UnmarshalJSON\<close>. Read back, the
  Go types \<open>Correlation\<close>, \<open>Status\<close> and \<open>Availability\<close> are strings that need not be one of the
  constants, so the result has a type of its own, \<open>wire\<close>. Any error of the decoder is
  \<open>None\<close>: the callers only look at whether there is one.
\<close>

section \<open>Numbers and times\<close>

fun digits_nat :: "string \<Rightarrow> nat \<Rightarrow> nat" where
  "digits_nat [] acc = acc"
| "digits_nat (c # cs) acc = digits_nat cs (10 * acc + (byte c - 48))"

text \<open>\<open>strconv.ParseInt(s, 10, 64)\<close>.\<close>

definition parse_int64 :: "string \<Rightarrow> int option" where
  "parse_int64 s =
     (let ds = strip_sign ''+-'' s;
          n = int (digits_nat ds 0);
          i = (if has_prefix ''-'' s then - n else n)
      in if ds \<noteq> [] \<and> list_all is_digit ds \<and> is_int64 i then Some i else None)"

text \<open>Two digits, and one or two digits (\<open>getnum\<close> of package \<open>time\<close>).\<close>

definition two_digits :: "string \<Rightarrow> (int \<times> string) option" where
  "two_digits s =
     (if length (take 2 s) = 2 \<and> list_all is_digit (take 2 s)
      then Some (int (digits_nat (take 2 s) 0), drop 2 s) else None)"

definition some_digits :: "string \<Rightarrow> (int \<times> string) option" where
  "some_digits s =
     (case two_digits s of
        Some r \<Rightarrow> Some r
      | None \<Rightarrow>
          if s \<noteq> [] \<and> is_digit (hd s) then Some (int (digits_nat (take 1 s) 0), tl s) else None)"

definition four_digits :: "string \<Rightarrow> (int \<times> string) option" where
  "four_digits s =
     (if length (take 4 s) = 4 \<and> list_all is_digit (take 4 s)
      then Some (int (digits_nat (take 4 s) 0), drop 4 s) else None)"

definition expect :: "char \<Rightarrow> string \<Rightarrow> string option" where
  "expect c s = (case s of [] \<Rightarrow> None | x # r \<Rightarrow> if x = c then Some r else None)"

text \<open>A fraction of a second in nanoseconds; digits beyond the ninth are cut.\<close>

definition read_fraction :: "string \<Rightarrow> int \<times> string" where
  "read_fraction s =
     (case s of
        [] \<Rightarrow> (0, [])
      | c # r \<Rightarrow>
          let ds = takeWhile is_digit r
          in if (c = CHR ''.'' \<or> c = CHR '','') \<and> ds \<noteq> []
             then (int (digits_nat (take 9 ds) 0) * 10 ^ (9 - length (take 9 ds)),
                   dropWhile is_digit r)
             else (0, s))"

text \<open>\<open>Z\<close> or an offset, in seconds, with nothing after it.\<close>

definition read_zone :: "string \<Rightarrow> int option" where
  "read_zone s =
     (if s = ''Z'' then Some 0
      else (case s of
          sign # r \<Rightarrow>
            if sign \<noteq> CHR ''+'' \<and> sign \<noteq> CHR ''-'' then None
            else (case two_digits r of
                None \<Rightarrow> None
              | Some (hh, r) \<Rightarrow>
                  (case Option.bind (expect (CHR '':'') r) two_digits of
                     None \<Rightarrow> None
                   | Some (mm, r) \<Rightarrow>
                       if r \<noteq> [] \<or> 24 < hh \<or> 60 < mm then None
                       else Some ((if sign = CHR ''-'' then - 1 else 1) * (hh * 60 + mm) * 60)))
        | [] \<Rightarrow> None))"

text \<open>Days before a year, counted from 1 January of year 1, and the length of a month.\<close>

definition days_before_year :: "int \<Rightarrow> int" where
  "days_before_year y = 365 * (y - 1) + (y - 1) div 4 - (y - 1) div 100 + (y - 1) div 400"

definition month_length :: "bool \<Rightarrow> int \<Rightarrow> int" where
  "month_length lp m =
     (if m = 2 then (if lp then 29 else 28) else if m \<in> {4, 6, 9, 11} then 30 else 31)"

definition zero_instant :: int where
  "zero_instant = - (epoch_days * 86400 * 1000000000)"

definition gotime_of :: "int \<Rightarrow> gotime" where
  "gotime_of ns = (if ns = zero_instant then None else Some ns)"

definition civil_instant :: "int \<Rightarrow> int \<Rightarrow> int \<Rightarrow> int \<Rightarrow> int" where
  "civil_instant y m d secs =
     (days_before_year y + month_starts (leap y) ! nat (m - 1) + d - 1 - epoch_days) * 86400 + secs"

definition read_date :: "string \<Rightarrow> (int \<times> int \<times> int \<times> string) option" where
  "read_date s =
     (case four_digits s of
        None \<Rightarrow> None
      | Some (y, s) \<Rightarrow>
          (case Option.bind (expect (CHR ''-'') s) two_digits of
             None \<Rightarrow> None
           | Some (m, s) \<Rightarrow>
               (case Option.bind (expect (CHR ''-'') s) two_digits of
                  None \<Rightarrow> None
                | Some (d, s) \<Rightarrow>
                    if 1 \<le> m \<and> m \<le> 12 \<and> 1 \<le> d \<and> d \<le> month_length (leap y) m
                    then Some (y, m, d, s) else None)))"

definition read_clock :: "string \<Rightarrow> (int \<times> string) option" where
  "read_clock s =
     (case some_digits s of
        None \<Rightarrow> None
      | Some (h, s) \<Rightarrow>
          (case Option.bind (expect (CHR '':'') s) two_digits of
             None \<Rightarrow> None
           | Some (mi, s) \<Rightarrow>
               (case Option.bind (expect (CHR '':'') s) two_digits of
                  None \<Rightarrow> None
                | Some (sec, s) \<Rightarrow>
                    if h < 24 \<and> mi < 60 \<and> sec < 60 then Some (3600 * h + 60 * mi + sec, s)
                    else None)))"

text \<open>\<open>time.Parse(time.RFC3339, s)\<close>.\<close>

definition parse_rfc3339 :: "string \<Rightarrow> gotime option" where
  "parse_rfc3339 s =
     (case read_date s of
        None \<Rightarrow> None
      | Some (y, m, d, s) \<Rightarrow>
          (case Option.bind (expect (CHR ''T'') s) read_clock of
             None \<Rightarrow> None
           | Some (secs, s) \<Rightarrow>
               (case read_fraction s of
                  (ns, s) \<Rightarrow>
                    (case read_zone s of
                       None \<Rightarrow> None
                     | Some off \<Rightarrow>
                         Some (gotime_of
                           (civil_instant y m d (secs - off) * 1000000000 + ns))))))"

section \<open>The record as it is read\<close>

text \<open>
  A slice of strings keeps, beyond its elements, those of a longer slice it was cut from: the
  decoder reuses them when the same field occurs again.
\<close>

record slice =
  elems :: "string list"
  spare :: "string list"

record wire =
  w_TraceID :: string
  w_SpanID :: string
  w_ParentSpanID :: string
  w_SpanKind :: string
  w_OperationID :: string
  w_Correlation :: string
  w_CorrelationDetail :: string
  w_Target :: string
  w_Tool :: string
  w_StartedAt :: gotime
  w_FinishedAt :: gotime
  w_DurationMS :: int
  w_Status :: string
  w_ErrorType :: string
  w_ErrorCode :: string
  w_ArgumentsFingerprint :: string
  w_ArgumentsFingerprintStatus :: string
  w_ResultFingerprint :: string
  w_ResultFingerprintStatus :: string
  w_ReadOnlyDeclared :: bool
  w_ReadOnlyAnnotationKnown :: bool
  w_AnnotationsVerified :: bool
  w_Source :: source
  w_SeenFrom :: slice
  w_Disagreements :: slice

definition nil_slice :: slice where "nil_slice = \<lparr>elems = [], spare = []\<rparr>"

definition zero_source :: source where
  "zero_source =
     \<lparr>ObserverType = [], ObserverID = [], ObserverVersion = [], Transport = [],
      ServiceName = [], ProtocolVersion = [], NetworkTransport = [], SessionID = []\<rparr>"

definition zero_wire :: wire where
  "zero_wire =
     \<lparr>w_TraceID = [], w_SpanID = [], w_ParentSpanID = [], w_SpanKind = [], w_OperationID = [],
      w_Correlation = [], w_CorrelationDetail = [], w_Target = [], w_Tool = [],
      w_StartedAt = None, w_FinishedAt = None, w_DurationMS = 0, w_Status = [],
      w_ErrorType = [], w_ErrorCode = [], w_ArgumentsFingerprint = [],
      w_ArgumentsFingerprintStatus = [], w_ResultFingerprint = [],
      w_ResultFingerprintStatus = [], w_ReadOnlyDeclared = False,
      w_ReadOnlyAnnotationKnown = False, w_AnnotationsVerified = False,
      w_Source = zero_source, w_SeenFrom = nil_slice, w_Disagreements = nil_slice\<rparr>"

section \<open>Values into fields\<close>

text \<open>\<open>null\<close> leaves a field as it is; for a slice it is the nil slice.\<close>

fun into_string :: "json \<Rightarrow> string \<Rightarrow> string option" where
  "into_string JNull old = Some old"
| "into_string (JStr s) old = Some (unquote s)"
| "into_string _ old = None"

fun into_bool :: "json \<Rightarrow> bool \<Rightarrow> bool option" where
  "into_bool JNull old = Some old"
| "into_bool (JBool b) old = Some b"
| "into_bool _ old = None"

fun into_int64 :: "json \<Rightarrow> int \<Rightarrow> int option" where
  "into_int64 JNull old = Some old"
| "into_int64 (JNum s) old = parse_int64 s"
| "into_int64 _ old = None"

fun into_time :: "json \<Rightarrow> gotime \<Rightarrow> gotime option" where
  "into_time JNull old = Some old"
| "into_time (JStr s) old = parse_rfc3339 s"
| "into_time _ old = None"

text \<open>The elements of an array over those the slice holds already.\<close>

fun into_elems :: "json list \<Rightarrow> string list \<Rightarrow> string list option" where
  "into_elems [] old = Some []"
| "into_elems (v # vs) old =
     (case into_string v (case old of [] \<Rightarrow> [] | s # _ \<Rightarrow> s) of
        None \<Rightarrow> None
      | Some s \<Rightarrow> map_option (Cons s) (into_elems vs (tl old)))"

fun into_slice :: "json \<Rightarrow> slice \<Rightarrow> slice option" where
  "into_slice JNull old = Some nil_slice"
| "into_slice (JArr vs) old =
     (if vs = [] then Some nil_slice
      else map_option (\<lambda>ss. \<lparr>elems = ss, spare = drop (length vs) (elems old @ spare old)\<rparr>)
             (into_elems vs (elems old @ spare old)))"
| "into_slice _ old = None"

section \<open>Names\<close>

text \<open>
  A name matches a field when both fold to the same: letters without case, and the two runes
  beyond ASCII whose fold is an ASCII letter, U+017F (s) and U+212A (k).
\<close>

fun fold_name :: "string \<Rightarrow> string" where
  "fold_name [] = []"
| "fold_name (c # s) =
     (if take 2 (c # s) = [CHR 0xC5, CHR 0xBF] then CHR ''s'' # fold_name (drop 1 s)
      else if take 3 (c # s) = [CHR 0xE2, CHR 0x84, CHR 0xAA] then CHR ''k'' # fold_name (drop 2 s)
      else lower_char c # fold_name s)"

definition lookup_field :: "(string \<times> 'f) list \<Rightarrow> string \<Rightarrow> 'f option" where
  "lookup_field fs key = map_option snd (find (\<lambda>(n, _). n = fold_name (unquote key)) fs)"

text \<open>The members of an object, one after the other; an unknown name is skipped.\<close>

fun decode_members ::
  "(string \<times> 'f) list \<Rightarrow> ('f \<Rightarrow> json \<Rightarrow> 'r \<Rightarrow> 'r option) \<Rightarrow> (string \<times> json) list \<Rightarrow> 'r \<Rightarrow> 'r option" where
  "decode_members fs set_field [] r = Some r"
| "decode_members fs set_field ((k, v) # kvs) r =
     (case lookup_field fs k of
        None \<Rightarrow> decode_members fs set_field kvs r
      | Some f \<Rightarrow>
          (case set_field f v r of
             None \<Rightarrow> None
           | Some r \<Rightarrow> decode_members fs set_field kvs r))"

datatype source_field =
    FObserverType | FObserverID | FObserverVersion | FTransport | FServiceName
  | FProtocolVersion | FNetworkTransport | FSessionID

definition source_tags :: "(string \<times> source_field) list" where
  "source_tags =
     [(''observer_type'', FObserverType), (''observer_id'', FObserverID),
      (''observer_version'', FObserverVersion), (''transport'', FTransport),
      (''service_name'', FServiceName), (''protocol_version'', FProtocolVersion),
      (''network_transport'', FNetworkTransport), (''session_id_diagnostic'', FSessionID)]"

fun set_source_field :: "source_field \<Rightarrow> json \<Rightarrow> source \<Rightarrow> source option" where
  "set_source_field FObserverType v s =
     map_option (\<lambda>x. s\<lparr>ObserverType := x\<rparr>) (into_string v (ObserverType s))"
| "set_source_field FObserverID v s =
     map_option (\<lambda>x. s\<lparr>ObserverID := x\<rparr>) (into_string v (ObserverID s))"
| "set_source_field FObserverVersion v s =
     map_option (\<lambda>x. s\<lparr>ObserverVersion := x\<rparr>) (into_string v (ObserverVersion s))"
| "set_source_field FTransport v s =
     map_option (\<lambda>x. s\<lparr>Transport := x\<rparr>) (into_string v (Transport s))"
| "set_source_field FServiceName v s =
     map_option (\<lambda>x. s\<lparr>ServiceName := x\<rparr>) (into_string v (ServiceName s))"
| "set_source_field FProtocolVersion v s =
     map_option (\<lambda>x. s\<lparr>ProtocolVersion := x\<rparr>) (into_string v (ProtocolVersion s))"
| "set_source_field FNetworkTransport v s =
     map_option (\<lambda>x. s\<lparr>NetworkTransport := x\<rparr>) (into_string v (NetworkTransport s))"
| "set_source_field FSessionID v s =
     map_option (\<lambda>x. s\<lparr>SessionID := x\<rparr>) (into_string v (SessionID s))"

fun into_source :: "json \<Rightarrow> source \<Rightarrow> source option" where
  "into_source JNull old = Some old"
| "into_source (JObj kvs) old = decode_members source_tags set_source_field kvs old"
| "into_source _ old = None"

datatype exec_field =
    FTraceID | FSpanID | FParentSpanID | FSpanKind | FOperationID | FCorrelation
  | FCorrelationDetail | FTarget | FTool | FStartedAt | FFinishedAt | FDurationMS | FStatus
  | FErrorType | FErrorCode | FArgumentsFingerprint | FArgumentsFingerprintStatus
  | FResultFingerprint | FResultFingerprintStatus | FReadOnlyDeclared
  | FReadOnlyAnnotationKnown | FAnnotationsVerified | FSource | FSeenFrom | FDisagreements

definition exec_tags :: "(string \<times> exec_field) list" where
  "exec_tags =
     [(''trace_id'', FTraceID), (''span_id'', FSpanID), (''parent_span_id'', FParentSpanID),
      (''span_kind'', FSpanKind), (''operation_id'', FOperationID),
      (''correlation'', FCorrelation), (''correlation_detail'', FCorrelationDetail),
      (''target'', FTarget), (''tool'', FTool), (''started_at'', FStartedAt),
      (''finished_at'', FFinishedAt), (''duration_ms'', FDurationMS), (''status'', FStatus),
      (''error_type'', FErrorType), (''error_code'', FErrorCode),
      (''arguments_fingerprint'', FArgumentsFingerprint),
      (''arguments_fingerprint_status'', FArgumentsFingerprintStatus),
      (''result_fingerprint'', FResultFingerprint),
      (''result_fingerprint_status'', FResultFingerprintStatus),
      (''read_only_declared'', FReadOnlyDeclared),
      (''read_only_annotation_known'', FReadOnlyAnnotationKnown),
      (''annotations_verified'', FAnnotationsVerified), (''source'', FSource),
      (''seen_from'', FSeenFrom), (''disagreements'', FDisagreements)]"

fun set_exec_field :: "exec_field \<Rightarrow> json \<Rightarrow> wire \<Rightarrow> wire option" where
  "set_exec_field FTraceID v w =
     map_option (\<lambda>x. w\<lparr>w_TraceID := x\<rparr>) (into_string v (w_TraceID w))"
| "set_exec_field FSpanID v w =
     map_option (\<lambda>x. w\<lparr>w_SpanID := x\<rparr>) (into_string v (w_SpanID w))"
| "set_exec_field FParentSpanID v w =
     map_option (\<lambda>x. w\<lparr>w_ParentSpanID := x\<rparr>) (into_string v (w_ParentSpanID w))"
| "set_exec_field FSpanKind v w =
     map_option (\<lambda>x. w\<lparr>w_SpanKind := x\<rparr>) (into_string v (w_SpanKind w))"
| "set_exec_field FOperationID v w =
     map_option (\<lambda>x. w\<lparr>w_OperationID := x\<rparr>) (into_string v (w_OperationID w))"
| "set_exec_field FCorrelation v w =
     map_option (\<lambda>x. w\<lparr>w_Correlation := x\<rparr>) (into_string v (w_Correlation w))"
| "set_exec_field FCorrelationDetail v w =
     map_option (\<lambda>x. w\<lparr>w_CorrelationDetail := x\<rparr>) (into_string v (w_CorrelationDetail w))"
| "set_exec_field FTarget v w =
     map_option (\<lambda>x. w\<lparr>w_Target := x\<rparr>) (into_string v (w_Target w))"
| "set_exec_field FTool v w =
     map_option (\<lambda>x. w\<lparr>w_Tool := x\<rparr>) (into_string v (w_Tool w))"
| "set_exec_field FStartedAt v w =
     map_option (\<lambda>x. w\<lparr>w_StartedAt := x\<rparr>) (into_time v (w_StartedAt w))"
| "set_exec_field FFinishedAt v w =
     map_option (\<lambda>x. w\<lparr>w_FinishedAt := x\<rparr>) (into_time v (w_FinishedAt w))"
| "set_exec_field FDurationMS v w =
     map_option (\<lambda>x. w\<lparr>w_DurationMS := x\<rparr>) (into_int64 v (w_DurationMS w))"
| "set_exec_field FStatus v w =
     map_option (\<lambda>x. w\<lparr>w_Status := x\<rparr>) (into_string v (w_Status w))"
| "set_exec_field FErrorType v w =
     map_option (\<lambda>x. w\<lparr>w_ErrorType := x\<rparr>) (into_string v (w_ErrorType w))"
| "set_exec_field FErrorCode v w =
     map_option (\<lambda>x. w\<lparr>w_ErrorCode := x\<rparr>) (into_string v (w_ErrorCode w))"
| "set_exec_field FArgumentsFingerprint v w =
     map_option (\<lambda>x. w\<lparr>w_ArgumentsFingerprint := x\<rparr>) (into_string v (w_ArgumentsFingerprint w))"
| "set_exec_field FArgumentsFingerprintStatus v w =
     map_option (\<lambda>x. w\<lparr>w_ArgumentsFingerprintStatus := x\<rparr>)
       (into_string v (w_ArgumentsFingerprintStatus w))"
| "set_exec_field FResultFingerprint v w =
     map_option (\<lambda>x. w\<lparr>w_ResultFingerprint := x\<rparr>) (into_string v (w_ResultFingerprint w))"
| "set_exec_field FResultFingerprintStatus v w =
     map_option (\<lambda>x. w\<lparr>w_ResultFingerprintStatus := x\<rparr>)
       (into_string v (w_ResultFingerprintStatus w))"
| "set_exec_field FReadOnlyDeclared v w =
     map_option (\<lambda>x. w\<lparr>w_ReadOnlyDeclared := x\<rparr>) (into_bool v (w_ReadOnlyDeclared w))"
| "set_exec_field FReadOnlyAnnotationKnown v w =
     map_option (\<lambda>x. w\<lparr>w_ReadOnlyAnnotationKnown := x\<rparr>) (into_bool v (w_ReadOnlyAnnotationKnown w))"
| "set_exec_field FAnnotationsVerified v w =
     map_option (\<lambda>x. w\<lparr>w_AnnotationsVerified := x\<rparr>) (into_bool v (w_AnnotationsVerified w))"
| "set_exec_field FSource v w =
     map_option (\<lambda>x. w\<lparr>w_Source := x\<rparr>) (into_source v (w_Source w))"
| "set_exec_field FSeenFrom v w =
     map_option (\<lambda>x. w\<lparr>w_SeenFrom := x\<rparr>) (into_slice v (w_SeenFrom w))"
| "set_exec_field FDisagreements v w =
     map_option (\<lambda>x. w\<lparr>w_Disagreements := x\<rparr>) (into_slice v (w_Disagreements w))"

text \<open>Into a record that is zero; \<open>null\<close> leaves it so.\<close>

definition Unmarshal :: "string \<Rightarrow> wire option" where
  "Unmarshal s =
     (case parse_json s of
        Some JNull \<Rightarrow> Some zero_wire
      | Some (JObj kvs) \<Rightarrow> decode_members exec_tags set_exec_field kvs zero_wire
      | _ \<Rightarrow> None)"

end
