(* ===== verification/JsonStrings.thy ===== *)
theory JsonStrings
  imports JsonDecode
begin

text \<open>
  String literals, numbers and times survive being written and read: the literal of a string is
  read as the string with its malformed bytes replaced, a decimal integer as itself, and a
  time as the same instant.
\<close>

section \<open>Strings\<close>

lemma byte_consts:
  "byte backslash = 92" "byte dquote = 34" "backslash \<noteq> dquote" "dquote \<noteq> backslash"
  by (simp_all add: backslash_def dquote_def byte_def)

lemma byte_inject: "byte c = byte d \<longleftrightarrow> c = d"
  by (simp add: byte_def)

lemma not_special:
  assumes "\<not> byte c < 128"
  shows "c \<noteq> dquote" "c \<noteq> backslash" "\<not> byte c < 32"
  using assms by (auto simp: byte_consts)

lemma lex_string_high: "\<not> byte c < 128 \<Longrightarrow> lex_string (c # s) = map_option (\<lambda>(b, r). (c # b, r)) (lex_string s)"
  by (simp add: not_special)

lemma lex_string_run:
  assumes "\<forall>c \<in> set u. \<not> byte c < 128"
  shows "lex_string (u @ s) = map_option (\<lambda>(b, r). (u @ b, r)) (lex_string s)"
  using assms
proof (induction u)
  case Nil
  show ?case by (simp add: option.map_ident)
next
  case (Cons c u)
  then show ?case
    by (simp del: lex_string.simps add: lex_string_high option.map_comp comp_def case_prod_beta)
qed

lemma utf8_len_lengths:
  assumes "utf8_len (a # s1) = Some n"
  shows "n = 1 \<and> byte a < 128 \<or> n = 2 \<and> s1 \<noteq> [] \<and> in_range 0xC2 0xDF a
    \<or> n = 3 \<and> 2 \<le> length s1 \<and> in_range 0xE0 0xEF a
    \<or> n = 4 \<and> 3 \<le> length s1 \<and> in_range 0xF0 0xF4 a"
proof (cases s1)
  case Nil
  then show ?thesis using assms by (simp add: utf8_len_def split: if_splits)
next
  case (Cons b s2)
  then show ?thesis
    using assms by (cases s2) (clarsimp simp: utf8_len_def split: if_splits list.splits)+
qed

lemma utf8_len_split:
  assumes "utf8_len s = Some n"
  obtains u t where "s = u @ t" "length u = n" "1 \<le> n" "n \<le> 4" "\<forall>t'. utf8_len (u @ t') = Some n"
    "\<not> byte (hd s) < 128 \<longrightarrow> (\<forall>d \<in> set u. \<not> byte d < 128)"
proof -
  note defs = utf8_len_def in_range_def
  obtain a s1 where s: "s = a # s1" using assms by (cases s) (auto simp: utf8_len_def)
  from utf8_len_lengths [OF assms [unfolded s]] show thesis
  proof (elim disjE conjE)
    assume "n = 1" and "byte a < 128"
    then show thesis using that [of "[a]" s1] by (simp add: s defs)
  next
    assume n: "n = 2" "in_range 0xC2 0xDF a" and "s1 \<noteq> []"
    then obtain b s2 where "s1 = b # s2" by (cases s1) auto
    then show thesis using assms n that [of "[a, b]" s2]
      by (simp add: s defs split: if_splits)
  next
    assume n: "n = 3" "in_range 0xE0 0xEF a" and "2 \<le> length s1"
    then obtain b c s3 where "s1 = b # c # s3" by (auto simp: numeral_2_eq_2 Suc_le_length_iff)
    then show thesis using assms n that [of "[a, b, c]" s3]
      by (simp add: s defs split: if_splits)
  next
    assume n: "n = 4" "in_range 0xF0 0xF4 a" and "3 \<le> length s1"
    then obtain b c d s4 where "s1 = b # c # d # s4"
      by (auto simp: numeral_3_eq_3 Suc_le_length_iff)
    then show thesis using assms n that [of "[a, b, c, d]" s4]
      by (simp add: s defs split: if_splits)
  qed
qed

lemma utf8_len_bounds: "utf8_len s = Some n \<Longrightarrow> 1 \<le> n \<and> n \<le> length s \<and> n \<le> 4"
  by (erule utf8_len_split) auto

lemma utf8_len_take: "utf8_len s = Some n \<Longrightarrow> utf8_len (take n s @ t) = Some n"
  by (erule utf8_len_split) auto

lemma utf8_len_high:
  "utf8_len (c # s) = Some n \<Longrightarrow> \<not> byte c < 128 \<Longrightarrow> \<forall>d \<in> set (take n (c # s)). \<not> byte d < 128"
  by (erule utf8_len_split) (metis append_eq_conv_conj list.sel(1))

lemma take_drop_rune:
  assumes "utf8_len (c # s) = Some n"
  shows "take n (c # s) = c # take (n - 1) s" "drop n (c # s) = drop (n - 1) s"
  using utf8_len_bounds [OF assms] by (cases n; simp)+

lemma unquote_rune:
  assumes "utf8_len (c # s) = Some n" and "\<not> byte c < 128"
  shows "unquote (take n (c # s) @ t) = take n (c # s) @ unquote t"
proof -
  have l: "length (take (n - 1) s) = n - 1"
    using utf8_len_bounds [OF assms(1)] by auto
  have "utf8_len (c # take (n - 1) s @ t) = Some n"
    using utf8_len_take [OF assms(1), of t] take_drop_rune [OF assms(1)] by simp
  then have "unquote (c # take (n - 1) s @ t) = take n (c # take (n - 1) s @ t) @ unquote t"
    using assms(2) not_special [OF assms(2)] l by simp
  then show ?thesis
    using l take_drop_rune [OF assms(1)] utf8_len_bounds [OF assms(1)] by (cases n) auto
qed

lemma unquote_u:
  assumes "length h = 4" and "hex4 h < 0xD800 \<or> 0xE000 \<le> hex4 h"
  shows "unquote (backslash # CHR ''u'' # h @ t) = encode_rune (hex4 h) @ unquote t"
  using assms by (auto simp: Let_def)

lemma hex_lower_value: "n < 16 \<Longrightarrow> is_hex (hex_lower n) \<and> hex_value (hex_lower n) = n"
  by (auto simp: hex_lower_def is_hex_def is_digit_def in_range_def hex_value_def)

lemma is_hex_chars:
  "is_hex (CHR ''f'')" "is_hex (CHR ''d'')" "is_hex (CHR ''0'')" "is_hex (CHR ''2'')"
  "is_hex (CHR ''8'')" "is_hex (CHR ''9'')" "hex_value (CHR ''0'') = 0"
  by code_simp+

text \<open>Every piece of an escaped string is read as what it was made from.\<close>

definition piece :: "string \<Rightarrow> string \<Rightarrow> bool" where
  "piece u s \<longleftrightarrow>
     (\<forall>t. unquote (u @ t) = s @ unquote t \<and>
          lex_string (u @ t) = map_option (\<lambda>(b, r). (u @ b, r)) (lex_string t))"

lemma piece_simple:
  assumes "e \<in> set ''bfnrt/'' \<or> e = backslash \<or> e = dquote"
  shows "piece [backslash, e] [unescape e]"
proof -
  have "e \<noteq> CHR ''u''" using assms by (auto simp: backslash_def dquote_def)
  moreover have "escape_length (e # t) = Some 1" for t using assms by (simp add: escape_length_def)
  ultimately show ?thesis by (simp add: piece_def byte_consts)
qed

lemma piece_u:
  assumes "length h = 4" and "list_all is_hex h" and "hex4 h < 0xD800 \<or> 0xE000 \<le> hex4 h"
  shows "piece (backslash # CHR ''u'' # h) (encode_rune (hex4 h))"
proof -
  have "CHR ''u'' \<noteq> backslash \<and> CHR ''u'' \<noteq> dquote" by (simp add: backslash_def dquote_def)
  then have "escape_length (CHR ''u'' # h @ t) = Some 5" for t
    using assms by (simp add: escape_length_def)
  then show ?thesis
    using assms unquote_u [OF assms(1,3)] by (simp add: piece_def byte_consts del: unquote.simps)
qed

lemma piece_plain: "32 \<le> byte c \<Longrightarrow> byte c < 128 \<Longrightarrow> c \<noteq> backslash \<Longrightarrow> c \<noteq> dquote \<Longrightarrow> piece [c] [c]"
  by (simp add: piece_def)

lemma piece_high:
  assumes "utf8_len (c # s) = Some n" and "\<not> byte c < 128"
  shows "piece (take n (c # s)) (take n (c # s))"
  unfolding piece_def
  using unquote_rune [OF assms] lex_string_run [OF utf8_len_high [OF assms]] by blast

lemma char_of_byte: "char_of (byte c) = c"
  by (simp add: byte_def)

lemma char_ofI: "byte c = n \<Longrightarrow> c = char_of n"
  using char_of_byte [of c] by simp

lemma unescape_chars:
  "unescape (CHR ''b'') = char_of (8 :: nat)" "unescape (CHR ''f'') = char_of (12 :: nat)"
  "unescape (CHR ''n'') = char_of (10 :: nat)" "unescape (CHR ''r'') = char_of (13 :: nat)"
  "unescape (CHR ''t'') = char_of (9 :: nat)" "unescape backslash = backslash"
  "unescape dquote = dquote"
  by (simp_all add: unescape_def backslash_def dquote_def)

lemma escape_ascii_short:
  "escape_ascii backslash = [backslash, backslash]" "escape_ascii dquote = [backslash, dquote]"
  "byte c = 8 \<Longrightarrow> escape_ascii c = [backslash, CHR ''b'']"
  "byte c = 12 \<Longrightarrow> escape_ascii c = [backslash, CHR ''f'']"
  "byte c = 10 \<Longrightarrow> escape_ascii c = [backslash, CHR ''n'']"
  "byte c = 13 \<Longrightarrow> escape_ascii c = [backslash, CHR ''r'']"
  "byte c = 9 \<Longrightarrow> escape_ascii c = [backslash, CHR ''t'']"
  by (auto simp: escape_ascii_def byte_consts)

lemma piece_ascii:
  assumes "byte c < 128"
  shows "piece (escape_ascii c) [c]"
proof -
  have hexes: "piece (backslash # CHR ''u'' # [CHR ''0'', CHR ''0'', hex_lower (byte c div 16),
      hex_lower (byte c mod 16)]) [c]"
  proof -
    have d: "byte c div 16 < 16" "byte c mod 16 < 16" using assms by auto
    have "hex4 [CHR ''0'', CHR ''0'', hex_lower (byte c div 16), hex_lower (byte c mod 16)] = byte c"
      using hex_lower_value [OF d(1)] hex_lower_value [OF d(2)] by (simp add: hex4_def is_hex_chars)
    moreover have "encode_rune (byte c) = [c]" using assms by (simp add: encode_rune_def char_of_byte)
    ultimately show ?thesis
      using piece_u [of "[CHR ''0'', CHR ''0'', hex_lower (byte c div 16), hex_lower (byte c mod 16)]"]
        hex_lower_value [OF d(1)] hex_lower_value [OF d(2)] assms by (simp add: is_hex_chars)
  qed
  have e: "piece [backslash, e] [c]" if "c = unescape e" "e \<in> set ''bfnrt/'' \<or> e = backslash \<or> e = dquote" for e
    using piece_simple [OF that(2)] that(1) by simp
  show ?thesis
  proof (cases "c = backslash \<or> c = dquote \<or> byte c \<in> {8, 9, 10, 12, 13}")
    case True
    then consider "c = backslash" | "c = dquote" | "byte c = 8" | "byte c = 9" | "byte c = 10"
      | "byte c = 12" | "byte c = 13" by auto
    then show ?thesis
      using piece_simple [of backslash] piece_simple [of dquote]
      by cases (auto simp: escape_ascii_short char_ofI unescape_chars intro!: e)
  next
    case False
    then show ?thesis
      using hexes piece_plain [of c] assms by (auto simp: escape_ascii_def not_less)
  qed
qed

lemmas hex_eval = hex4_def hex_value_def is_digit_def in_range_def byte_def

lemma piece_replacement: "piece (backslash # ''ufffd'') replacement"
proof -
  have "hex4 ''fffd'' = 0xFFFD" by (simp add: hex_eval)
  moreover have "encode_rune 0xFFFD = replacement" by (simp add: encode_rune_def replacement_def hex_eval byte_inject [symmetric])
  ultimately show ?thesis using piece_u [of "''fffd''"] by (simp add: is_hex_chars)
qed

lemma piece_rune:
  assumes "utf8_len (c # s) = Some n" and "\<not> byte c < 128"
  shows "piece (escape_rune (take n (c # s))) (take n (c # s))"
proof -
  have h: "hex4 ''2028'' = 0x2028" "hex4 ''2029'' = 0x2029"
    "encode_rune 0x2028 = [CHR 0xE2, CHR 0x80, CHR 0xA8]"
    "encode_rune 0x2029 = [CHR 0xE2, CHR 0x80, CHR 0xA9]"
    by (simp_all add: hex_eval encode_rune_def byte_inject [symmetric])
  have "piece (backslash # ''u2028'') [CHR 0xE2, CHR 0x80, CHR 0xA8]"
    "piece (backslash # ''u2029'') [CHR 0xE2, CHR 0x80, CHR 0xA9]"
    using piece_u [of "''2028''"] piece_u [of "''2029''"] by (simp_all add: h is_hex_chars)
  then show ?thesis using piece_high [OF assms] by (simp add: escape_rune_def)
qed

lemma piece_append: "piece u s \<Longrightarrow> piece v t \<Longrightarrow> piece (u @ v) (s @ t)"
  by (simp add: piece_def option.map_comp comp_def case_prod_unfold)

lemma piece_Nil: "piece [] []"
  by (simp add: piece_def option.map_id)

lemma piece_escape: "piece (json_escape s) (to_utf8 s)"
proof (induction s rule: json_escape.induct)
  case (2 c s)
  show ?case
  proof (cases "byte c < 128")
    case True
    then show ?thesis using piece_append [OF piece_ascii [OF True] 2(1) [OF True]] by simp
  next
    case False
    then show ?thesis
    proof (cases "utf8_len (c # s)")
      case None
      then show ?thesis
        using False piece_append [OF piece_replacement 2(2) [OF False None]] by simp
    next
      case (Some n)
      then show ?thesis
        using False piece_append [OF piece_rune [OF Some False] 2(3) [OF False Some]] by simp
    qed
  qed
qed (simp add: piece_Nil)

lemma unquote_escape: "unquote (json_escape s) = to_utf8 s"
  using piece_escape [of s] by (simp add: piece_def) (metis append.right_neutral unquote.simps(1))

lemma lex_string_escape: "lex_string (json_escape s @ dquote # r) = Some (json_escape s, r)"
  using piece_escape [of s] by (simp add: piece_def)

lemma to_utf8_valid: "valid_utf8 s \<Longrightarrow> to_utf8 s = s"
proof (induction s rule: to_utf8.induct)
  case (2 c s)
  then obtain n where n: "utf8_len (c # s) = Some n" "valid_utf8 (drop (n - 1) s)"
    by (auto split: option.splits)
  show ?case
  proof (cases "byte c < 128")
    case True
    then have "n = 1" using n(1) by (simp add: utf8_len_def)
    then show ?thesis using True 2(1) [OF True] n(2) by simp
  next
    case False
    then show ?thesis
      using n 2(3) [OF False n(1)] append_take_drop_id [of n "c # s"] take_drop_rune [OF n(1)]
      by simp
  qed
qed simp

text \<open>Text without bytes beyond ASCII is well formed.\<close>

lemma to_utf8_ascii: "\<forall>c \<in> set s. byte c < 128 \<Longrightarrow> to_utf8 s = s"
  by (induction s) auto

end
