(* ===== verification/JsonTimes.thy ===== *)
theory JsonTimes
  imports JsonDecode
begin

text \<open>
  Numbers and times survive being written and read: a decimal integer is read as itself, and
  the RFC 3339 text of an instant as the same instant. The second rests on the calendar: the
  year and day of the year that \<open>year_day\<close> computes give back the day count.
\<close>

section \<open>Decimal numbers\<close>

lemma is_digit_char [simp]: "(n :: nat) < 10 \<Longrightarrow> is_digit (char_of (48 + n))"
  by (simp add: is_digit_def in_range_def)

lemma digit_value [simp]: "n < 10 \<Longrightarrow> byte (char_of (48 + n :: nat)) - 48 = n"
  by simp

lemma digits_nat_append: "digits_nat (s @ t) acc = digits_nat t (digits_nat s acc)"
  by (induction s arbitrary: acc) auto

lemma digits_nat_shift: "digits_nat s acc = acc * 10 ^ length s + digits_nat s 0"
proof (induction s arbitrary: acc)
  case (Cons c s)
  show ?case
    using Cons [of "10 * acc + (byte c - 48)"] Cons [of "byte c - 48"]
    by (simp add: algebra_simps)
qed simp

lemma digits_nat_zeros: "digits_nat (replicate k (CHR ''0'')) acc = acc * 10 ^ k"
  by (induction k arbitrary: acc) (simp_all add: byte_def)

lemma decimal_nat_digits [simp]: "list_all is_digit (decimal_nat n)"
proof (induction n rule: decimal_nat.induct)
  case (1 n)
  then show ?case by (subst decimal_nat.simps) simp
qed

lemma decimal_nat_not_Nil [simp]: "decimal_nat n \<noteq> []"
  by (subst decimal_nat.simps) simp

lemma digits_decimal_nat [simp]: "digits_nat (decimal_nat n) 0 = n"
proof (induction n rule: decimal_nat.induct)
  case (1 n)
  then show ?case by (subst decimal_nat.simps) (simp add: digits_nat_append)
qed

lemma hd_decimal_nat: "0 < n \<Longrightarrow> hd (decimal_nat n) \<noteq> CHR ''0''"
proof (induction n rule: decimal_nat.induct)
  case (1 n)
  show ?case
  proof (cases "n < 10")
    case True
    have "byte (char_of (48 + n)) \<noteq> byte (CHR ''0'')" using True 1(2) by (simp add: byte_def)
    then have "char_of (48 + n) \<noteq> CHR ''0''" by metis
    then show ?thesis using True by (subst decimal_nat.simps) simp
  next
    case False
    then show ?thesis using 1 by (subst decimal_nat.simps) (simp add: hd_append)
  qed
qed

lemma length_decimal_nat: "n < 10 ^ w \<Longrightarrow> 1 \<le> w \<Longrightarrow> length (decimal_nat n) \<le> w"
proof (induction n arbitrary: w rule: decimal_nat.induct)
  case (1 n)
  show ?case
  proof (cases "n < 10")
    case True
    then show ?thesis using 1(3) by (subst decimal_nat.simps) simp
  next
    case False
    then obtain v where w: "w = Suc v" "1 \<le> v" using 1(2,3) by (cases w; cases "w - 1") auto
    then have "n div 10 < 10 ^ v" using 1(2) by (simp add: less_mult_imp_div_less mult.commute)
    then show ?thesis using 1(1) [OF False _ w(2)] False w by (subst decimal_nat.simps) simp
  qed
qed

lemma decimal_sign: "strip_sign signs (decimal_nat n) = decimal_nat n" if "list_all (\<lambda>c. \<not> is_digit c) signs"
proof -
  obtain c s where "decimal_nat n = c # s" by (cases "decimal_nat n") auto
  moreover from this have "is_digit c" using decimal_nat_digits [of n] by simp
  ultimately show ?thesis using that by (auto simp: strip_sign_def list_all_iff)
qed

lemma sign_chars: "list_all (\<lambda>c. \<not> is_digit c) ''+-''" "list_all (\<lambda>c. \<not> is_digit c) ''-''"
  by code_simp+

lemma parse_decimal [simp]: "is_int64 i \<Longrightarrow> parse_int64 (decimal_int i) = Some i"
proof -
  have "\<not> has_prefix ''-'' (decimal_nat n)" for n
    using decimal_sign [OF sign_chars(2), of n]
    by (cases "decimal_nat n") (auto simp: has_prefix_def strip_sign_def)
  moreover have "strip_sign ''+-'' (CHR ''-'' # s) = s" "has_prefix ''-'' (CHR ''-'' # s)" for s
    by (simp_all add: strip_sign_def has_prefix_def)
  ultimately show "is_int64 i \<Longrightarrow> parse_int64 (decimal_int i) = Some i"
    by (simp add: parse_int64_def decimal_int_def decimal_sign [OF sign_chars(1)])
qed

lemma takeWhile_digits: "list_all P s \<Longrightarrow> takeWhile P s = s" "list_all P s \<Longrightarrow> dropWhile P s = []"
  by (auto simp: list_all_iff)

lemma valid_decimal [simp]: "valid_number (decimal_int i)"
proof -
  have d: "hd (decimal_nat n) = CHR ''0'' \<Longrightarrow> tl (decimal_nat n) = []" for n
    using hd_decimal_nat [of n] by (cases "n = 0") (simp_all add: decimal_nat.simps)
  have "strip_sign ''-'' (decimal_int i) = decimal_nat (nat \<bar>i\<bar>)"
    by (simp add: decimal_int_def decimal_sign [OF sign_chars(2)]) (simp add: strip_sign_def)
  then show ?thesis
    using d by (simp add: valid_number_def Let_def takeWhile_digits valid_fraction_def)
qed

lemma num_chars_decimal: "list_all num_char (decimal_int i)"
proof -
  have "list_all num_char (decimal_nat n)" for n
    using decimal_nat_digits [of n] by (auto simp: list_all_iff num_char_def)
  then show ?thesis by (simp add: decimal_int_def num_char_def)
qed

section \<open>Padded numbers\<close>

lemma pad_read:
  assumes "0 \<le> i" and "i < 10 ^ w" and "1 \<le> w"
  shows "length (pad w i) = w" "list_all is_digit (pad w i)" "int (digits_nat (pad w i) 0) = i"
proof -
  have "nat i < 10 ^ w" using assms(1,2) by (simp add: nat_less_iff)
  then have l: "length (decimal_nat (nat i)) \<le> w" using assms(3) by (rule length_decimal_nat)
  then show "length (pad w i) = w" by (simp add: pad_def Let_def)
  have "is_digit (CHR ''0'')" by code_simp
  then show "list_all is_digit (pad w i)"
    using decimal_nat_digits [of "nat i"] by (auto simp: pad_def Let_def list_all_iff)
  show "int (digits_nat (pad w i) 0) = i"
    using assms(1) by (simp add: pad_def Let_def digits_nat_append digits_nat_zeros)
qed

lemma two_digits_pad: "0 \<le> i \<Longrightarrow> i < 100 \<Longrightarrow> two_digits (pad 2 i @ s) = Some (i, s)"
  using pad_read [of i 2] by (simp add: two_digits_def)

lemma some_digits_pad: "0 \<le> i \<Longrightarrow> i < 100 \<Longrightarrow> some_digits (pad 2 i @ s) = Some (i, s)"
  by (simp add: some_digits_def two_digits_pad)

lemma four_digits_pad: "0 \<le> i \<Longrightarrow> i < 10000 \<Longrightarrow> four_digits (pad 4 i @ s) = Some (i, s)"
  using pad_read [of i 4] by (simp add: four_digits_def)

lemma strip_zeros_split:
  obtains k where "s = strip_zeros s @ replicate k (CHR ''0'')"
proof -
  let ?z = "\<lambda>c. c = CHR ''0''"
  have "takeWhile ?z (rev s) = replicate (length (takeWhile ?z (rev s))) (CHR ''0'')"
    by (metis (full_types) replicate_eqI set_takeWhileD)
  then have "s = strip_zeros s @ replicate (length (takeWhile ?z (rev s))) (CHR ''0'')"
    unfolding strip_zeros_def
    by (metis rev_append rev_replicate rev_rev_ident takeWhile_dropWhile_id)
  then show thesis by (rule that)
qed

lemma read_fraction_text:
  assumes "0 \<le> ns" and "ns < 1000000000"
  shows "read_fraction (fraction ns @ ''Z'') = (ns, ''Z'')"
proof (cases "ns = 0")
  case True
  then show ?thesis by (simp add: fraction_def read_fraction_def)
next
  case False
  define t where "t = strip_zeros (pad 9 ns)"
  obtain k where k: "pad 9 ns = t @ replicate k (CHR ''0'')"
    unfolding t_def by (rule strip_zeros_split)
  have p: "length (pad 9 ns) = 9" "list_all is_digit (pad 9 ns)" "int (digits_nat (pad 9 ns) 0) = ns"
    using pad_read [of ns 9] assms by simp_all
  then have l: "length t + k = 9" and d: "list_all is_digit t" by (simp_all add: k)
  have v: "int (digits_nat t 0) * 10 ^ k = ns"
    using p(3) by (simp add: k digits_nat_append digits_nat_zeros)
  then have "t \<noteq> []" using False by auto
  moreover have "takeWhile is_digit (t @ ''Z'') = t" "dropWhile is_digit (t @ ''Z'') = ''Z''"
  proof -
    have "\<not> is_digit (CHR ''Z'')" by code_simp
    then show "takeWhile is_digit (t @ ''Z'') = t" "dropWhile is_digit (t @ ''Z'') = ''Z''"
      using d by (simp_all add: takeWhile_append2 dropWhile_append2 list_all_iff)
  qed
  moreover have "9 - length t = k" "take 9 t = t" using l by auto
  ultimately show ?thesis
    using False v by (simp add: fraction_def read_fraction_def t_def [symmetric] Let_def)
qed

section \<open>The calendar\<close>

text \<open>
  A day count as 400 years, centuries, cycles of four years and years. The last century of
  400 years and the last year of four have a day more.
\<close>

lemma year_day_parts:
  assumes "year_day d = (y, yd)"
  obtains a b c e r where "y = 400 * a + 100 * b + 4 * c + e + 1" "yd = r - 365 * e"
    "d = 146097 * a + 36524 * b + 1461 * c + r" "0 \<le> b" "b \<le> 3" "0 \<le> c" "c \<le> 24" "0 \<le> e" "e \<le> 3"
    "365 * e \<le> r" "r < 1461" "e = 3 \<or> r < 365 * e + 365" "b = 3 \<or> 1461 * c + r < 36524"
proof -
  define a d1 where a: "a = d div 146097" and d1: "d1 = d mod 146097"
  define b d2 where b: "b = min 3 (d1 div 36524)" and d2: "d2 = d1 - 36524 * b"
  define c r where c: "c = d2 div 1461" and r: "r = d2 mod 1461"
  define e where e: "e = min 3 (r div 365)"
  have "year_day d = (400 * a + 100 * b + 4 * c + e + 1, r - 365 * e)"
    unfolding year_day_def Let_def a d1 b d2 c r e ..
  then have y: "y = 400 * a + 100 * b + 4 * c + e + 1" "yd = r - 365 * e" using assms by auto
  have d: "0 \<le> d1" "d1 < 146097" "d = 146097 * a + d1" by (simp_all add: a d1)
  have b': "0 \<le> b" "b \<le> 3" "0 \<le> d2" "d2 \<le> 36524" "b = 3 \<or> d2 < 36524"
    using d unfolding d2 b min_def by (auto split: if_split)
  have c': "0 \<le> c" "c \<le> 24" "0 \<le> r" "r < 1461" "d2 = 1461 * c + r"
    using b' by (auto simp: c r)
  have e': "0 \<le> e" "e \<le> 3" "365 * e \<le> r" "e = 3 \<or> r < 365 * e + 365"
    using c' unfolding e min_def by (auto split: if_split)
  show thesis by (rule that [OF y _ b'(1,2) c'(1,2) e'(1,2,3) c'(4) e'(4)]) (use d b' c' d2 in auto)
qed

lemma year_day_inverse:
  assumes "year_day d = (y, yd)"
  shows "days_before_year y + yd = d"
  using assms
proof (rule year_day_parts)
  fix a b c e r :: int
  assume y: "y = 400 * a + 100 * b + 4 * c + e + 1" "yd = r - 365 * e"
    and d: "d = 146097 * a + 36524 * b + 1461 * c + r"
    and bounds: "0 \<le> b" "b \<le> 3" "0 \<le> c" "c \<le> 24" "0 \<le> e" "e \<le> 3"
  have "(y - 1) div 4 = 100 * a + 25 * b + c" "(y - 1) div 100 = 4 * a + b" "(y - 1) div 400 = a"
    using y(1) bounds by linarith+
  then show ?thesis using y d by (simp add: days_before_year_def)
qed

lemma year_day_range:
  assumes "year_day d = (y, yd)"
  shows "0 \<le> yd" "yd < (if leap y then 366 else 365)"
proof -
  from assms obtain a b c e r where y: "y = 400 * a + 100 * b + 4 * c + e + 1" "yd = r - 365 * e"
    and b: "0 \<le> b" "b \<le> 3" and c: "0 \<le> c" "c \<le> 24" and e: "0 \<le> e" "e \<le> 3" "365 * e \<le> r"
      "r < 1461" "e = 3 \<or> r < 365 * e + 365" and last: "b = 3 \<or> 1461 * c + r < 36524"
    by (rule year_day_parts)
  show "0 \<le> yd" using e y by simp
  have "leap y" if r: "e = 3" "r = 1460"
  proof -
    have y4: "y = 4 * (100 * a + 25 * b + c + 1)" using y(1) r(1) by simp
    have "y mod 100 \<noteq> 0 \<or> y mod 400 = 0"
    proof (cases "c = 24")
      case True
      then have "b = 3" using last r by simp
      then have "y = 400 * (a + 1)" using y(1) r(1) True by simp
      then show ?thesis by simp
    next
      case False
      have "y = (4 * c + 4) + (4 * a + b) * 100" using y(1) r(1) by simp
      then have "y mod 100 = (4 * c + 4) mod 100" by (metis mod_mult_self1)
      then show ?thesis using False c by simp
    qed
    then show ?thesis using y4 by (simp add: leap_def)
  qed
  moreover have "r \<noteq> 1460 \<Longrightarrow> r < 1460" using e by linarith
  ultimately show "yd < (if leap y then 366 else 365)"
    using e y(2) by (cases "r = 1460"; cases "e = 3") auto
qed

lemma last_takeWhile_nth: "takeWhile P xs \<noteq> [] \<Longrightarrow> last (takeWhile P xs) = xs ! (length (takeWhile P xs) - 1)"
  by (metis diff_less last_conv_nth length_greater_0_conv takeWhile_nth zero_less_one)

lemma sorted_filter_le: "sorted xs \<Longrightarrow> filter (\<lambda>m. m \<le> (x :: int)) xs = takeWhile (\<lambda>m. m \<le> x) xs"
proof (induction xs)
  case (Cons a xs)
  have "filter (\<lambda>m. m \<le> x) xs = []" if "\<not> a \<le> x"
    using that Cons(2) by (auto simp: filter_empty_conv)
  then show ?case using Cons by (cases "a \<le> x") auto
qed simp

lemma month_starts_facts:
  "length (month_starts lp) = 12" "sorted (month_starts lp)" "month_starts lp ! 0 = 0"
  by (simp_all add: month_starts_def)

lemma month_lengths:
  assumes "n < 12"
  shows "month_starts lp ! n + month_length lp (int n + 1) =
    (if n = 11 then if lp then 366 else 365 else month_starts lp ! Suc n)"
proof -
  have "n \<in> set [0..<12]" using assms by simp
  then show ?thesis by (auto simp: upt_rec month_starts_def month_length_def)
qed

lemma month_day_inverse:
  assumes "month_day lp yd = (m, d)" and "0 \<le> yd" and "yd < (if lp then 366 else 365)"
  shows "1 \<le> m" "m \<le> 12" "1 \<le> d" "d \<le> month_length lp m" "month_starts lp ! nat (m - 1) + d - 1 = yd"
proof -
  let ?s = "month_starts lp"
  define before where "before = takeWhile (\<lambda>k. k \<le> yd) ?s"
  define n where "n = length before - 1"
  have md: "m = int (length before)" "d = yd - last before + 1"
    using assms(1) by (auto simp: month_day_def before_def sorted_filter_le month_starts_facts Let_def)
  have ne: "before \<noteq> []"
    using assms(2) month_starts_facts(1,3) [of lp] by (cases ?s) (simp_all add: before_def)
  have le: "length before \<le> 12"
    using length_takeWhile_le [of _ ?s] by (simp add: before_def month_starts_facts)
  then have n: "m = int n + 1" "n < 12" using ne by (simp_all add: md n_def Suc_le_eq)
  have l: "last before = ?s ! n" unfolding before_def n_def
    by (rule last_takeWhile_nth) (use ne in \<open>simp add: before_def\<close>)
  have "last before \<le> yd" using ne last_in_set set_takeWhileD unfolding before_def by fastforce
  moreover have "yd < ?s ! n + month_length lp m"
  proof (cases "n = 11")
    case True
    then show ?thesis using month_lengths [OF n(2), of lp] n(1) assms(3) by simp
  next
    case False
    then have "length before < length ?s" using n le by (simp add: month_starts_facts n_def)
    then have "\<not> ?s ! length before \<le> yd"
      unfolding before_def by (rule nth_length_takeWhile)
    moreover have "Suc n = length before" using ne by (simp add: n_def)
    ultimately show ?thesis using month_lengths [OF n(2), of lp] n(1) False by simp
  qed
  ultimately show "1 \<le> d" "d \<le> month_length lp m" using l by (simp_all add: md)
  show "1 \<le> m" "m \<le> 12" using n by simp_all
  show "?s ! nat (m - 1) + d - 1 = yd" using n l by (simp add: md(2))
qed

section \<open>Times\<close>

lemma read_date_text:
  assumes "0 \<le> y" "y \<le> 9999" "1 \<le> m" "m \<le> 12" "1 \<le> d" "d \<le> month_length (leap y) m"
  shows "read_date (pad 4 y @ ''-'' @ pad 2 m @ ''-'' @ pad 2 d @ s) = Some (y, m, d, s)"
proof -
  have "month_length (leap y) m \<le> 31" by (simp add: month_length_def)
  then show ?thesis
    using assms by (simp add: read_date_def four_digits_pad expect_def two_digits_pad)
qed

lemma read_clock_text:
  assumes "0 \<le> t" and "t < 86400"
  shows "read_clock (pad 2 (t div 3600) @ '':'' @ pad 2 (t mod 3600 div 60) @ '':'' @ pad 2 (t mod 60) @ s)
    = Some (t, s)"
proof -
  have "0 \<le> t mod 3600" "t mod 3600 < 3600" by simp_all
  then have b: "t div 3600 < 24" "t mod 3600 div 60 < 60" "0 \<le> t div 3600" "0 \<le> t mod 3600 div 60"
    using assms by linarith+
  have "3600 * (t div 3600) + 60 * (t mod 3600 div 60) + t mod 60 = t"
  proof -
    have "t mod 3600 mod 60 = t mod 60" by (simp add: mod_mod_cancel)
    then have "60 * (t mod 3600 div 60) + t mod 60 = t mod 3600"
      using mult_div_mod_eq [of 60 "t mod 3600"] by simp
    then show ?thesis using mult_div_mod_eq [of 3600 t] by linarith
  qed
  moreover have "t mod 60 < 100"
    using pos_mod_bound [of 60 t] by linarith
  then have "two_digits (pad 2 (t mod 60) @ s) = Some (t mod 60, s)"
    by (intro two_digits_pad) simp_all
  ultimately show ?thesis
    using b by (simp add: read_clock_def some_digits_pad expect_def two_digits_pad)
qed

theorem parse_rfc3339_text:
  assumes "0 \<le> time_year ns" and "time_year ns \<le> 9999"
  shows "parse_rfc3339 (rfc3339 ns) = Some (gotime_of ns)"
proof -
  define secs where "secs = ns div 1000000000"
  obtain y yd where y: "year_day (secs div 86400 + epoch_days) = (y, yd)" by fastforce
  obtain m d where md: "month_day (leap y) yd = (m, d)" by fastforce
  note mdi = month_day_inverse [OF md year_day_range [OF y]]
  have yy: "0 \<le> y" "y \<le> 9999" using assms y by (simp_all add: time_year_def secs_def)
  have "days_before_year y + month_starts (leap y) ! nat (m - 1) + d - 1 - epoch_days = secs div 86400"
    using mdi(5) year_day_inverse [OF y] by simp
  then have "civil_instant y m d (secs mod 86400) = secs" by (simp add: civil_instant_def)
  then have "civil_instant y m d (secs mod 86400) * 1000000000 + ns mod 1000000000 = ns"
    by (simp add: secs_def)
  moreover have "read_zone ''Z'' = Some 0" by (simp add: read_zone_def)
  ultimately show ?thesis
    using read_date_text [OF yy mdi(1-4)] read_clock_text [of "secs mod 86400"]
      read_fraction_text [of "ns mod 1000000000"]
    by (simp add: parse_rfc3339_def rfc3339_def Let_def secs_def [symmetric] y md expect_def)
qed

end
