(* ===== verification/JsonRoundtrip.thy ===== *)
theory JsonRoundtrip
  imports JsonStrings JsonTimes
begin

text \<open>
  Marshal followed by Unmarshal. A record is first written as a syntax tree whose text is what
  \<open>Marshal\<close> prints; the lexer and the stack machine give the tree back, and decoding the tree
  gives the record as Go holds it after reading: \<open>wire_of\<close>.
\<close>

section \<open>Printing and parsing syntax trees\<close>

fun json_text :: "json \<Rightarrow> string" where
  "json_text JNull = ''null''"
| "json_text (JBool b) = json_bool b"
| "json_text (JNum s) = s"
| "json_text (JStr s) = dquote # s @ [dquote]"
| "json_text (JArr vs) = ''['' @ join_with '','' (map json_text vs) @ '']''"
| "json_text (JObj kvs) =
     ''{'' @ join_with '','' (map (\<lambda>(k, v). dquote # k @ [dquote] @ '':'' @ json_text v) kvs) @ ''}''"

fun sep_tokens :: "token list list \<Rightarrow> token list" where
  "sep_tokens [] = []"
| "sep_tokens [ts] = ts"
| "sep_tokens (ts # us # tss) = ts @ Comma # sep_tokens (us # tss)"

fun json_tokens :: "json \<Rightarrow> token list" where
  "json_tokens JNull = [NullTok]"
| "json_tokens (JBool b) = [if b then TrueTok else FalseTok]"
| "json_tokens (JNum s) = [NumTok s]"
| "json_tokens (JStr s) = [StrTok s]"
| "json_tokens (JArr vs) = BracketOpen # sep_tokens (map json_tokens vs) @ [BracketClose]"
| "json_tokens (JObj kvs) =
     BraceOpen # sep_tokens (map (\<lambda>(k, v). StrTok k # Colon # json_tokens v) kvs) @ [BraceClose]"

definition good_literal :: "string \<Rightarrow> bool" where
  "good_literal s \<longleftrightarrow> (\<forall>r. lex_string (s @ dquote # r) = Some (s, r))"

text \<open>Trees whose literals are well formed and that are not nested too deeply below \<open>d\<close> others.\<close>

fun printable_tree :: "nat \<Rightarrow> json \<Rightarrow> bool" where
  "printable_tree d JNull = True"
| "printable_tree d (JBool b) = True"
| "printable_tree d (JNum s) = (s \<noteq> [] \<and> valid_number s \<and> list_all num_char s)"
| "printable_tree d (JStr s) = good_literal s"
| "printable_tree d (JArr vs) = (d < 10000 \<and> (\<forall>v \<in> set vs. printable_tree (Suc d) v))"
| "printable_tree d (JObj kvs) =
     (d < 10000 \<and> (\<forall>(k, v) \<in> set kvs. good_literal k \<and> printable_tree (Suc d) v))"

declare lex_tokens.simps(2) [simp del]

lemmas lex_step = lex_tokens.simps(2)

lemma punctuation_chars:
  "json_space (CHR ''['') = False" "json_space (CHR '']'') = False" "json_space (CHR ''{'') = False"
  "json_space (CHR ''}'') = False" "json_space (CHR '','') = False" "json_space (CHR '':'') = False"
  "json_space (CHR ''t'') = False" "json_space (CHR ''f'') = False" "json_space (CHR ''n'') = False"
  "json_space dquote = False" "punctuation dquote = None"
  "num_char (CHR '']'') = False" "num_char (CHR ''}'') = False" "num_char (CHR '','') = False"
  by code_simp+

lemma lex_punctuation [simp]:
  "lex_tokens (CHR ''['' # s) = map_option (Cons BracketOpen) (lex_tokens s)"
  "lex_tokens (CHR '']'' # s) = map_option (Cons BracketClose) (lex_tokens s)"
  "lex_tokens (CHR ''{'' # s) = map_option (Cons BraceOpen) (lex_tokens s)"
  "lex_tokens (CHR ''}'' # s) = map_option (Cons BraceClose) (lex_tokens s)"
  "lex_tokens (CHR '','' # s) = map_option (Cons Comma) (lex_tokens s)"
  "lex_tokens (CHR '':'' # s) = map_option (Cons Colon) (lex_tokens s)"
  by (simp_all add: lex_step punctuation_chars)

lemma lex_literals:
  "lex_tokens (''null'' @ s) = map_option (Cons NullTok) (lex_tokens s)"
  "lex_tokens (''true'' @ s) = map_option (Cons TrueTok) (lex_tokens s)"
  "lex_tokens (''false'' @ s) = map_option (Cons FalseTok) (lex_tokens s)"
  by (simp_all add: lex_step punctuation_chars has_prefix_def dquote_def)

lemma lex_literal_string:
  assumes "good_literal k"
  shows "lex_tokens (dquote # k @ dquote # s) = map_option (Cons (StrTok k)) (lex_tokens s)"
  using assms by (simp add: lex_step punctuation_chars good_literal_def del: punctuation.simps lex_string.simps)

lemma num_char_not:
  assumes "num_char c"
  shows "\<not> json_space c" "punctuation c = None" "c \<noteq> dquote" "c \<noteq> CHR ''t''" "c \<noteq> CHR ''f''" "c \<noteq> CHR ''n''"
proof -
  have "byte c \<in> {43, 45, 46, 69, 101} \<or> 48 \<le> byte c \<and> byte c \<le> 57"
    using assms by (auto simp: num_char_def is_digit_def in_range_def byte_def)
  then have "\<not> json_space c \<and> byte c \<notin> {34, 116, 102, 110, 91, 93, 123, 125, 44, 58}"
    by (auto simp: json_space_def)
  then show "\<not> json_space c" "punctuation c = None" "c \<noteq> dquote" "c \<noteq> CHR ''t''" "c \<noteq> CHR ''f''" "c \<noteq> CHR ''n''"
    by (auto simp: dquote_def byte_def)
qed

lemma lex_number:
  assumes "s \<noteq> []" and "valid_number s" and "list_all num_char s" and "r = [] \<or> \<not> num_char (hd r)"
  shows "lex_tokens (s @ r) = map_option (Cons (NumTok s)) (lex_tokens r)"
proof -
  obtain c t where s: "s = c # t" using assms(1) by (cases s) auto
  have c: "num_char c" using assms(3) s by simp
  have w: "takeWhile num_char (s @ r) = s" "dropWhile num_char (s @ r) = r"
    using assms(3,4) by (cases r; auto simp: takeWhile_append2 dropWhile_append2 list_all_iff)+
  show ?thesis
    using c w assms(2) num_char_not [OF c]
    by (simp add: s lex_step has_prefix_def del: punctuation.simps takeWhile.simps dropWhile.simps)
qed

abbreviation reads_as :: "string \<Rightarrow> token list \<Rightarrow> bool" where
  "reads_as s ts \<equiv>
     (\<forall>r. r = [] \<or> \<not> num_char (hd r) \<longrightarrow> lex_tokens (s @ r) = map_option ((@) ts) (lex_tokens r))"

lemma lex_join:
  assumes "\<forall>x \<in> set xs. reads_as (f x) (g x)" and "\<not> num_char c"
  shows "lex_tokens (join_with '','' (map f xs) @ c # r) =
    map_option ((@) (sep_tokens (map g xs))) (lex_tokens (c # r))"
  using assms(1)
proof (induction xs rule: induct_list012)
  case 1
  then show ?case by (simp add: option.map_ident)
next
  case (2 x)
  then show ?case using assms(2) by simp
next
  case (3 x y zs)
  then have "lex_tokens (f x @ '','' @ join_with '','' (map f (y # zs)) @ c # r) =
      map_option ((@) (g x)) (lex_tokens ('','' @ join_with '','' (map f (y # zs)) @ c # r))"
    by (simp add: punctuation_chars)
  then show ?case using 3 by (simp add: option.map_comp comp_def)
qed

lemma append_member: "(\<lambda>x. a # b # ts @ x) = (@) (a # b # ts)"
  by auto

lemma append_one [simp]: "(@) [t] = (#) t"
  by auto

lemma lex_tree: "printable_tree d v \<Longrightarrow> reads_as (json_text v) (json_tokens v)"
proof (induction v arbitrary: d)
  case (JBool b)
  then show ?case using lex_literals by (simp add: json_bool_def) 
next
  case (JNum s)
  then show ?case using lex_number [of s] by (simp)
next
  case (JStr s)
  then show ?case using lex_literal_string [of s] by (simp)
next
  case (JArr vs)
  then have "\<forall>v \<in> set vs. reads_as (json_text v) (json_tokens v)" by (simp) blast
  then show ?case
    using lex_join [of vs json_text json_tokens "CHR '']''"]
    by (simp add: punctuation_chars option.map_comp comp_def)
next
  case (JObj kvs)
  let ?f = "\<lambda>(k, v). dquote # k @ [dquote] @ '':'' @ json_text v"
  let ?g = "\<lambda>(k, v). StrTok k # Colon # json_tokens v"
  have member: "reads_as (?f (k, v)) (?g (k, v))" if "(k, v) \<in> set kvs" for k v
  proof -
    have "good_literal k" "printable_tree (Suc d) v" using JObj(2) that by auto
    then show ?thesis
      using JObj(1) [OF that, of v "Suc d"] lex_literal_string [of k]
      by (simp add: option.map_comp comp_def snds.simps append_member)
  qed
  have "\<forall>x \<in> set kvs. reads_as (?f x) (?g x)"
  proof
    fix x
    assume x: "x \<in> set kvs"
    obtain k v where "x = (k, v)" by fastforce
    then show "reads_as (?f x) (?g x)" using member [of k v] x by blast
  qed
  then show ?case
    using lex_join [of kvs ?f ?g "CHR ''}''"]
    by (simp add: punctuation_chars option.map_comp comp_def)
qed (use lex_literals in \<open>simp\<close>)

lemma may_open_iff: "may_open st \<longleftrightarrow> length st < 10000"
  by (simp add: may_open_def)

lemma scan_tree:
  assumes "printable_tree (length st) v" and "m = WantValue \<or> m = WantFirst"
  shows "scan_tokens (json_tokens v @ ts) (m, st) = scan_tokens ts (complete_value v st)"
  using assms
proof (induction v arbitrary: st m ts)
  case (JArr vs)
  have elems: "scan_tokens (sep_tokens (map json_tokens us) @ BracketClose # ts) (m, InArray acc # st)
      = scan_tokens ts (complete_value (JArr (acc @ us)) st)"
    if "us \<noteq> []" "set us \<subseteq> set vs" "m = WantValue \<or> m = WantFirst" for us acc m
    using that
  proof (induction us arbitrary: acc m rule: induct_list012)
    case (2 x)
    then show ?case using JArr(1) [of x "InArray acc # st" m] JArr(2) by simp
  next
    case (3 x y zs)
    then show ?case
      using JArr(1) [of x "InArray acc # st" m] JArr(2) 3(2) [of WantValue "acc @ [x]"] by simp
  qed simp
  then show ?case
    using elems [of vs WantFirst "[]"] JArr(2,3) by (cases "vs = []") (auto simp: may_open_iff)
next
  case (JObj kvs)
  let ?g = "\<lambda>(k, v). StrTok k # Colon # json_tokens v"
  have member: "scan_tokens (json_tokens v @ us) (WantValue, InMember acc k # st)
      = scan_tokens us (AfterMember (acc @ [(k, v)]), st)" if "(k, v) \<in> set kvs" for k v us acc
    using JObj(1) [OF that, of v "InMember acc k # st" WantValue us] JObj(2) that
    by (auto simp: snds.simps)
  have members: "scan_tokens (sep_tokens (map ?g us) @ BraceClose # ts) (m, st)
      = scan_tokens ts (complete_value (JObj (acc @ us)) st)"
    if "us \<noteq> []" "set us \<subseteq> set kvs" "m = WantKey acc \<or> m = WantFirstKey \<and> acc = []" for us acc m
    using that
  proof (induction us arbitrary: acc m rule: induct_list012)
    case (2 x)
    obtain k v where x: "x = (k, v)" by fastforce
    then show ?case using 2 member [of k v] by auto
  next
    case (3 x y zs)
    obtain k v where x: "x = (k, v)" by fastforce
    then show ?case using 3(3-) member [of k v] 3(2) [of "WantKey (acc @ [(k, v)])" "acc @ [(k, v)]"] by auto
  qed simp
  then show ?case
    using members [of kvs WantFirstKey "[]"] JObj(2,3) by (cases "kvs = []") (auto simp: may_open_iff)
qed auto

theorem parse_json_text:
  assumes "printable_tree 0 v"
  shows "parse_json (json_text v) = Some v"
proof -
  have "lex_tokens (json_text v) = Some (json_tokens v)"
    using lex_tree [OF assms] by simp
  moreover have "scan_tokens (json_tokens v) (WantValue, []) = Some (Finished v, [])"
    using scan_tree [of "[]" v WantValue "[]"] assms by simp
  ultimately show ?thesis by (simp add: parse_json_def)
qed

text \<open>A line end after the text, as an encoder writes it, does not matter.\<close>

lemma decimal_int_nonempty [simp]: "decimal_int i \<noteq> []"
  by (simp add: decimal_int_def)

lemma parse_json_line:
  assumes "printable_tree 0 v"
  shows "parse_json (json_text v @ [CHR 0x0A]) = Some v"
proof -
  have sp: "json_space (CHR 0x0A)" "\<not> num_char (CHR 0x0A)" by code_simp+
  then have "lex_tokens [CHR 0x0A] = Some []" by (simp add: lex_step)
  then have "lex_tokens (json_text v @ [CHR 0x0A]) = Some (json_tokens v)"
    using lex_tree [OF assms] sp by simp
  moreover have "scan_tokens (json_tokens v) (WantValue, []) = Some (Finished v, [])"
    using scan_tree [of "[]" v WantValue "[]"] assms by simp
  ultimately show ?thesis by (simp add: parse_json_def)
qed

section \<open>The record as a tree\<close>

definition str_tree :: "string \<Rightarrow> json" where
  "str_tree s = JStr (json_escape s)"

definition opt_tree :: "string \<Rightarrow> string \<Rightarrow> (string \<times> json) list" where
  "opt_tree k s = (if s = [] then [] else [(k, str_tree s)])"

definition opt_list_tree :: "string \<Rightarrow> string list \<Rightarrow> (string \<times> json) list" where
  "opt_list_tree k ss = (if ss = [] then [] else [(k, JArr (map str_tree ss))])"

definition obj_tree :: "(string \<times> json) list \<Rightarrow> json" where
  "obj_tree kvs = JObj (map (\<lambda>(k, v). (json_escape k, v)) kvs)"

definition source_tree :: "source \<Rightarrow> (string \<times> json) list" where
  "source_tree src =
     [(''observer_type'', str_tree (ObserverType src))] @
     opt_tree ''observer_id'' (ObserverID src) @
     opt_tree ''observer_version'' (ObserverVersion src) @
     [(''transport'', str_tree (Transport src))] @
     opt_tree ''service_name'' (ServiceName src) @
     opt_tree ''protocol_version'' (ProtocolVersion src) @
     opt_tree ''network_transport'' (NetworkTransport src) @
     opt_tree ''session_id_diagnostic'' (SessionID src)"

definition execution_tree ::
  "(string \<Rightarrow> string) \<Rightarrow> execution \<Rightarrow> string \<Rightarrow> string \<Rightarrow> (string \<times> json) list" where
  "execution_tree quote ex started finished =
     opt_tree ''trace_id'' (TraceID ex) @ opt_tree ''span_id'' (SpanID ex) @
     opt_tree ''parent_span_id'' (ParentSpanID ex) @ opt_tree ''span_kind'' (SpanKind ex) @
     opt_tree ''operation_id'' (OperationID ex) @
     [(''correlation'', str_tree (correlation_text (Correlation ex)))] @
     opt_tree ''correlation_detail'' (CorrelationDetail ex) @
     opt_tree ''target'' (Target ex) @ opt_tree ''tool'' (Tool ex) @
     [(''started_at'', JStr started), (''finished_at'', JStr finished)] @
     (if DurationMS ex = 0 then [] else [(''duration_ms'', JNum (decimal_int (DurationMS ex)))]) @
     [(''status'', str_tree (status_text (Status ex)))] @
     opt_tree ''error_type'' (ErrorType ex) @ opt_tree ''error_code'' (ErrorCode ex) @
     opt_tree ''arguments_fingerprint'' (ArgumentsFingerprint ex) @
     [(''arguments_fingerprint_status'',
       str_tree (availability_text (ArgumentsFingerprintStatus ex)))] @
     opt_tree ''result_fingerprint'' (ResultFingerprint ex) @
     [(''result_fingerprint_status'',
       str_tree (availability_text (ResultFingerprintStatus ex)))] @
     [(''read_only_declared'', JBool (ReadOnlyDeclared ex)),
      (''read_only_annotation_known'', JBool (ReadOnlyAnnotationKnown ex)),
      (''annotations_verified'', JBool (AnnotationsVerified ex)),
      (''source'', obj_tree (source_tree (Source ex)))] @
     opt_list_tree ''seen_from'' (SeenFrom ex) @
     opt_list_tree ''disagreements'' (map (disagreement_text quote) (Disagreements ex))"

lemma escaped_literal [simp]: "good_literal (json_escape s)"
  by (simp add: good_literal_def lex_string_escape)

lemma printable_str [simp]: "printable_tree d (str_tree s)"
  by (simp add: str_tree_def)

lemma printable_obj:
  "printable_tree d (obj_tree kvs) \<longleftrightarrow> d < 10000 \<and> (\<forall>(k, v) \<in> set kvs. printable_tree (Suc d) v)"
  by (auto simp: obj_tree_def)

abbreviation texts :: "(string \<times> json) list \<Rightarrow> (string \<times> string) list" where
  "texts kvs \<equiv> map (\<lambda>(k, v). (k, json_text v)) kvs"

lemma json_text_str: "json_text (str_tree s) = json_string s"
  by (simp add: str_tree_def json_string_def)

lemma json_text_obj: "json_text (obj_tree kvs) = json_object (texts kvs)"
  by (simp add: obj_tree_def json_object_def json_string_def comp_def case_prod_unfold)

lemma json_text_list: "json_text (JArr (map str_tree ss)) = json_list ss"
  by (simp add: json_list_def json_text_str comp_def)

lemma texts_opt: "texts (opt_tree k s) = opt_field k s" "texts (opt_list_tree k ss) = opt_list k ss"
  by (simp_all add: opt_tree_def opt_field_def json_text_str opt_list_tree_def opt_list_def json_list_def
      comp_def)

lemma texts_source: "texts (source_tree src) = source_fields src"
  unfolding source_tree_def source_fields_def map_append texts_opt by (simp add: json_text_str)

lemma texts_execution:
  "texts (execution_tree quote ex a b) =
     execution_fields quote ex (dquote # a @ [dquote]) (dquote # b @ [dquote])"
  unfolding execution_tree_def execution_fields_def map_append texts_opt
  by (simp add: json_text_str json_text_obj texts_source)

text \<open>The text of a time inside its quotes.\<close>

definition time_text :: "gotime \<Rightarrow> string" where
  "time_text t = (case t of None \<Rightarrow> ''0001-01-01T00:00:00Z'' | Some ns \<Rightarrow> rfc3339 ns)"

lemma json_time_text: "json_time t = Some s \<Longrightarrow> s = dquote # time_text t @ [dquote]"
  by (auto simp: json_time_def time_text_def split: option.splits if_splits)

lemma Marshal_tree:
  assumes "Marshal quote ex = Some line"
  shows "line = json_text (obj_tree (execution_tree quote ex (time_text (StartedAt ex))
    (time_text (FinishedAt ex))))"
proof -
  obtain a b where "json_time (StartedAt ex) = Some a" "json_time (FinishedAt ex) = Some b"
    "line = json_object (execution_fields quote ex a b)"
    using assms by (auto simp: Marshal_def split: option.splits)
  then show ?thesis using json_time_text by (simp add: json_text_obj texts_execution)
qed

end
