(* ===== verification/Routes.thy ===== *)
theory Routes
  imports Receiver Paths JsonRoundtrip Bridge
begin

text \<open>
  The HTTP server of \<open>cmd/bridge/main.go\<close>: the four routes and the \<open>http.ServeMux\<close> that picks
  them. A request has its path as it was sent, still with percent escapes. The mux cleans the
  path, sends a client that asked for another spelling to the clean one, and compares the
  decoded segments with the patterns.
\<close>

section \<open>The mux\<close>

record mux_request =
  mr_Path :: string
  mr_Request :: http_request

datatype mux_answer = Answer http_response | RedirectTo string

datatype route = LogsRoute | TracesRoute | HealthzRoute | StatsRoute

text \<open>\<open>cleanPath\<close> of \<open>net/http\<close>: like \<open>path.Clean\<close>, but a slash at the end stays.\<close>

definition cleanPath :: "string \<Rightarrow> string" where
  "cleanPath p =
     (if p = [] then ''/''
      else let p = (if has_prefix [slash] p then p else slash # p); np = Clean p
           in if last p = slash \<and> np \<noteq> ''/'' then np @ [slash] else np)"

text \<open>\<open>url.PathUnescape\<close>, with \<open>None\<close> for an error.\<close>

fun PathUnescape :: "string \<Rightarrow> string option" where
  "PathUnescape [] = Some []"
| "PathUnescape (c # s) =
     (if c = CHR ''%'' then
        (case s of
           a # b # r \<Rightarrow>
             if is_hex a \<and> is_hex b
             then map_option (Cons (char_of (16 * hex_value a + hex_value b))) (PathUnescape r)
             else None
         | _ \<Rightarrow> None)
      else map_option (Cons c) (PathUnescape s))"

definition path_segments :: "string \<Rightarrow> string list" where
  "path_segments p =
     map (\<lambda>s. case PathUnescape s of Some u \<Rightarrow> u | None \<Rightarrow> s) (split_on slash (tl p))"

definition patterns :: "(string list \<times> route) list" where
  "patterns =
     [([''v1'', ''logs''], LogsRoute), ([''v1'', ''traces''], TracesRoute),
      ([''healthz''], HealthzRoute), ([''stats''], StatsRoute)]"

section \<open>The handlers\<close>

definition StatusOK :: nat where "StatusOK = 200"
definition StatusNotFound :: nat where "StatusNotFound = 404"

definition healthz :: http_response where
  "healthz = \<lparr>rs_Status = StatusOK, rs_ContentType = [], rs_Text = ''ok'' @ [CHR 0x0A]\<rparr>"

definition stats_counters :: "stats \<Rightarrow> (string \<times> nat) list" where
  "stats_counters s =
     [(''log_records_seen'', LogRecordsSeen s), (''spans_seen'', SpansSeen s),
      (''non_tool_call_ignored'', ToolCallsIgnored s), (''emitted'', EmittedCount s),
      (''emitted_merged'', EmittedMerged s), (''emitted_log_only'', EmittedLogOnly s),
      (''emitted_span_only'', EmittedSpanOnly s), (''sink_write_failures'', SinkWriteFailures s),
      (''late_signals_ignored'', LateSignalsIgnored s),
      (''unjoinable_missing_span_id'', UnjoinableNoSpan s),
      (''parent_spans_suppressed'', ParentsSuppressed s), (''correlated'', CorrelatedCount s),
      (''unattributed'', UnattributedCount s), (''ambiguous'', AmbiguousCount s),
      (''still_buffered'', StillBuffered s)]"

text \<open>\<open>json.Marshal\<close> of the counters; \<open>Encoder.Encode\<close> adds a line end.\<close>

definition stats_json :: "stats \<Rightarrow> string" where
  "stats_json s = json_object (map (\<lambda>(k, n). (k, decimal_int (int n))) (stats_counters s))"

definition stats_handler :: "processor \<Rightarrow> http_response" where
  "stats_handler p =
     \<lparr>rs_Status = StatusOK, rs_ContentType = ''application/json'',
      rs_Text = stats_json (ProcessorStats p) @ [CHR 0x0A]\<rparr>"

record ('e, 'st) handlers =
  logs_decode :: "string \<Rightarrow> log_record option export_request option"
  traces_decode :: "string \<Rightarrow> span option export_request option"
  logs_consumer :: "(log_record option, 'e, 'st) consumer option"
  traces_consumer :: "(span option, 'e, 'st) consumer option"

definition serve_route ::
  "('e, 's \<times> processor) handlers \<Rightarrow> route \<Rightarrow> http_request \<Rightarrow> 's \<times> processor
     \<Rightarrow> http_response \<times> 's \<times> processor" where
  "serve_route h route r st =
     (case route of
        LogsRoute \<Rightarrow> NewLogsHandler (logs_decode h) (logs_consumer h) r st
      | TracesRoute \<Rightarrow> NewTracesHandler (traces_decode h) (traces_consumer h) r st
      | HealthzRoute \<Rightarrow> (healthz, st)
      | StatsRoute \<Rightarrow> (stats_handler (snd st), st))"

text \<open>The path of a CONNECT request is not cleaned.\<close>

definition mux_ServeHTTP ::
  "('e, 's \<times> processor) handlers \<Rightarrow> mux_request \<Rightarrow> 's \<times> processor
     \<Rightarrow> mux_answer \<times> 's \<times> processor" where
  "mux_ServeHTTP h req st =
     (if mr_Path req = ''*'' then (Answer (reply StatusBadRequest), st)
      else if rq_Method (mr_Request req) \<noteq> ''CONNECT'' \<and> cleanPath (mr_Path req) \<noteq> mr_Path req
        then (RedirectTo (cleanPath (mr_Path req)), st)
      else (case map_of patterns (path_segments (mr_Path req)) of
              None \<Rightarrow> (Answer (http_Error ''404 page not found'' StatusNotFound), st)
            | Some route \<Rightarrow>
                (case serve_route h route (mr_Request req) st of (resp, st) \<Rightarrow> (Answer resp, st))))"

section \<open>Properties\<close>

text \<open>
  Of the requests to the HTTP server only a POST whose path spells \<open>/v1/logs\<close> or \<open>/v1/traces\<close>
  reaches the consumer; looking at \<open>/healthz\<close> and \<open>/stats\<close> never changes anything.
\<close>

lemma only_posts_change:
  assumes "mux_ServeHTTP h req st = (ans, st')" and "st' \<noteq> st"
  shows "rq_Method (mr_Request req) = ''POST''
    \<and> path_segments (mr_Path req) \<in> {[''v1'', ''logs''], [''v1'', ''traces'']}
    \<and> (\<exists>resp. ans = Answer resp \<and> rs_Status resp \<in> {202, 500})"
proof -
  obtain route resp where r: "map_of patterns (path_segments (mr_Path req)) = Some route"
    "serve_route h route (mr_Request req) st = (resp, st')" "ans = Answer resp"
    using assms by (auto simp: mux_ServeHTTP_def split: if_splits option.splits prod.splits)
  have p: "(path_segments (mr_Path req), route) \<in> set patterns" using r(1) by (rule map_of_SomeD)
  have route: "route = LogsRoute \<or> route = TracesRoute"
    using r(2) assms(2) by (cases route) (simp_all add: serve_route_def)
  have "rq_Method (mr_Request req) = ''POST'' \<and> rs_Status resp \<in> {202, 500}"
    using route r(2) assms(2)
    by (auto simp: serve_route_def ServeHTTP_logs_def ServeHTTP_traces_def reply_def http_Error_def
        StatusAccepted_def StatusInternalServerError_def split: if_splits option.splits prod.splits)
  with p route r(3) show ?thesis by (auto simp: patterns_def)
qed

section \<open>What /stats reports\<close>

definition counter_members :: "stats \<Rightarrow> (string \<times> json) list" where
  "counter_members s = map (\<lambda>(k, n). (k, JNum (decimal_int (int n)))) (stats_counters s)"

lemma stats_tree: "stats_json s = json_text (obj_tree (counter_members s))"
  by (simp add: stats_json_def json_text_obj counter_members_def comp_def case_prod_unfold)

lemma stats_names: "map fst (stats_counters s) = map fst (stats_counters zero_stats)"
  by (simp add: stats_counters_def)

lemma stats_names_plain: "(k, n) \<in> set (stats_counters s) \<Longrightarrow> json_escape k = k"
proof -
  assume "(k, n) \<in> set (stats_counters s)"
  then have "k \<in> set (map fst (stats_counters zero_stats))"
    unfolding stats_names [of s, symmetric] by force
  moreover have "list_all (\<lambda>k. json_escape k = k) (map fst (stats_counters zero_stats))" by code_simp
  ultimately show ?thesis unfolding list_all_iff by blast
qed

lemma stats_parsed: "parse_json (stats_json s @ [CHR 0x0A]) = Some (JObj (counter_members s))"
proof -
  have l: "good_literal k" if "(k, n) \<in> set (stats_counters s)" for k n
    using stats_names_plain [OF that] lex_string_escape [of k] by (simp add: good_literal_def)
  have m: "obj_tree (counter_members s) = JObj (counter_members s)"
    using stats_names_plain by (auto simp: obj_tree_def counter_members_def)
  have "printable_tree 0 (JObj (counter_members s))"
    using l by (auto simp: counter_members_def num_chars_decimal decimal_int_nonempty)
  then show ?thesis
    unfolding stats_tree m by (rule parse_json_line)
qed

text \<open>
  C34. \<open>/stats\<close> tells the truth. At any moment of any run a request for it, with whatever
  method, is answered with 200 and a JSON object whose members are exactly the fifteen
  counters of the processor, among them the number of keys that are buffered; the records written are those counted as emitted and at most the
  one that the sink has just accepted, the three kinds of records and the three attributions
  both add up to the emitted ones, and nothing is changed by looking.
\<close>

theorem stats_tell_the_truth:
  assumes "reachable fl sink wait s0 x" and "mr_Path req = ''/stats''"
  shows "\<exists>resp. mux_ServeHTTP h req (sinkst x, proc x) = (Answer resp, sinkst x, proc x)
    \<and> rs_Status resp = 200
    \<and> parse_json (rs_Text resp) = Some (JObj (counter_members (ProcessorStats (proc x))))
    \<and> map_of (counter_members (ProcessorStats (proc x))) ''emitted'' =
        Some (JNum (decimal_int (int (EmittedCount (ProcessorStats (proc x))))))
    \<and> map_of (counter_members (ProcessorStats (proc x))) ''still_buffered'' =
        Some (JNum (decimal_int (int (card (fmdom' (firstSeen (proc x)))))))
    \<and> length (written x) \<in> {EmittedCount (ProcessorStats (proc x)), EmittedCount (ProcessorStats (proc x)) + 1}
    \<and> EmittedCount (ProcessorStats (proc x)) =
        EmittedMerged (ProcessorStats (proc x)) + EmittedLogOnly (ProcessorStats (proc x))
          + EmittedSpanOnly (ProcessorStats (proc x))
    \<and> EmittedCount (ProcessorStats (proc x)) =
        CorrelatedCount (ProcessorStats (proc x)) + UnattributedCount (ProcessorStats (proc x))
          + AmbiguousCount (ProcessorStats (proc x))"
proof -
  have "cleanPath ''/stats'' = ''/stats''" "map_of patterns (path_segments ''/stats'') = Some StatsRoute"
    by code_simp+
  then have m: "mux_ServeHTTP h req (sinkst x, proc x) =
      (Answer (stats_handler (proc x)), sinkst x, proc x)"
    using assms(2) by (simp add: mux_ServeHTTP_def serve_route_def)
  have inv: "sys_inv x" using assms(1) by (rule reachable_inv)
  then have "length (written x) = EmittedCount (stats (proc x)) + length (unacked (phase x))"
    "stats_partition (stats (proc x))"
    by (simp_all add: sys_inv_def log_inv_def count_inv_def)
  moreover have "length (unacked (phase x)) \<in> {0, 1}" by (cases "phase x") auto
  moreover have "map_of (counter_members (ProcessorStats (proc x))) ''emitted'' =
      Some (JNum (decimal_int (int (EmittedCount (ProcessorStats (proc x))))))"
    by (simp add: counter_members_def stats_counters_def)
  moreover have "map_of (counter_members (ProcessorStats (proc x))) ''still_buffered'' =
      Some (JNum (decimal_int (int (card (fmdom' (firstSeen (proc x)))))))"
    using StillBuffered_eq [of "proc x"] sys_invD(1) [OF inv]
    by (simp add: counter_members_def stats_counters_def)
  ultimately show ?thesis
    using m stats_parsed [of "ProcessorStats (proc x)"]
    by (auto simp: stats_handler_def StatusOK_def ProcessorStats_def stats_partition_def)
qed

theorem stats_tell_the_truth_witness:
  "\<exists>x resp. demo_sys x \<and> mux_ServeHTTP \<lparr>logs_decode = \<lambda>_. None, traces_decode = \<lambda>_. None,
       logs_consumer = None :: (log_record option, string, execution list \<times> processor) consumer option,
       traces_consumer = None\<rparr>
     \<lparr>mr_Path = ''/stats'', mr_Request = post_body\<rparr> (sinkst x, proc x) = (Answer resp, sinkst x, proc x)
     \<and> parse_json (rs_Text resp) = Some (JObj (counter_members (ProcessorStats (proc x))))"
proof -
  obtain x where x: "demo_sys x" using demo_sys_exists ..
  then have r: "reachable plain_floats (Some recordingSink) 0 [] x" by (simp add: demo_sys_def)
  have "mr_Path \<lparr>mr_Path = ''/stats'', mr_Request = post_body\<rparr> = ''/stats''" by simp
  from stats_tell_the_truth [OF r this] x show ?thesis by blast
qed

end
