(* ===== verification/Service.thy ===== *)
theory Service
  imports Routes
begin

text \<open>
  The two servers in front of the processor, as \<open>run\<close> of \<open>cmd/bridge/main.go\<close> wires them: the
  mux with the two OTLP handlers, and the gRPC server with its two services, all of them handing
  what they decode to the same processor. A request that arrives either changes nothing or is
  one call of a method of the processor (\<open>serve_is_call\<close>), so a sequence of requests is a
  sequence of calls (\<open>serve_all_calls\<close>), and every record of every request that was not
  refused is counted.
\<close>

section \<open>The servers\<close>

text \<open>The services that are registered with the gRPC server; it dispatches a call to one of them.\<close>

record ('e, 'st) grpc_server =
  traceService :: "(span option, 'e, 'st) consumer option"
  logsService :: "(log_record option, 'e, 'st) consumer option"

definition grpc_NewServer ::
  "(span option, 'e, 'st) consumer option \<Rightarrow> (log_record option, 'e, 'st) consumer option
     \<Rightarrow> ('e, 'st) grpc_server" where
  "grpc_NewServer tc lc = \<lparr>traceService = tc, logsService = lc\<rparr>"

text \<open>The decoding of the two OTLP request messages (\<open>proto.Unmarshal\<close>).\<close>

record otlp_codec =
  decode_logs :: "string \<Rightarrow> log_record option export_request option"
  decode_traces :: "string \<Rightarrow> span option export_request option"

datatype request =
    HttpRequest mux_request
  | LogsExport "log_record option export_request"
  | TracesExport "span option export_request"

text \<open>A request, with the map order and the clock that the processor meets while serving it.\<close>

record arrival =
  ar_order :: range_fn
  ar_clock :: "nat \<Rightarrow> int"
  ar_request :: request

datatype 'e answer = HttpAnswer mux_answer | ExportAnswer "'e + unit"

definition serve ::
  "float_lib \<Rightarrow> ('s, 'e) sink_write option \<Rightarrow> otlp_codec \<Rightarrow> arrival \<Rightarrow> 's \<times> processor
     \<Rightarrow> 'e answer \<times> 's \<times> processor" where
  "serve fl sink codec ar st =
     (let lc = Some (ConsumeLogRecords fl sink (ar_order ar) (ar_clock ar));
          tc = Some (ConsumeSpans fl sink (ar_order ar) (ar_clock ar));
          grpcSrv = grpc_NewServer tc lc;
          mux = \<lparr>logs_decode = decode_logs codec, traces_decode = decode_traces codec,
                 logs_consumer = lc, traces_consumer = tc\<rparr>
      in case ar_request ar of
           HttpRequest req \<Rightarrow> map_prod HttpAnswer id (mux_ServeHTTP mux req st)
         | LogsExport req \<Rightarrow> map_prod ExportAnswer id (Export_logs (logsService grpcSrv) req st)
         | TracesExport req \<Rightarrow> map_prod ExportAnswer id (Export_traces (traceService grpcSrv) req st))"

fun serve_all ::
  "float_lib \<Rightarrow> ('s, 'e) sink_write option \<Rightarrow> otlp_codec \<Rightarrow> arrival list \<Rightarrow> 's \<times> processor
     \<Rightarrow> 'e answer list \<times> 's \<times> processor" where
  "serve_all fl sink codec [] st = ([], st)"
| "serve_all fl sink codec (ar # ars) st =
     (case serve fl sink codec ar st of (a, st) \<Rightarrow>
        (case serve_all fl sink codec ars st of (as, st) \<Rightarrow> (a # as, st)))"

section \<open>Requests are calls\<close>

text \<open>
  What a request hands over: the records of a POST to one of the two endpoints whose body can be
  read and decoded, and of an export.
\<close>

definition routed :: "mux_request \<Rightarrow> route option" where
  "routed req =
     (if mr_Path req = ''*'' \<or>
         rq_Method (mr_Request req) \<noteq> ''CONNECT'' \<and> cleanPath (mr_Path req) \<noteq> mr_Path req
      then None else map_of patterns (path_segments (mr_Path req)))"

definition posted :: "mux_request \<Rightarrow> (string \<Rightarrow> 'r export_request option) \<Rightarrow> 'r list option" where
  "posted req decode =
     (if rq_Method (mr_Request req) \<noteq> ''POST'' then None
      else map_option request_records (Option.bind (rq_Body (mr_Request req)) decode))"

definition handed_logs :: "otlp_codec \<Rightarrow> request \<Rightarrow> log_record option list option" where
  "handed_logs codec r =
     (case r of
        HttpRequest req \<Rightarrow> if routed req = Some LogsRoute then posted req (decode_logs codec) else None
      | LogsExport req \<Rightarrow> Some (request_records req)
      | TracesExport req \<Rightarrow> None)"

definition handed_spans :: "otlp_codec \<Rightarrow> request \<Rightarrow> span option list option" where
  "handed_spans codec r =
     (case r of
        HttpRequest req \<Rightarrow> if routed req = Some TracesRoute then posted req (decode_traces codec) else None
      | LogsExport req \<Rightarrow> None
      | TracesExport req \<Rightarrow> Some (request_records req))"

definition arrival_call :: "otlp_codec \<Rightarrow> arrival \<Rightarrow> call option" where
  "arrival_call codec ar =
     (case handed_logs codec (ar_request ar) of
        Some rs \<Rightarrow> Some (CallLogs (ar_order ar) (ar_clock ar) rs)
      | None \<Rightarrow> map_option (CallSpans (ar_order ar) (ar_clock ar)) (handed_spans codec (ar_request ar)))"

definition arrival_calls :: "otlp_codec \<Rightarrow> arrival list \<Rightarrow> call list" where
  "arrival_calls codec ars = List.map_filter (arrival_call codec) ars"

lemma handed_one: "handed_logs codec r = Some rs \<Longrightarrow> handed_spans codec r = None"
  by (cases r) (auto simp: handed_logs_def handed_spans_def split: if_splits)

lemma mux_routed:
  "snd (mux_ServeHTTP h req st) =
     (case routed req of None \<Rightarrow> st | Some route \<Rightarrow> snd (serve_route h route (mr_Request req) st))"
  by (auto simp: mux_ServeHTTP_def routed_def split: option.split prod.split)

lemma ServeHTTP_posted:
  "snd (ServeHTTP_logs decode (Some consume) (mr_Request req) st) =
     (case posted req decode of None \<Rightarrow> st | Some rs \<Rightarrow> snd (consume rs st))"
  "snd (ServeHTTP_traces decode' (Some consume') (mr_Request req) st) =
     (case posted req decode' of None \<Rightarrow> st | Some ss \<Rightarrow> snd (consume' ss st))"
  by (auto simp: ServeHTTP_logs_def ServeHTTP_traces_def posted_def flatten_request
      split: option.split prod.split)

lemma Export_handed:
  "snd (Export_logs (Some consume) req st) = snd (consume (request_records req) st)"
  "snd (Export_traces (Some consume') sreq st) = snd (consume' (request_records sreq) st)"
  by (auto simp: Export_logs_def Export_traces_def grpc_flatten flatten_request
      split: option.split prod.split)

lemma serve_is_call:
  "snd (serve fl sink codec ar st) =
     (case arrival_call codec ar of None \<Rightarrow> st | Some c \<Rightarrow> snd (run_call fl sink c st))"
proof (cases "ar_request ar")
  case (HttpRequest req)
  then show ?thesis
    by (auto simp: serve_def mux_routed serve_route_def ServeHTTP_posted arrival_call_def
        handed_logs_def handed_spans_def split: option.split route.split)
qed (simp_all add: serve_def grpc_NewServer_def Export_handed arrival_call_def handed_logs_def
    handed_spans_def)

lemma serve_all_calls:
  "snd (serve_all fl sink codec ars st) = run_calls fl sink (arrival_calls codec ars) st"
proof (induction ars arbitrary: st)
  case Nil
  then show ?case by (simp add: arrival_calls_def List.map_filter_simps)
next
  case (Cons ar ars)
  then show ?case
    using serve_is_call [of fl sink codec ar st]
    by (simp add: arrival_calls_def List.map_filter_simps case_prod_beta split: option.split)
qed

lemma arrival_calls_order:
  assumes "\<forall>ar \<in> set ars. range_order (ar_order ar)"
  shows "\<forall>c \<in> set (arrival_calls codec ars). range_order (call_order c)"
  using assms by (auto simp: arrival_calls_def set_map_filter arrival_call_def split: option.splits)

section \<open>Properties\<close>

definition total :: "('b \<Rightarrow> 'a list option) \<Rightarrow> 'b list \<Rightarrow> nat" where
  "total f xs = (\<Sum>x \<leftarrow> xs. case f x of None \<Rightarrow> 0 | Some rs \<Rightarrow> length rs)"

lemma run_call_counts:
  assumes "run_call fl sink c (s, p) = (e, s', p')"
  shows "seen_counts p' =
    (fst (seen_counts p) + (case c of CallLogs _ _ rs \<Rightarrow> length rs | _ \<Rightarrow> 0),
     snd (seen_counts p) + (case c of CallSpans _ _ ss \<Rightarrow> length ss | _ \<Rightarrow> 0))"
proof (cases c)
  case (CallLogs rng now rs)
  then show ?thesis
    using assms seen_counts_assembleExpired [of sink rng "now (length rs)" s "consume_logs fl now rs p"]
    by (auto simp: ConsumeLogRecords_def seen_counts_consume)
next
  case (CallSpans rng now ss)
  then show ?thesis
    using assms seen_counts_assembleExpired [of sink rng "now (length ss)" s "consume_spans fl now ss p"]
    by (auto simp: ConsumeSpans_def seen_counts_consume)
next
  case (CallFlush rng)
  then show ?thesis
    using assms by (auto simp: Flush_def assemble_def claim_snapshot Let_def
        dest: arg_cong [of _ _ "\<lambda>x. seen_counts (snd (snd x))"] split: if_splits)
      (metis seen_counts_emit_all seen_counts_frame(2) snd_conv)
qed

definition accepted_answer :: "'e answer \<Rightarrow> bool" where
  "accepted_answer a \<longleftrightarrow>
     (case a of
        HttpAnswer (Answer resp) \<Rightarrow> rs_Status resp = StatusAccepted
      | HttpAnswer (RedirectTo _) \<Rightarrow> False
      | ExportAnswer r \<Rightarrow> r = Inr ())"

lemma ServeHTTP_accepted:
  "rs_Status (fst (ServeHTTP_logs decode c (mr_Request req) st)) = StatusAccepted \<Longrightarrow>
     posted req decode \<noteq> None"
  "rs_Status (fst (ServeHTTP_traces decode' c' (mr_Request req) st)) = StatusAccepted \<Longrightarrow>
     posted req decode' \<noteq> None"
  by (auto simp: ServeHTTP_logs_def ServeHTTP_traces_def posted_def reply_def http_Error_def
      StatusAccepted_def StatusMethodNotAllowed_def StatusBadRequest_def
      split: if_splits option.splits)

lemma mux_accepted:
  assumes "mux_ServeHTTP h req st = (Answer resp, st')" and "rs_Status resp = StatusAccepted"
  shows "\<exists>route. routed req = Some route \<and> rs_Status (fst (serve_route h route (mr_Request req) st)) = StatusAccepted"
  using assms
  by (auto simp: mux_ServeHTTP_def routed_def reply_def http_Error_def StatusAccepted_def
      StatusBadRequest_def StatusNotFound_def split: if_splits option.splits prod.splits)

lemma serve_accepted:
  assumes "accepted_answer (fst (serve fl sink codec ar st))"
  shows "arrival_call codec ar \<noteq> None"
proof (cases "ar_request ar")
  case (HttpRequest req)
  let ?h = "\<lparr>logs_decode = decode_logs codec, traces_decode = decode_traces codec,
      logs_consumer = Some (ConsumeLogRecords fl sink (ar_order ar) (ar_clock ar)),
      traces_consumer = Some (ConsumeSpans fl sink (ar_order ar) (ar_clock ar))\<rparr>"
  obtain a st' where a: "mux_ServeHTTP ?h req st = (a, st')" by (metis surj_pair)
  then obtain resp where r: "a = Answer resp" "rs_Status resp = StatusAccepted"
    using assms HttpRequest by (auto simp: serve_def accepted_answer_def split: mux_answer.splits)
  from mux_accepted [OF a [unfolded r(1)] r(2)] obtain route where
    "routed req = Some route"
    "rs_Status (fst (serve_route ?h route (mr_Request req) st)) = StatusAccepted" by blast
  then show ?thesis
    using HttpRequest
    by (cases route)
      (auto simp: serve_route_def arrival_call_def handed_logs_def handed_spans_def healthz_def
        stats_handler_def StatusAccepted_def StatusOK_def
        dest!: ServeHTTP_accepted [unfolded StatusAccepted_def])
qed (simp_all add: arrival_call_def handed_logs_def handed_spans_def)

lemma serve_counts:
  assumes "serve fl sink codec ar (s, p) = (a, s', p')"
  shows "seen_counts p' =
    (fst (seen_counts p) + total (handed_logs codec) [ar_request ar],
     snd (seen_counts p) + total (handed_spans codec) [ar_request ar])"
proof -
  have c: "(s', p') = (case arrival_call codec ar of None \<Rightarrow> (s, p) | Some c \<Rightarrow> snd (run_call fl sink c (s, p)))"
    using serve_is_call [of fl sink codec ar "(s, p)"] assms by simp
  show ?thesis
  proof (cases "arrival_call codec ar")
    case None
    with c show ?thesis
      by (auto simp: arrival_call_def total_def split: option.splits)
  next
    case (Some cl)
    obtain e s1 p1 where r: "run_call fl sink cl (s, p) = (e, s1, p1)" by (metis prod_cases3)
    with c Some have "p' = p1" by simp
    with Some run_call_counts [OF r] show ?thesis
      by (auto simp: arrival_call_def total_def dest: handed_one split: option.splits)
  qed
qed

text \<open>
  C19. Every record of every request that is not refused is counted, exactly once, and no other.
  Over any sequence of HTTP requests and gRPC exports, whatever the sink does, the two counters
  grow by the number of log records and of spans in the exports and in those POSTs to the OTLP
  endpoints that can be read and decoded; and a client that is told that its request was
  accepted sent such a request.
\<close>

theorem every_request_counted:
  assumes "serve_all fl sink codec ars (s, p) = (answers, s', p')"
  shows "LogRecordsSeen (stats p') = LogRecordsSeen (stats p) + total (handed_logs codec) (map ar_request ars)
    \<and> SpansSeen (stats p') = SpansSeen (stats p) + total (handed_spans codec) (map ar_request ars)
    \<and> list_all2 (\<lambda>ar a. accepted_answer a \<longrightarrow> arrival_call codec ar \<noteq> None) ars answers"
  using assms
proof (induction ars arbitrary: s p answers)
  case Nil
  then show ?case by (simp add: total_def)
next
  case (Cons ar ars)
  obtain a s1 p1 where a: "serve fl sink codec ar (s, p) = (a, s1, p1)" by (metis prod_cases3)
  obtain as where r: "serve_all fl sink codec ars (s1, p1) = (as, s', p')" "answers = a # as"
    using Cons.prems a by (auto split: prod.splits)
  have "accepted_answer a \<longrightarrow> arrival_call codec ar \<noteq> None"
    using serve_accepted [of fl sink codec ar "(s, p)"] a by simp
  then show ?case
    using Cons.IH [OF r(1)] serve_counts [OF a] r(2)
    by (simp add: total_def seen_counts_def)
qed

text \<open>One call over both transports, a request for \<open>/healthz\<close>, and a body that is no message.\<close>

definition one_span_request :: "span option export_request" where
  "one_span_request =
     \<lparr>er_Resources = [\<lparr>rg_Attributes = [], rg_Scopes = [\<lparr>sg_Records =
       [Some (gatewaySpan [1] [3] [2] SPAN_KIND_CLIENT ''restart'' ''alpha'' STATUS_CODE_UNSET),
        Some (gatewaySpan [1] [2] [] SPAN_KIND_SERVER ''restart'' ''alpha'' STATUS_CODE_UNSET)]\<rparr>]\<rparr>]\<rparr>"

definition demo_codec :: otlp_codec where
  "demo_codec = \<lparr>decode_logs = (\<lambda>b. if b = ''body'' then Some one_log_request else None),
     decode_traces = (\<lambda>b. None)\<rparr>"

definition at_once :: "request \<Rightarrow> arrival" where
  "at_once r = \<lparr>ar_order = sorted_list_of_fset, ar_clock = (\<lambda>_. 0), ar_request = r\<rparr>"

definition demo_arrivals :: "arrival list" where
  "demo_arrivals = map at_once
     [HttpRequest \<lparr>mr_Path = ''/v1/logs'', mr_Request = post_body\<rparr>,
      HttpRequest \<lparr>mr_Path = ''/healthz'', mr_Request = post_body\<rparr>,
      HttpRequest \<lparr>mr_Path = ''/v1/traces'', mr_Request = post_body\<rparr>,
      TracesExport one_span_request]"

lemma demo_totals:
  "total (handed_logs demo_codec) (map ar_request demo_arrivals) = 1"
  "total (handed_spans demo_codec) (map ar_request demo_arrivals) = 2"
proof -
  have r: "routed \<lparr>mr_Path = ''/v1/logs'', mr_Request = post_body\<rparr> = Some LogsRoute"
    "routed \<lparr>mr_Path = ''/healthz'', mr_Request = post_body\<rparr> = Some HealthzRoute"
    "routed \<lparr>mr_Path = ''/v1/traces'', mr_Request = post_body\<rparr> = Some TracesRoute"
    by code_simp+
  have b: "rq_Method post_body = ''POST''" "rq_Body post_body = Some ''body''"
    by (simp_all add: post_body_def)
  show "total (handed_logs demo_codec) (map ar_request demo_arrivals) = 1"
    "total (handed_spans demo_codec) (map ar_request demo_arrivals) = 2"
    by (simp_all add: total_def demo_arrivals_def at_once_def handed_logs_def handed_spans_def r b
        posted_def demo_codec_def request_records_def one_log_request_def
        one_span_request_def)
qed

theorem every_request_counted_witness:
  "\<exists>answers s' p'. serve_all plain_floats (Some recordingSink) demo_codec demo_arrivals ([], NewProcessor 0)
      = (answers, s', p') \<and> LogRecordsSeen (stats p') = 1 \<and> SpansSeen (stats p') = 2"
proof -
  obtain answers s' p' where
    a: "serve_all plain_floats (Some recordingSink) demo_codec demo_arrivals ([], NewProcessor 0)
      = (answers, s', p')" by (metis prod_cases3)
  with every_request_counted [OF a] show ?thesis
    by (simp add: demo_totals NewProcessor_def zero_stats_def)
qed

text \<open>
  C33. Only handing over telemetry changes anything. A request to either server that changes the
  sink or the processor is a gRPC export of logs or of traces, or a POST to the HTTP server whose
  path spells \<open>/v1/logs\<close> or \<open>/v1/traces\<close>, which is then answered with 202 or 500; and what it
  changes is what one call of the processor changes. Every other request, to \<open>/healthz\<close>, to
  \<open>/stats\<close> or to an unknown path, changes nothing.
\<close>

theorem only_intake_changes:
  assumes "serve fl sink codec ar st = (ans, st')" and "st' \<noteq> st"
  shows "(case ar_request ar of
      LogsExport req \<Rightarrow> True
    | TracesExport req \<Rightarrow> True
    | HttpRequest req \<Rightarrow> rq_Method (mr_Request req) = ''POST''
        \<and> path_segments (mr_Path req) \<in> {[''v1'', ''logs''], [''v1'', ''traces'']}
        \<and> (\<exists>resp. ans = HttpAnswer (Answer resp) \<and> rs_Status resp \<in> {202, 500}))
    \<and> (\<exists>c. arrival_call codec ar = Some c \<and> st' = snd (run_call fl sink c st))"
proof
  show "\<exists>c. arrival_call codec ar = Some c \<and> st' = snd (run_call fl sink c st)"
    using serve_is_call [of fl sink codec ar st] assms by (auto split: option.splits)
  show "case ar_request ar of
      LogsExport req \<Rightarrow> True
    | TracesExport req \<Rightarrow> True
    | HttpRequest req \<Rightarrow> rq_Method (mr_Request req) = ''POST''
        \<and> path_segments (mr_Path req) \<in> {[''v1'', ''logs''], [''v1'', ''traces'']}
        \<and> (\<exists>resp. ans = HttpAnswer (Answer resp) \<and> rs_Status resp \<in> {202, 500})"
  proof (cases "ar_request ar")
    case (HttpRequest req)
    let ?h = "\<lparr>logs_decode = decode_logs codec, traces_decode = decode_traces codec,
      logs_consumer = Some (ConsumeLogRecords fl sink (ar_order ar) (ar_clock ar)),
      traces_consumer = Some (ConsumeSpans fl sink (ar_order ar) (ar_clock ar))\<rparr>"
    obtain a st2 where m: "mux_ServeHTTP ?h req st = (a, st2)" by (metis surj_pair)
    with assms(1) HttpRequest have "st2 = st'" "ans = HttpAnswer a" by (simp_all add: serve_def)
    with only_posts_change [OF m] assms(2) HttpRequest show ?thesis by simp
  qed simp_all
qed

theorem only_intake_changes_witness:
  "\<exists>ans s' p'. serve plain_floats (Some recordingSink) demo_codec
       (at_once (HttpRequest \<lparr>mr_Path = ''/v1/l%6Fgs'', mr_Request = post_body\<rparr>)) ([], NewProcessor 0)
       = (ans, s', p') \<and> LogRecordsSeen (stats p') = 1 \<and>
     (\<exists>resp. ans = HttpAnswer (Answer resp) \<and> rs_Status resp \<in> {202, 500})"
proof -
  let ?r = "HttpRequest \<lparr>mr_Path = ''/v1/l%6Fgs'', mr_Request = post_body\<rparr>"
  obtain ans s' p' where
    s: "serve plain_floats (Some recordingSink) demo_codec (at_once ?r) ([], NewProcessor 0) = (ans, s', p')"
    by (metis prod_cases3)
  have r: "routed \<lparr>mr_Path = ''/v1/l%6Fgs'', mr_Request = post_body\<rparr> = Some LogsRoute" by code_simp
  have b: "rq_Method post_body = ''POST''" "rq_Body post_body = Some ''body''"
    by (simp_all add: post_body_def)
  have "total (handed_logs demo_codec) [ar_request (at_once ?r)] = 1"
    by (simp add: total_def at_once_def handed_logs_def r b posted_def demo_codec_def
        request_records_def one_log_request_def)
  then have n: "LogRecordsSeen (stats p') = 1"
    using serve_counts [OF s] by (simp add: seen_counts_def NewProcessor_def zero_stats_def)
  then have "(s', p') \<noteq> ([], NewProcessor 0)" by (auto simp: NewProcessor_def zero_stats_def)
  from only_intake_changes [OF s this] n s show ?thesis by (auto simp: at_once_def)
qed

end
