(* ===== verification/Concurrent.thy ===== *)
theory Concurrent
  imports Goroutines Drain Service
begin

text \<open>
  The processor behind servers that handle their requests concurrently: every handler is a
  goroutine (\<open>Goroutines\<close>) that calls \<open>ConsumeLogRecords\<close> or \<open>ConsumeSpans\<close>.
\<close>

section \<open>Counting\<close>

fun logs_left :: "'e pc \<Rightarrow> nat" where
  "logs_left (Consuming is) = length (filter (\<lambda>i. case i of InputLog r \<Rightarrow> True | _ \<Rightarrow> False) is)"
| "logs_left (Taking es is) = length (filter (\<lambda>i. case i of InputLog r \<Rightarrow> True | _ \<Rightarrow> False) is)"
| "logs_left _ = 0"

fun spans_left :: "'e pc \<Rightarrow> nat" where
  "spans_left (Consuming is) = length (filter (\<lambda>i. case i of InputSpan sp \<Rightarrow> True | _ \<Rightarrow> False) is)"
| "spans_left (Taking es is) = length (filter (\<lambda>i. case i of InputSpan sp \<Rightarrow> True | _ \<Rightarrow> False) is)"
| "spans_left _ = 0"

text \<open>The records seen and those still to be seen.\<close>

definition to_be_seen :: "('s, 'e) goroutines \<Rightarrow> nat \<times> nat" where
  "to_be_seen g =
     (fst (seen_counts (g_proc g)) + sum_list (map logs_left (pcs g)),
      snd (seen_counts (g_proc g)) + sum_list (map spans_left (pcs g)))"

lemma seen_counts_count_seen [simp]:
  "seen_counts (count_stat log_seen p) = (Suc (fst (seen_counts p)), snd (seen_counts p))"
  "seen_counts (count_stat span_seen p) = (fst (seen_counts p), Suc (snd (seen_counts p)))"
  by (simp_all add: seen_counts_def log_seen_def span_seen_def)

lemma emit_turn_counts:
  assumes "emit_turn sink ph err (s, p) = (pc, s', p')"
  shows "seen_counts p' = seen_counts p \<and> logs_left pc = 0 \<and> spans_left pc = 0"
  using assms
  by (cases "(sink, ph, err, s, p)" rule: emit_turn.cases) (auto split: prod.splits option.splits)

lemma go_to_be_seen: "to_be_seen (go fl sink t g) = to_be_seen g"
proof (cases "tn_who t < length (pcs g)")
  case True
  then obtain ps pc qs where g: "pcs g = ps @ pc # qs" and w: "tn_who t = length ps"
    by (rule turn_at)
  note gd = go_def Let_def to_be_seen_def g w
  show ?thesis
  proof (cases pc)
    case (Consuming "is")
    show ?thesis
    proof (cases "is")
      case (Cons i rest)
      then show ?thesis using Consuming
        by (cases i) (simp_all add: gd consume_turn_def)
    qed (use Consuming in \<open>simp add: gd consume_turn_def\<close>)
  next
    case (Claiming cutoff)
    then show ?thesis by (simp add: gd claim_turn_def claim_snapshot)
  next
    case (Holding ph err)
    obtain pc' s' p' where e: "emit_turn sink ph err (g_sink g, g_proc g) = (pc', s', p')"
      by (metis prod_cases3)
    then show ?thesis using Holding emit_turn_counts [OF e] by (simp add: gd)
  qed (simp_all add: gd)
qed (simp add: go_def)

lemma schedule_to_be_seen: "to_be_seen (run_schedule fl sink sched g) = to_be_seen g"
  by (induction sched arbitrary: g) (simp_all add: run_schedule_def go_to_be_seen)

text \<open>The log records and spans in a list of calls.\<close>

definition call_logs :: "call \<Rightarrow> nat" where
  "call_logs c = (case c of CallLogs rng now rs \<Rightarrow> length rs | _ \<Rightarrow> 0)"

definition call_spans :: "call \<Rightarrow> nat" where
  "call_spans c = (case c of CallSpans rng now ss \<Rightarrow> length ss | _ \<Rightarrow> 0)"

lemma start_left [simp]:
  "logs_left (call_start c) = call_logs c" "spans_left (call_start c) = call_spans c"
  by (cases c; simp add: call_logs_def call_spans_def filter_map comp_def)+

lemma spawn_to_be_seen:
  "to_be_seen (spawn cs (s, p)) =
     (fst (seen_counts p) + sum_list (map call_logs cs), snd (seen_counts p) + sum_list (map call_spans cs))"
  by (simp add: to_be_seen_def comp_def) (simp add: spawn_def)

lemma returned_left:
  assumes "all_returned g"
  shows "to_be_seen g = seen_counts (g_proc g)"
proof -
  have n: "logs_left pc = 0 \<and> spans_left pc = 0" if "pc \<in> set (pcs g)" for pc
    using assms that by (cases pc) (auto simp: all_returned_def list_all_iff)
  have "sum_list (map f (pcs g)) = 0" if "\<And>pc. pc \<in> set (pcs g) \<Longrightarrow> f pc = (0 :: nat)" for f
    using that by (simp add: sum_list_eq_0_iff)
  from this [of logs_left] this [of spans_left] n show ?thesis
    unfolding to_be_seen_def by (metis add.right_neutral prod.collapse)
qed

section \<open>Properties\<close>

lemma reachable_start:
  "\<exists>wr. reachable fl sink wait s (sys_of (start_processor wait i v) Idle s {#} wr)"
  using reachable_started [OF run_calls.simps(1)] by simp

text \<open>
  C9. What the goroutines do is what the interleaved system does. Whatever requests are handled
  concurrently and however their goroutines take turns, at every moment at most one of them
  holds the assembly lock, and processor, sink, the signals in hand and the phase of the one
  assembly are a reachable state of the interleaved system: so all that holds there holds for
  the locks and goroutines of the code.
\<close>

theorem goroutines_refine:
  assumes "\<forall>t \<in> set sched. range_order (tn_order t)"
    and "run_schedule fl sink sched (spawn cs (s0, start_processor wait i v)) = g"
  shows "(\<exists>wr. reachable fl sink wait s0 (view g wr))
    \<and> length (filter holds_lock (pcs g)) = (if assembleMu g then 1 else 0)"
proof -
  obtain wr where "reachable fl sink wait s0 (sys_of (start_processor wait i v) Idle s0 {#} wr)"
    using reachable_start ..
  from schedule_reachable [OF assms(1) this assms(2)] show ?thesis
    by (auto simp: lock_inv_def)
qed

text \<open>Two concurrent flushes: the first has the lock, the second waits.\<close>

theorem goroutines_refine_witness:
  "\<exists>g wr. run_schedule plain_floats (Some recordingSink)
      [\<lparr>tn_who = 0, tn_now = 0, tn_order = sorted_list_of_fset\<rparr>,
       \<lparr>tn_who = 1, tn_now = 0, tn_order = sorted_list_of_fset\<rparr>]
      (spawn [CallFlush sorted_list_of_fset, CallFlush sorted_list_of_fset]
        ([], start_processor 0 ''b'' [])) = g \<and>
    pcs g = [Claiming None, Locking None] \<and>
    reachable plain_floats (Some recordingSink) 0 [] (view g wr)"
proof -
  let ?ts = "[\<lparr>tn_who = 0, tn_now = 0, tn_order = sorted_list_of_fset\<rparr>,
       \<lparr>tn_who = 1, tn_now = 0, tn_order = sorted_list_of_fset\<rparr>] :: turn list"
  define g where "g = run_schedule plain_floats (Some recordingSink) ?ts
    (spawn [CallFlush sorted_list_of_fset, CallFlush sorted_list_of_fset] ([], start_processor 0 ''b'' []))"
  have "pcs g = [Claiming None, Locking None]"
    by (simp add: g_def run_schedule_def go_def spawn_def Let_def)
  moreover obtain wr where "reachable plain_floats (Some recordingSink) 0 [] (view g wr)"
    using goroutines_refine [OF _ g_def [symmetric]] by (auto simp: range_order_sorted)
  ultimately show ?thesis using g_def by blast
qed

text \<open>
  C10. Every call returns. Under any schedule that gives every goroutine a turn again and again,
  whatever the sink answers and whatever the clocks read, there comes a moment when all calls
  have returned: the lock is never waited for in vain. By then every record of every call has
  been counted once, and every tool call that was handed over is buffered or emitted.
\<close>

theorem every_call_returns:
  assumes "fair (length cs) ts" and "\<forall>k. range_order (tn_order (ts k))"
  shows "\<exists>n g. run_schedule fl sink (map ts [0..<n]) (spawn cs (s, start_processor wait i v)) = g
    \<and> all_returned g
    \<and> LogRecordsSeen (stats (g_proc g)) = sum_list (map call_logs cs)
    \<and> SpansSeen (stats (g_proc g)) = sum_list (map call_spans cs)
    \<and> (\<forall>c \<in> set cs. call_keys fl c \<subseteq> known (g_proc g))"
proof -
  let ?p = "start_processor wait i v"
  have "fair (length (pcs (spawn cs (s, ?p)))) ts" using assms(1) by simp
  from fair_returns [OF lock_inv_spawn assms(2) this, of fl sink] obtain n where
    r: "all_returned (run_schedule fl sink (map ts [0..<n]) (spawn cs (s, ?p)))" ..
  define g where "g = run_schedule fl sink (map ts [0..<n]) (spawn cs (s, ?p))"
  have o: "\<forall>t \<in> set (map ts [0..<n]). range_order (tn_order t)" using assms(2) by auto
  have r: "all_returned g" using r by (simp add: g_def)
  have "seen_counts ?p = (0, 0)"
    by (simp add: seen_counts_def start_processor_def zero_stats_def)
  then have c: "seen_counts (g_proc g) = (sum_list (map call_logs cs), sum_list (map call_spans cs))"
    using returned_left [OF r] schedule_to_be_seen [of fl sink "map ts [0..<n]" "spawn cs (s, ?p)"]
    by (simp add: g_def spawn_to_be_seen)
  obtain wr where "reachable fl sink wait s (sys_of ?p Idle s {#} wr)" using reachable_start ..
  note inv = reachable_inv [OF this]
  have "call_keys fl (cs ! j) \<subseteq> known (g_proc g)" if j: "j < length cs" for j
  proof -
    have "returned (pcs g ! j)" using r j by (simp add: g_def all_returned_def list_all_length)
    then obtain err where "pcs g ! j = Returned err" by (cases "pcs g ! j") simp_all
    from returned_known [OF o inv g_def [symmetric] j this] show ?thesis .
  qed
  then have "\<forall>c \<in> set cs. call_keys fl c \<subseteq> known (g_proc g)" by (metis in_set_conv_nth)
  with r c g_def show ?thesis by (auto simp: seen_counts_def)
qed

text \<open>Three goroutines that take turns.\<close>

definition round_robin :: "nat \<Rightarrow> turn" where
  "round_robin k = \<lparr>tn_who = k mod 3, tn_now = 0, tn_order = sorted_list_of_fset\<rparr>"

lemma round_robin_fair: "fair 3 round_robin"
  unfolding fair_def
proof (intro allI impI)
  fix i m :: nat assume "i < 3"
  then have "m \<le> 3 * m + i \<and> tn_who (round_robin (3 * m + i)) = i" by (simp add: round_robin_def)
  then show "\<exists>k \<ge> m. tn_who (round_robin k) = i" by blast
qed

theorem every_call_returns_witness:
  "\<exists>n g. run_schedule plain_floats (Some recordingSink) (map round_robin [0..<n])
      (spawn demo_calls ([], start_processor 0 ''b'' [])) = g \<and> all_returned g \<and>
    LogRecordsSeen (stats (g_proc g)) = 1 \<and> SpansSeen (stats (g_proc g)) = 2"
proof -
  have "length demo_calls = 3" by (simp add: demo_calls_def)
  then have "fair (length demo_calls) round_robin" using round_robin_fair by (simp only:)
  moreover have "\<forall>k. range_order (tn_order (round_robin k))"
    by (simp add: round_robin_def range_order_sorted)
  ultimately obtain n g where
    g: "run_schedule plain_floats (Some recordingSink) (map round_robin [0..<n])
      (spawn demo_calls ([], start_processor 0 ''b'' [])) = g" "all_returned g"
    "LogRecordsSeen (stats (g_proc g)) = sum_list (map call_logs demo_calls)"
    "SpansSeen (stats (g_proc g)) = sum_list (map call_spans demo_calls)"
    using every_call_returns [of demo_calls round_robin plain_floats "Some recordingSink" "[]" 0 "''b''" "[]"]
    by blast
  moreover have "sum_list (map call_logs demo_calls) = 1" "sum_list (map call_spans demo_calls) = 2"
    by (simp_all add: demo_calls_def call_logs_def call_spans_def)
  ultimately show ?thesis by metis
qed

text \<open>
  Serving one request after the other is one of the schedules: for every sequence of calls
  there is a schedule of their goroutines that ends in the same processor and the same sink and
  gives every caller the same answer, with the lock free.
\<close>

lemma serial_schedule:
  assumes "run_calls fl sink cs (s, p) = (s', p')" and "\<forall>c \<in> set cs. range_order (call_order c)"
  shows "\<exists>sched. (\<forall>t \<in> set sched. range_order (tn_order t)) \<and>
    run_schedule fl sink sched (spawn cs (s, p)) =
      \<lparr>g_proc = p', g_sink = s', assembleMu = False, pcs = map Returned (run_errors fl sink cs (s, p))\<rparr>"
  using run_calls_schedule [OF assms, of "[]"] by (simp add: spawn_def)

end
