(* ===== verification/Config.thy ===== *)
theory Config
  imports Prelude
begin

text \<open>
  \<open>internal/config/config.go\<close>, with \<open>time.ParseDuration\<close> of the standard library, on which the
  merge wait depends. The environment is a function from names to values, empty when unset.
  The one step of \<open>ParseDuration\<close> in binary floating point, the nanoseconds of a decimal
  fraction \<open>f / scale\<close> of a unit, is the argument \<open>frac_ns\<close>. Sums are taken modulo \<open>2 ^ 64\<close>, as
  \<open>uint64\<close> does.
\<close>

section \<open>ParseDuration\<close>

definition digit_value :: "char \<Rightarrow> nat option" where
  "digit_value c = (let n = (of_char c :: nat) in if 48 \<le> n \<and> n \<le> 57 then Some (n - 48) else None)"

text \<open>The digits at the head of a string, \<open>None\<close> on overflow of 63 bits.\<close>

fun leadingInt :: "nat \<Rightarrow> string \<Rightarrow> (nat \<times> string) option" where
  "leadingInt x [] = Some (x, [])"
| "leadingInt x (c # s) =
     (case digit_value c of
        None \<Rightarrow> Some (x, c # s)
      | Some d \<Rightarrow>
          if x > 2 ^ 63 div 10 then None
          else let x = x * 10 + d in if x > 2 ^ 63 then None else leadingInt x s)"

text \<open>The digits of a fraction and their scale; digits beyond 63 bits are read and dropped.\<close>

fun leadingFraction :: "nat \<Rightarrow> nat \<Rightarrow> bool \<Rightarrow> string \<Rightarrow> nat \<times> nat \<times> string" where
  "leadingFraction x scale over [] = (x, scale, [])"
| "leadingFraction x scale over (c # s) =
     (case digit_value c of
        None \<Rightarrow> (x, scale, c # s)
      | Some d \<Rightarrow>
          if over \<or> x > (2 ^ 63 - 1) div 10 \<or> x * 10 + d > 2 ^ 63
          then leadingFraction x scale True s
          else leadingFraction (x * 10 + d) (scale * 10) False s)"

definition unitMap :: "(string \<times> nat) list" where
  "unitMap =
     [(''ns'', 1), (''us'', 1000), ([CHR 0xC2, CHR 0xB5] @ ''s'', 1000),
      ([CHR 0xCE, CHR 0xBC] @ ''s'', 1000), (''ms'', 1000000), (''s'', 1000000000),
      (''m'', 60000000000), (''h'', 3600000000000)]"

definition unit_char :: "char \<Rightarrow> bool" where
  "unit_char c \<longleftrightarrow> c \<noteq> CHR ''.'' \<and> digit_value c = None"

text \<open>
  One \<open>number unit\<close> group: its nanoseconds and the rest, which is shorter than the string.
\<close>

definition duration_group ::
  "(nat \<Rightarrow> nat \<Rightarrow> nat \<Rightarrow> nat) \<Rightarrow> string \<Rightarrow> (nat \<times> string) option" where
  "duration_group frac_ns s =
     (if s = [] \<or> unit_char (hd s) then None
      else (case leadingInt 0 s of
          None \<Rightarrow> None
        | Some (v, s1) \<Rightarrow>
            let pre = (length s1 \<noteq> length s);
                dot = (s1 \<noteq> [] \<and> hd s1 = CHR ''.'');
                (f, scale, s2) = (if dot then leadingFraction 0 1 False (tl s1) else (0, 1, s1));
                post = (dot \<and> length s2 \<noteq> length (tl s1));
                u = takeWhile unit_char s2
            in if \<not> pre \<and> \<not> post \<or> u = [] then None
               else (case map_of unitMap u of
                   None \<Rightarrow> None
                 | Some un \<Rightarrow>
                     if v > 2 ^ 63 div un then None
                     else let v = v * un; v' = (if f > 0 then (v + frac_ns f scale un) mod 2 ^ 64 else v)
                          in if f > 0 \<and> v' > 2 ^ 63 then None
                             else Some (v', dropWhile unit_char s2))))"

lemma leadingInt_length: "leadingInt x s = Some (v, t) \<Longrightarrow> length t \<le> length s"
  by (induction x s rule: leadingInt.induct)
    (auto simp: Let_def split: option.splits if_splits intro: le_SucI)

lemma leadingFraction_length: "length (snd (snd (leadingFraction x sc b s))) \<le> length s"
  by (induction x sc b s rule: leadingFraction.induct) (auto split: option.splits)

lemma dropWhile_shorter: "takeWhile P s \<noteq> [] \<Longrightarrow> length (dropWhile P s) < length s"
  by (cases s) (auto simp: less_Suc_eq_le length_dropWhile_le split: if_splits)

lemma duration_group_length:
  assumes "duration_group frac_ns s = Some (d, t)"
  shows "length t < length s"
proof -
  obtain v s1 where l: "leadingInt 0 s = Some (v, s1)"
    using assms by (auto simp: duration_group_def split: if_splits option.splits)
  define s2 where "s2 = (if s1 \<noteq> [] \<and> hd s1 = CHR ''.''
    then snd (snd (leadingFraction 0 1 False (tl s1))) else s1)"
  have "t = dropWhile unit_char s2" "takeWhile unit_char s2 \<noteq> []"
    using assms l unfolding s2_def
    by (auto simp: duration_group_def Let_def case_prod_beta split: if_splits option.splits)
  then have "length t < length s2" using dropWhile_shorter by simp
  also have "length s2 \<le> length s1"
    using leadingFraction_length [of 0 1 False "tl s1"] by (auto simp: s2_def)
  also have "length s1 \<le> length s" using leadingInt_length [OF l] .
  finally show ?thesis .
qed

function duration_groups ::
  "(nat \<Rightarrow> nat \<Rightarrow> nat \<Rightarrow> nat) \<Rightarrow> nat \<Rightarrow> string \<Rightarrow> nat option" where
  "duration_groups frac_ns d s =
     (if s = [] then Some d
      else (case duration_group frac_ns s of
          None \<Rightarrow> None
        | Some (v, t) \<Rightarrow>
            let d = (d + v) mod 2 ^ 64 in if d > 2 ^ 63 then None else duration_groups frac_ns d t))"
  by pat_completeness auto
termination
  by (relation "measure (\<lambda>(frac_ns, d, s). length s)") (auto dest: duration_group_length)

declare duration_groups.simps [simp del]

definition ParseDuration :: "(nat \<Rightarrow> nat \<Rightarrow> nat \<Rightarrow> nat) \<Rightarrow> string \<Rightarrow> int option" where
  "ParseDuration frac_ns s =
     (let neg = (s \<noteq> [] \<and> hd s = CHR ''-'');
          s = (if s \<noteq> [] \<and> (hd s = CHR ''-'' \<or> hd s = CHR ''+'') then tl s else s)
      in if s = ''0'' then Some 0
         else if s = [] then None
         else (case duration_groups frac_ns 0 s of
             None \<Rightarrow> None
           | Some d \<Rightarrow>
               if neg then Some (- int d) else if d > 2 ^ 63 - 1 then None else Some (int d)))"

section \<open>LoadConfig\<close>

record config =
  ListenAddr :: string
  GRPCListenAddr :: string
  ObservationsPath :: string
  MergeWait :: int
  cfg_ObserverID :: string
  cfg_ObserverVersion :: string

type_synonym getenv = "string \<Rightarrow> string"

definition envOrDefault :: "getenv \<Rightarrow> string \<Rightarrow> string \<Rightarrow> string" where
  "envOrDefault env key fallback = (let value = env key in if value \<noteq> [] then value else fallback)"

definition envDurationOrDefault ::
  "(nat \<Rightarrow> nat \<Rightarrow> nat \<Rightarrow> nat) \<Rightarrow> getenv \<Rightarrow> string \<Rightarrow> int \<Rightarrow> int" where
  "envDurationOrDefault frac_ns env key fallback =
     (let raw = env key
      in if raw = [] then fallback
         else (case ParseDuration frac_ns raw of None \<Rightarrow> fallback | Some parsed \<Rightarrow> parsed))"

definition Second :: int where "Second = 1000000000"

definition LoadConfig :: "(nat \<Rightarrow> nat \<Rightarrow> nat \<Rightarrow> nat) \<Rightarrow> getenv \<Rightarrow> config" where
  "LoadConfig frac_ns env =
     \<lparr>ListenAddr = envOrDefault env ''EVIDRA_BRIDGE_LISTEN_ADDR'' '':4318'',
      GRPCListenAddr = envOrDefault env ''EVIDRA_BRIDGE_GRPC_LISTEN_ADDR'' '':4317'',
      ObservationsPath = envOrDefault env ''EVIDRA_BRIDGE_OBSERVATIONS'' ''output/observations.jsonl'',
      MergeWait = envDurationOrDefault frac_ns env ''EVIDRA_BRIDGE_MERGE_WAIT'' (30 * Second),
      cfg_ObserverID = envOrDefault env ''EVIDRA_BRIDGE_OBSERVER_ID'' ''agentgateway-bridge'',
      cfg_ObserverVersion = env ''EVIDRA_BRIDGE_OBSERVER_VERSION''\<rparr>"

section \<open>Whole numbers of a unit\<close>

lemma digit_value_char_of: "d < 10 \<Longrightarrow> digit_value (char_of (48 + d)) = Some d"
  by (simp add: digit_value_def)

lemma decimal_nat_Nil [simp]: "decimal_nat n \<noteq> []"
  by (subst decimal_nat.simps) simp

lemma leadingInt_decimal:
  assumes "x * 10 ^ length (decimal_nat n) + n \<le> 2 ^ 63"
  shows "leadingInt x (decimal_nat n @ s) = leadingInt (x * 10 ^ length (decimal_nat n) + n) s"
  using assms
proof (induction n arbitrary: s rule: decimal_nat.induct)
  case (1 n)
  show ?case
  proof (cases "n < 10")
    case True
    then have "decimal_nat n = [char_of (48 + n)]" by (simp add: decimal_nat.simps)
    moreover have "x \<le> 2 ^ 63 div 10" using 1(2) calculation by (simp add: less_eq_div_iff_mult_less_eq)
    ultimately show ?thesis using 1(2) True digit_value_char_of [OF True] by (simp add: Let_def)
  next
    case False
    let ?m = "n div 10" and ?d = "n mod 10"
    let ?y = "x * 10 ^ length (decimal_nat ?m) + ?m"
    have n: "n = ?m * 10 + ?d" by simp
    have dn: "decimal_nat n = decimal_nat ?m @ [char_of (48 + ?d)]"
      using False by (subst decimal_nat.simps) simp
    have y: "?y * 10 + ?d = x * 10 ^ length (decimal_nat n) + n"
      by (simp add: dn algebra_simps)
    have b: "?y * 10 + ?d \<le> 2 ^ 63" unfolding y by (rule 1(2))
    then have "?y \<le> 2 ^ 63 div 10" by (simp add: less_eq_div_iff_mult_less_eq)
    moreover have "leadingInt x (decimal_nat ?m @ char_of (48 + ?d) # s)
        = leadingInt ?y (char_of (48 + ?d) # s)"
    proof (rule 1(1) [OF False])
      show "?y \<le> 2 ^ 63" by (rule le_trans [OF _ b]) simp
    qed
    moreover have "digit_value (char_of (48 + ?d)) = Some ?d" by (rule digit_value_char_of) simp
    ultimately have "leadingInt x (decimal_nat n @ s) = leadingInt (?y * 10 + ?d) s"
      using b by (simp add: dn Let_def del: mod_mult_self1)
    then show ?thesis by (simp only: y)
  qed
qed

lemma leadingInt_overflow:
  assumes "2 ^ 63 < x * 10 ^ length (decimal_nat n) + n" and "x \<le> 2 ^ 63"
  shows "leadingInt x (decimal_nat n @ s) = None"
  using assms
proof (induction n arbitrary: s rule: decimal_nat.induct)
  case (1 n)
  show ?case
  proof (cases "n < 10")
    case True
    then have "decimal_nat n = [char_of (48 + n)]" by (simp add: decimal_nat.simps)
    then show ?thesis using 1(2) digit_value_char_of [OF True] by (simp add: Let_def)
  next
    case False
    let ?m = "n div 10" and ?d = "n mod 10"
    let ?y = "x * 10 ^ length (decimal_nat ?m) + ?m" and ?c = "char_of (48 + ?d) :: char"
    have n: "n = ?m * 10 + ?d" by simp
    have dn: "decimal_nat n = decimal_nat ?m @ [?c]"
      using False by (subst decimal_nat.simps) simp
    have y: "?y * 10 + ?d = x * 10 ^ length (decimal_nat n) + n"
      by (simp add: dn algebra_simps)
    have big: "2 ^ 63 < ?y * 10 + ?d" unfolding y by (rule 1(2))
    show ?thesis
    proof (cases "?y \<le> 2 ^ 63")
      case True
      have "digit_value ?c = Some ?d" by (rule digit_value_char_of) simp
      then have "leadingInt ?y (?c # s) = None" using big by (simp add: Let_def del: mod_mult_self1)
      then show ?thesis using leadingInt_decimal [OF True, of "?c # s"] by (simp add: dn)
    next
      case False
      then show ?thesis using 1(1) [OF \<open>\<not> n < 10\<close> _ assms(2), of "?c # s"] by (simp add: dn)
    qed
  qed
qed

lemma decimal_nat_hd: "digit_value (hd (decimal_nat n)) \<noteq> None"
proof (induction n rule: decimal_nat.induct)
  case (1 n)
  show ?case
  proof (cases "n < 10")
    case True
    then show ?thesis by (simp add: decimal_nat.simps [of n] digit_value_char_of)
  next
    case False
    then have "hd (decimal_nat n) = hd (decimal_nat (n div 10))"
      by (subst decimal_nat.simps) simp
    then show ?thesis using 1 [OF False] by simp
  qed
qed


text \<open>The units that the documentation names, each spelled without digits or dots.\<close>

lemma unitMap_unit_chars: "map_of unitMap u = Some un \<Longrightarrow> u \<noteq> [] \<and> list_all unit_char u \<and> 0 < un"
proof -
  have "list_all (\<lambda>(u, un). u \<noteq> [] \<and> list_all unit_char u \<and> 0 < un) unitMap"
    by (simp add: unitMap_def unit_char_def digit_value_def)
  moreover assume "map_of unitMap u = Some un"
  ultimately show ?thesis by (auto simp: list_all_iff dest!: map_of_SomeD)
qed

lemma ParseDuration_whole:
  assumes "map_of unitMap u = Some un"
  shows "ParseDuration frac_ns (decimal_nat n @ u) =
    (if n * un < 2 ^ 63 then Some (int (n * un)) else None)"
proof -
  obtain c cs where u: "u = c # cs" "unit_char c" "list_all unit_char u" "0 < un"
    using unitMap_unit_chars [OF assms(1)] by (cases u) auto
  let ?s = "decimal_nat n @ u"
  have le: "n * 1 \<le> n * un" using u(4) by (intro mult_le_mono2) simp
  have dc: "digit_value c = None" "c \<noteq> CHR ''.''" using u(2) by (simp_all add: unit_char_def)
  have h: "digit_value (hd ?s) \<noteq> None" using decimal_nat_hd by simp
  then have nu: "\<not> unit_char (hd ?s)" by (simp add: unit_char_def)
  have tw: "takeWhile unit_char u = u" "dropWhile unit_char u = []"
    using u(3) by (simp_all add: list_all_iff takeWhile_eq_all_conv)
  have g: "duration_group frac_ns ?s = (if n * un \<le> 2 ^ 63 then Some (n * un, []) else None)"
  proof (cases "n \<le> 2 ^ 63")
    case True
    then have "leadingInt 0 ?s = Some (n, u)"
      using leadingInt_decimal [of 0 n u] dc u(1) by simp
    moreover have "n \<le> 2 ^ 63 div un \<longleftrightarrow> n * un \<le> 2 ^ 63"
      using u(4) by (rule less_eq_div_iff_mult_less_eq)
    ultimately show ?thesis
      using nu tw assms(1) u(1) dc(2)
      by (auto simp: duration_group_def Let_def not_le simp del: append_eq_append_conv)
  next
    case False
    then have "leadingInt 0 ?s = None" using leadingInt_overflow [of 0 n u] by simp
    moreover have "\<not> n * un \<le> 2 ^ 63" using False le by linarith
    ultimately show ?thesis using nu by (simp add: duration_group_def)
  qed
  have gs: "duration_groups frac_ns 0 ?s = (if n * un \<le> 2 ^ 63 then Some (n * un) else None)"
    using g
    by (subst duration_groups.simps) (simp add: duration_groups.simps [of _ _ "[]"] Let_def)
  have sign: "hd ?s \<noteq> CHR ''-''" "hd ?s \<noteq> CHR ''+''"
    using h by (auto simp: digit_value_def)
  have "?s \<noteq> ''0''" using u(1) dc(1) by (cases "decimal_nat n") (auto simp: digit_value_def)
  then show ?thesis using gs sign by (auto simp: ParseDuration_def Let_def)
qed

section \<open>Properties\<close>

text \<open>
  Every setting is usable. Whatever the environment holds, the addresses, the path of
  the observations and the observer id are not empty; and the merge wait is 30 seconds when
  it is not set or cannot be parsed, never zero by mistake, and otherwise what was written.
\<close>

theorem config_usable:
  "ListenAddr (LoadConfig frac_ns env) \<noteq> [] \<and> GRPCListenAddr (LoadConfig frac_ns env) \<noteq> [] \<and>
   ObservationsPath (LoadConfig frac_ns env) \<noteq> [] \<and> cfg_ObserverID (LoadConfig frac_ns env) \<noteq> [] \<and>
   MergeWait (LoadConfig frac_ns env) =
     (case ParseDuration frac_ns (env ''EVIDRA_BRIDGE_MERGE_WAIT'') of
        None \<Rightarrow> 30000000000 | Some d \<Rightarrow> d)"
proof -
  have "ParseDuration frac_ns [] = None" by (simp add: ParseDuration_def)
  then show ?thesis
    by (simp add: LoadConfig_def envOrDefault_def envDurationOrDefault_def Let_def Second_def
        split: option.split)
qed

text \<open>
  C37. A whole number of a unit is read exactly, if it fits. A merge wait written as decimal
  digits and one of the units of \<open>ParseDuration\<close>, from ns to h, becomes that many nanoseconds when
  these are less than \<open>2 ^ 63\<close>, and 30 seconds otherwise: no number of digits wraps around.
\<close>

theorem merge_wait_exact:
  assumes "map_of unitMap u = Some un"
    and "env ''EVIDRA_BRIDGE_MERGE_WAIT'' = decimal_nat n @ u"
  shows "MergeWait (LoadConfig frac_ns env) =
    (if n * un < 2 ^ 63 then int (n * un) else 30000000000)"
  using ParseDuration_whole [OF assms(1), of frac_ns n] assms(2)
  by (simp add: LoadConfig_def envDurationOrDefault_def Let_def Second_def)

theorem merge_wait_exact_witness:
  "MergeWait (LoadConfig (\<lambda>f scale un. f * un div scale)
     (\<lambda>k. if k = ''EVIDRA_BRIDGE_MERGE_WAIT'' then decimal_nat 45 @ ''s'' else [])) = 45000000000
   \<and> MergeWait (LoadConfig (\<lambda>f scale un. f * un div scale)
     (\<lambda>k. if k = ''EVIDRA_BRIDGE_MERGE_WAIT'' then decimal_nat 9999999 @ ''h'' else [])) = 30000000000"
proof -
  have u: "map_of unitMap ''s'' = Some 1000000000" "map_of unitMap ''h'' = Some 3600000000000"
    by (simp_all add: unitMap_def)
  show ?thesis
    using merge_wait_exact [OF u(1), of
        "\<lambda>k. if k = ''EVIDRA_BRIDGE_MERGE_WAIT'' then decimal_nat 45 @ ''s'' else []" 45]
      merge_wait_exact [OF u(2), of
        "\<lambda>k. if k = ''EVIDRA_BRIDGE_MERGE_WAIT'' then decimal_nat 9999999 @ ''h'' else []" 9999999]
    by simp
qed

end
