(* ===== verification/Lifecycle.thy ===== *)
theory Lifecycle
  imports Concurrent Config
begin

text \<open>
  \<open>cmd/bridge/main.go\<close>: the life of the bridge process. It loads its configuration, opens the
  sink, serves until a signal, and then drains HTTP, gRPC and the processor under one
  deadline. Instants and durations are \<^typ>\<open>int\<close> nanoseconds; an event that never comes is
  \<open>None\<close>. Where a \<open>select\<close> finds both of its channels ready, Go picks one at random: the pick
  is an argument. \<open>Shutdown\<close>, \<open>GracefulStop\<close> and \<open>Stop\<close> belong to \<open>net/http\<close> and to the
  gRPC library; how long they take and what they answer is an argument too.
\<close>

section \<open>The shutdown\<close>

datatype 'e flush_err = FlushFailed 'e | FlushDeadline

record 'e shutdownResult =
  httpErr :: "io_err option"
  flushErr :: "'e flush_err option"
  closeErr :: "sink_err option"
  grpcForced :: bool
  flushTimedOut :: bool

definition exitCode :: "'e shutdownResult \<Rightarrow> nat" where
  "exitCode r =
     (if httpErr r \<noteq> None \<or> flushErr r \<noteq> None \<or> closeErr r \<noteq> None \<or> grpcForced r then 1 else 0)"

definition finalizeShutdown ::
  "'e shutdownResult \<Rightarrow> ('f \<Rightarrow> sink_err option \<times> 'f) \<Rightarrow> 'f \<Rightarrow> 'e shutdownResult \<times> 'f" where
  "finalizeShutdown result closeOutput f =
     (if \<not> flushTimedOut result
      then (case closeOutput f of (err, f) \<Rightarrow> (result\<lparr>closeErr := err\<rparr>, f))
      else (result, f))"

record drain_env =
  http_answer :: "io_err option"
  http_took :: int
  graceful_took :: "int option"
  stop_took :: int
  flush_took :: "int option"
  grpc_pick :: bool
  flush_pick :: bool

text \<open>
  A \<open>select\<close> entered at \<open>now\<close> between a channel that is ready at \<open>ready\<close> and a context that
  is done at \<open>deadline\<close>: whether the channel wins, and when.
\<close>

definition select_channel :: "bool \<Rightarrow> int \<Rightarrow> int \<Rightarrow> int option \<Rightarrow> bool \<times> int" where
  "select_channel pick deadline now ready =
     (case ready of
        None \<Rightarrow> (False, max now deadline)
      | Some t \<Rightarrow>
          if max now t < max now deadline \<or> max now t = max now deadline \<and> pick
          then (True, max now t) else (False, max now deadline))"

definition stopGRPC :: "drain_env \<Rightarrow> int \<Rightarrow> int \<Rightarrow> bool \<times> int" where
  "stopGRPC env deadline now =
     (case select_channel (grpc_pick env) deadline now (map_option ((+) now) (graceful_took env)) of
        (True, t) \<Rightarrow> (False, t)
      | (False, t) \<Rightarrow> (True, t + stop_took env))"

text \<open>
  The flush runs to its end or is left running when the deadline comes first; then what it has
  done to the processor and the sink by that time is \<open>abandoned\<close>.
\<close>

definition flushProcessor ::
  "drain_env \<Rightarrow> ('st \<Rightarrow> 'e option \<times> 'st) \<Rightarrow> ('st \<Rightarrow> 'st) \<Rightarrow> int \<Rightarrow> int \<Rightarrow> 'st
     \<Rightarrow> 'e flush_err option \<times> int \<times> 'st" where
  "flushProcessor env flush abandoned deadline now st =
     (if deadline \<le> now then (Some FlushDeadline, now, st)
      else (case select_channel (flush_pick env) deadline now
                   (map_option ((+) now) (flush_took env)) of
          (True, t) \<Rightarrow> (case flush st of (err, st) \<Rightarrow> (map_option FlushFailed err, t, st))
        | (False, t) \<Rightarrow> (Some FlushDeadline, t, abandoned st)))"

definition shutdownServices ::
  "drain_env \<Rightarrow> ('st \<Rightarrow> 'e option \<times> 'st) \<Rightarrow> ('st \<Rightarrow> 'st) \<Rightarrow> int \<Rightarrow> int \<Rightarrow> 'st
     \<Rightarrow> 'e shutdownResult \<times> int \<times> 'st" where
  "shutdownServices env flush abandoned deadline now st =
     (let t1 = now + http_took env;
          (forced, t2) = stopGRPC env deadline t1;
          (ferr, t3, st) = flushProcessor env flush abandoned deadline t2 st
      in (\<lparr>httpErr = http_answer env, flushErr = ferr, closeErr = None, grpcForced = forced,
           flushTimedOut = (ferr = Some FlushDeadline)\<rparr>, t3, st))"

section \<open>run\<close>

definition Version :: string where "Version = ''dev''"

definition shutdownTimeout :: int where "shutdownTimeout = 10 * Second"

text \<open>
  What the process meets: its environment, the answers of the file system, whether the two
  listeners come up and stay up, the requests until the signal, and the drain.
\<close>

record run_env =
  re_getenv :: getenv
  re_open :: open_env
  re_answers :: "nat \<Rightarrow> write_env"
  re_grpc_listen :: "io_err option"
  re_http_serve :: "io_err option"
  re_codec :: otlp_codec
  re_arrivals :: "arrival list"
  re_signal :: int
  re_rng :: range_fn
  re_drain :: drain_env
  re_abandoned :: "jsonl_world \<times> processor \<Rightarrow> jsonl_world \<times> processor"
  re_close_fault :: "io_err option"

text \<open>What the process logs, the \<open>Fatalf\<close> lines included; of an error text only the error.\<close>

datatype log_line =
    LogSinkFailed sink_err
  | LogListenFailed io_err
  | LogServeFailed io_err
  | LogNormalizing string int
  | LogShuttingDown
  | LogHttpShutdown io_err
  | LogGrpcForced
  | LogFlush "sink_err flush_err"
  | LogClose sink_err
  | LogDeadlineStats string
  | LogFinalStats string

record run_outcome =
  ro_exit :: nat
  ro_stdout :: string
  ro_log :: "log_line list"
  ro_end :: "(jsonl_world \<times> processor) option"

definition served ::
  "float_lib \<Rightarrow> (nat \<Rightarrow> nat \<Rightarrow> nat \<Rightarrow> nat) \<Rightarrow> (string \<Rightarrow> string) \<Rightarrow> run_env \<Rightarrow> jsonl
     \<Rightarrow> jsonl_world \<times> processor" where
  "served fl frac_ns quote env out =
     (let cfg = LoadConfig frac_ns (re_getenv env);
          processor = NewProcessor (MergeWait cfg);
          processor = SetObserver (cfg_ObserverID cfg) (cfg_ObserverVersion cfg) processor
      in snd (serve_all fl (Some (jsonl_sink quote)) (re_codec env) (re_arrivals env)
                ((out, re_answers env), processor)))"

definition close_world :: "io_err option \<Rightarrow> jsonl_world \<times> processor
    \<Rightarrow> sink_err option \<times> jsonl_world \<times> processor" where
  "close_world fault st =
     (case st of ((s, answers), p) \<Rightarrow>
        (case JSONL_Close fault s of (err, s) \<Rightarrow> (err, (s, answers), p)))"

definition drain_log :: "sink_err shutdownResult \<Rightarrow> processor \<Rightarrow> log_line list" where
  "drain_log result p =
     (case httpErr result of None \<Rightarrow> [] | Some err \<Rightarrow> [LogHttpShutdown err])
     @ (if grpcForced result then [LogGrpcForced] else [])
     @ (case flushErr result of None \<Rightarrow> [] | Some err \<Rightarrow> [LogFlush err])
     @ (case closeErr result of None \<Rightarrow> [] | Some err \<Rightarrow> [LogClose err])
     @ (let raw = stats_json (ProcessorStats p)
        in if flushTimedOut result then [LogDeadlineStats raw] else [LogFinalStats raw])"

text \<open>
  What runs beside \<open>run\<close>: its state while the servers serve, up to the end of their drain; what
  the flush makes of it and what it has become when the deadline comes first; the close; and
  the sink and the processor in it.
\<close>

record 'st hosted =
  ho_serve :: "jsonl \<Rightarrow> 'st"
  ho_drain :: "'st \<Rightarrow> drain_env"
  ho_flush :: "'st \<Rightarrow> sink_err option \<times> 'st"
  ho_abandoned :: "'st \<Rightarrow> 'st"
  ho_close :: "'st \<Rightarrow> sink_err option \<times> 'st"
  ho_world :: "'st \<Rightarrow> jsonl_world \<times> processor"

definition run_hosted ::
  "(nat \<Rightarrow> nat \<Rightarrow> nat \<Rightarrow> nat) \<Rightarrow> run_env \<Rightarrow> 'st hosted \<Rightarrow> string list \<Rightarrow> run_outcome" where
  "run_hosted frac_ns env h args =
     (if args = [''--version'']
      then \<lparr>ro_exit = 0, ro_stdout = ''evidra-agentgateway '' @ Version @ [newline], ro_log = [],
            ro_end = None\<rparr>
      else
        let cfg = LoadConfig frac_ns (re_getenv env)
        in case NewJSONL (re_open env) (ObservationsPath cfg) of
          Inl err \<Rightarrow> \<lparr>ro_exit = 1, ro_stdout = [], ro_log = [LogSinkFailed err], ro_end = None\<rparr>
        | Inr out \<Rightarrow>
            let hello = LogNormalizing (ObservationsPath cfg) (MergeWait cfg)
            in case re_grpc_listen env of
              Some err \<Rightarrow>
                \<lparr>ro_exit = 1, ro_stdout = [], ro_log = [hello, LogListenFailed err], ro_end = None\<rparr>
            | None \<Rightarrow>
                let st = ho_serve h out
                in case re_http_serve env of
                  Some err \<Rightarrow>
                    \<lparr>ro_exit = 1, ro_stdout = [], ro_log = [hello, LogServeFailed err],
                     ro_end = Some (ho_world h st)\<rparr>
                | None \<Rightarrow>
                    let (result, t, st) =
                          shutdownServices (ho_drain h st) (ho_flush h) (ho_abandoned h)
                            (re_signal env + shutdownTimeout) (re_signal env) st;
                        (result, st) = finalizeShutdown result (ho_close h) st
                    in \<lparr>ro_exit = exitCode result, ro_stdout = [],
                        ro_log = [hello, LogShuttingDown] @ drain_log result (snd (ho_world h st)),
                        ro_end = Some (ho_world h st)\<rparr>)"

text \<open>\<open>run\<close> when the servers serve one request after the other and nothing disturbs the flush.\<close>

definition run ::
  "float_lib \<Rightarrow> (nat \<Rightarrow> nat \<Rightarrow> nat \<Rightarrow> nat) \<Rightarrow> (string \<Rightarrow> string) \<Rightarrow> run_env \<Rightarrow> string list
     \<Rightarrow> run_outcome" where
  "run fl frac_ns quote env args =
     run_hosted frac_ns env
       \<lparr>ho_serve = served fl frac_ns quote env, ho_drain = (\<lambda>_. re_drain env),
        ho_flush = Flush (Some (jsonl_sink quote)) (re_rng env), ho_abandoned = re_abandoned env,
        ho_close = close_world (re_close_fault env), ho_world = (\<lambda>st. st)\<rparr> args"

text \<open>The calls of the processor that the requests of a run amount to.\<close>

definition re_calls :: "run_env \<Rightarrow> call list" where
  "re_calls env = arrival_calls (re_codec env) (re_arrivals env)"

text \<open>
  \<open>run\<close> when each request is handled by a goroutine and the flush is one more, which the drain
  starts beside those that are still running. The turns up to the end of the drain of the two
  servers and those from then on are given; a goroutine that never has a turn belongs to a
  request that never came. The flush has ended in time when its goroutine has returned.
\<close>

record schedule =
  sc_serving :: "turn list"
  sc_flush :: "turn list"

definition served_together ::
  "float_lib \<Rightarrow> (nat \<Rightarrow> nat \<Rightarrow> nat \<Rightarrow> nat) \<Rightarrow> (string \<Rightarrow> string) \<Rightarrow> run_env \<Rightarrow> schedule \<Rightarrow> jsonl
     \<Rightarrow> (jsonl_world, sink_err) goroutines" where
  "served_together fl frac_ns quote env sc out =
     (let cfg = LoadConfig frac_ns (re_getenv env);
          processor = NewProcessor (MergeWait cfg);
          processor = SetObserver (cfg_ObserverID cfg) (cfg_ObserverVersion cfg) processor
      in run_schedule fl (Some (jsonl_sink quote)) (sc_serving sc)
           (spawn (re_calls env) ((out, re_answers env), processor)))"

definition flushed_together ::
  "float_lib \<Rightarrow> (string \<Rightarrow> string) \<Rightarrow> schedule \<Rightarrow> (jsonl_world, sink_err) goroutines
     \<Rightarrow> (jsonl_world, sink_err) goroutines" where
  "flushed_together fl quote sc g =
     run_schedule fl (Some (jsonl_sink quote)) (sc_flush sc) (g\<lparr>pcs := pcs g @ [Locking None]\<rparr>)"

definition returned_error :: "'e pc \<Rightarrow> 'e option" where
  "returned_error pc = (case pc of Returned err \<Rightarrow> err | _ \<Rightarrow> None)"

definition close_together ::
  "io_err option \<Rightarrow> (jsonl_world, 'e) goroutines \<Rightarrow> sink_err option \<times> (jsonl_world, 'e) goroutines" where
  "close_together fault g =
     (case JSONL_Close fault (fst (g_sink g)) of
        (err, s) \<Rightarrow> (err, g\<lparr>g_sink := (s, snd (g_sink g))\<rparr>))"

definition run_together ::
  "float_lib \<Rightarrow> (nat \<Rightarrow> nat \<Rightarrow> nat \<Rightarrow> nat) \<Rightarrow> (string \<Rightarrow> string) \<Rightarrow> schedule \<Rightarrow> run_env \<Rightarrow> string list
     \<Rightarrow> run_outcome" where
  "run_together fl frac_ns quote sc env args =
     run_hosted frac_ns env
       \<lparr>ho_serve = served_together fl frac_ns quote env sc,
        ho_drain = (\<lambda>g. (re_drain env)\<lparr>flush_took :=
          if returned (last (pcs (flushed_together fl quote sc g)))
          then flush_took (re_drain env) else None\<rparr>),
        ho_flush = (\<lambda>g. let g' = flushed_together fl quote sc g
          in (returned_error (last (pcs g')), g')),
        ho_abandoned = flushed_together fl quote sc,
        ho_close = close_together (re_close_fault env),
        ho_world = (\<lambda>g. (g_sink g, g_proc g))\<rparr> args"

section \<open>The drain\<close>

lemma select_channel_time:
  assumes "select_channel pick deadline now ready = (won, t)"
  shows "now \<le> t \<and> t \<le> max now deadline"
  using assms by (auto simp: select_channel_def split: option.splits if_splits)

lemma stopGRPC_time:
  assumes "stopGRPC env deadline now = (forced, t)" and "0 \<le> stop_took env"
  shows "now \<le> t \<and> t \<le> max now deadline + (if forced then stop_took env else 0)"
proof -
  obtain won u where s: "select_channel (grpc_pick env) deadline now
      (map_option ((+) now) (graceful_took env)) = (won, u)" by fastforce
  then show ?thesis
    using assms select_channel_time [OF s]
    by (cases won) (auto simp: stopGRPC_def split: prod.splits bool.splits)
qed

lemma flushProcessor_time:
  assumes "flushProcessor env flush ab deadline now st = (e, t, st')"
  shows "now \<le> t \<and> t \<le> max now deadline"
proof -
  obtain won u where s: "select_channel (flush_pick env) deadline now
      (map_option ((+) now) (flush_took env)) = (won, u)" by fastforce
  then show ?thesis
    using assms select_channel_time [OF s]
    by (cases won) (auto simp: flushProcessor_def split: prod.splits if_splits)
qed

lemma flushProcessor_nil:
  assumes "flushProcessor env flush ab deadline now st = (None, t, st')"
  shows "flush st = (None, st') \<and> flush_took env \<noteq> None"
proof -
  obtain won u where s: "select_channel (flush_pick env) deadline now
      (map_option ((+) now) (flush_took env)) = (won, u)" by fastforce
  then show ?thesis
    using assms by (cases won)
      (auto simp: flushProcessor_def select_channel_def split: prod.splits if_splits option.splits)
qed

lemma stopGRPC_graceful:
  assumes "stopGRPC env deadline now = (False, t)"
  shows "graceful_took env \<noteq> None"
proof
  assume "graceful_took env = None"
  with assms show False by (simp add: stopGRPC_def select_channel_def)
qed

lemma shutdownServices_drained:
  assumes "shutdownServices env flush ab deadline now st = (r, t, st')" and "\<not> grpcForced r"
  shows "httpErr r = http_answer env \<and> graceful_took env \<noteq> None"
  using assms stopGRPC_graceful [of env deadline]
  by (auto simp: shutdownServices_def Let_def split: prod.splits)

section \<open>The drain: one budget, one verdict\<close>

text \<open>HTTP and gRPC drain at once and the flush takes a microsecond.\<close>

definition good_drain :: drain_env where
  "good_drain = \<lparr>http_answer = None, http_took = 5, graceful_took = Some 5, stop_took = 0,
     flush_took = Some 1000, grpc_pick = True, flush_pick = True\<rparr>"

text \<open>
  C36. One budget for the whole drain. When the HTTP server honours its context, the three
  phases together end by the deadline that the shutdown started with, plus, only when gRPC
  had to be stopped by force, the time that this stop takes.
\<close>

theorem shutdown_within_budget:
  assumes "shutdownServices env flush ab deadline now st = (r, t, st')"
    and "0 \<le> http_took env" and "now + http_took env \<le> max now deadline" and "0 \<le> stop_took env"
  shows "now \<le> t \<and> t \<le> max now deadline + (if grpcForced r then stop_took env else 0)"
proof -
  obtain forced t2 where g: "stopGRPC env deadline (now + http_took env) = (forced, t2)" by fastforce
  obtain e t3 st3 where f: "flushProcessor env flush ab deadline t2 st = (e, t3, st3)"
    by (metis prod_cases3)
  have r: "grpcForced r = forced" "t = t3"
    using assms(1) g f by (auto simp: shutdownServices_def Let_def)
  note tg = stopGRPC_time [OF g assms(4)]
  note tf = flushProcessor_time [OF f]
  show ?thesis using tg tf assms(2-4) r by (cases forced) auto
qed

theorem shutdown_within_budget_witness:
  "\<exists>r t st'. shutdownServices good_drain (\<lambda>n :: nat. (None :: string option, n + 1)) (\<lambda>n. n) 100 0 0
      = (r, t, st') \<and> 0 \<le> t \<and> t \<le> 100"
proof -
  obtain r :: "string shutdownResult" and t and st' :: nat where
    s: "shutdownServices good_drain (\<lambda>n :: nat. (None :: string option, n + 1)) (\<lambda>n. n) 100 0 0
      = (r, t, st')" by (metis prod_cases3)
  have d: "http_took good_drain = 5" "stop_took good_drain = 0" by (simp_all add: good_drain_def)
  have "0 \<le> t \<and> t \<le> 100"
    using shutdown_within_budget [OF s] by (simp add: d split: if_splits)
  with s show ?thesis by blast
qed

text \<open>
  A forced stop leaves no time to flush. When gRPC had to be stopped by force the budget
  is spent: the processor is not flushed and keeps all it held, the output is left open, and
  the process reports failure.
\<close>

theorem forced_stop_skips_flush:
  assumes "shutdownServices env flush ab deadline now st = (r, t, st')" and "grpcForced r"
    and "0 \<le> stop_took env"
  shows "flushErr r = Some FlushDeadline \<and> st' = st \<and>
    finalizeShutdown r close f = (r, f) \<and> exitCode r = 1"
proof -
  obtain forced t2 where g: "stopGRPC env deadline (now + http_took env) = (forced, t2)" by fastforce
  have fo: forced using assms(1,2) g by (auto simp: shutdownServices_def Let_def split: prod.splits)
  obtain won u where s: "select_channel (grpc_pick env) deadline (now + http_took env)
      (map_option ((+) (now + http_took env)) (graceful_took env)) = (won, u)" by fastforce
  have "deadline \<le> t2"
    using g fo s assms(3)
    by (cases won) (auto simp: stopGRPC_def select_channel_def split: option.splits if_splits)
  then have "r = \<lparr>httpErr = http_answer env, flushErr = Some FlushDeadline, closeErr = None,
      grpcForced = forced, flushTimedOut = True\<rparr> \<and> st' = st"
    using assms(1) g by (auto simp: shutdownServices_def flushProcessor_def)
  then show ?thesis by (simp add: finalizeShutdown_def exitCode_def)
qed

definition stuck_drain :: drain_env where
  "stuck_drain = good_drain\<lparr>graceful_took := None\<rparr>"

theorem forced_stop_skips_flush_witness:
  "\<exists>r t. shutdownServices stuck_drain (\<lambda>n :: nat. (None :: string option, n + 1)) (\<lambda>n. n) 100 0 7
      = (r, t, 7) \<and> exitCode r = 1"
proof -
  obtain r :: "string shutdownResult" and t and st' :: nat where
    s: "shutdownServices stuck_drain (\<lambda>n :: nat. (None :: string option, n + 1)) (\<lambda>n. n) 100 0 7
      = (r, t, st')" by (metis prod_cases3)
  then have "grpcForced r"
    by (auto simp: shutdownServices_def stopGRPC_def select_channel_def stuck_drain_def good_drain_def
        Let_def split: prod.splits)
  from forced_stop_skips_flush [OF s this, of "\<lambda>f :: nat. (None, f)" 0] s
  show ?thesis by (auto simp: stuck_drain_def good_drain_def)
qed

text \<open>
  C35. The exit code and the log are honest, and the output is closed exactly once unless a
  flush may still be writing. The process reports success exactly when HTTP drained, gRPC was
  not forced, the flush and the close returned nil, and exactly then the log of the drain has
  no line but the final statistics; the close runs unless the flush missed the deadline, and
  exactly then the statistics are marked as not confirmed.
\<close>

theorem exit_code_honest:
  assumes "shutdownServices env flush ab deadline now st = (r, t, st1)"
    and "finalizeShutdown r close st1 = (r', st2)"
  shows "(exitCode r' = 0 \<longleftrightarrow> http_answer env = None \<and> \<not> grpcForced r \<and> flushErr r = None \<and>
      fst (close st1) = None)
    \<and> (exitCode r' = 0 \<longleftrightarrow> drain_log r' p = [LogFinalStats (stats_json (ProcessorStats p))])
    \<and> (last (drain_log r' p) = LogDeadlineStats (stats_json (ProcessorStats p)) \<longleftrightarrow>
        flushErr r = Some FlushDeadline)
    \<and> st2 = (if flushErr r = Some FlushDeadline then st1 else snd (close st1))"
proof -
  have r: "httpErr r = http_answer env" "closeErr r = None"
    "flushTimedOut r = (flushErr r = Some FlushDeadline)"
    using assms(1) by (auto simp: shutdownServices_def Let_def split: prod.splits)
  show ?thesis
  proof (cases "flushErr r = Some FlushDeadline")
    case True
    then show ?thesis
      using r assms(2)
      by (auto simp: finalizeShutdown_def exitCode_def drain_log_def Let_def split: option.splits)
  next
    case False
    then have "r' = r\<lparr>closeErr := fst (close st1)\<rparr>" "st2 = snd (close st1)"
      using r(3) assms(2) by (auto simp: finalizeShutdown_def split: prod.splits)
    then show ?thesis
      using r False by (auto simp: exitCode_def drain_log_def Let_def split: option.splits)
  qed
qed

theorem exit_code_honest_witness:
  "\<exists>r t st1 r' st2. shutdownServices good_drain (\<lambda>n :: nat. (None :: sink_err option, n + 1)) (\<lambda>n. n) 100000 0 7
      = (r, t, st1) \<and> finalizeShutdown r (\<lambda>n. (Some (CloseSink ''o'' ErrClosed), n)) st1 = (r', st2)
    \<and> exitCode r' \<noteq> 0"
proof -
  let ?c = "\<lambda>n :: nat. (Some (CloseSink ''o'' ErrClosed), n)"
  obtain r :: "sink_err shutdownResult" and t and st' :: nat where
    s: "shutdownServices good_drain (\<lambda>n :: nat. (None :: sink_err option, n + 1)) (\<lambda>n. n) 100000 0 7
      = (r, t, st')" by (metis prod_cases3)
  obtain r' st2 where f: "finalizeShutdown r ?c st' = (r', st2)" by (metis surj_pair)
  from exit_code_honest [OF s f] have "exitCode r' \<noteq> 0" by simp
  with s f show ?thesis by blast
qed

end
