(* ===== verification/RecordFields.thy ===== *)
theory RecordFields
  imports Provenance
begin

text \<open>
  Where the single fields of a written record come from. Merging keeps a value over an absence
  and never makes one up, except the duration, which it computes from the times of the signals
  when none of them states one.
\<close>

section \<open>One field through the merges\<close>

text \<open>
  A value of the record is one that a signal asserts, and it is missing only when all the
  signals lack it; \<open>no\<close> says which values count as missing.
\<close>

definition carried :: "(execution \<Rightarrow> 'a) \<Rightarrow> ('a \<Rightarrow> bool) \<Rightarrow> execution set \<Rightarrow> execution \<Rightarrow> bool" where
  "carried f no S ex \<longleftrightarrow>
     (\<exists>sig \<in> S. f ex = f sig \<or> no (f ex) \<and> no (f sig)) \<and> (no (f ex) \<longrightarrow> (\<forall>sig \<in> S. no (f sig)))"

lemma built_carried:
  assumes "built S ex"
    and "\<And>p x. f (stamp p x) = f x"
    and "\<And>a b. \<not> no (f a) \<Longrightarrow> f (merge a b) = f a"
    and "\<And>a b. no (f a) \<Longrightarrow> f (merge a b) = f b \<or> no (f b) \<and> no (f (merge a b))"
  shows "carried f no S ex"
  using assms(1)
proof (induction rule: built.induct)
  case (single x p)
  then show ?case by (simp add: carried_def assms(2))
next
  case (both A a B b)
  show ?case
  proof (cases "no (f a)")
    case False
    then have "f (merge a b) = f a" by (rule assms(3))
    with False both.IH(1) show ?thesis unfolding carried_def by (metis UnI1)
  next
    case True
    then have all: "\<forall>sig \<in> A. no (f sig)" using both.IH(1) by (simp add: carried_def)
    have "\<exists>sig \<in> B. f (merge a b) = f sig \<or> no (f (merge a b)) \<and> no (f sig)"
      using assms(4) [OF True, of b] both.IH(2) unfolding carried_def by metis
    moreover have "\<forall>sig \<in> B. no (f sig)" if "no (f (merge a b))"
      using assms(4) [OF True, of b] both.IH(2) that by (auto simp: carried_def)
    ultimately show ?thesis using all unfolding carried_def by blast
  qed
qed

text \<open>
  The fields of text that a merge copies: it fills them from the added record when they are empty.
  The operation id is decided instead (\<open>built_operation\<close>), the detail of the correlation is put
  together from those of both records, and the observer is stamped by the processor.
\<close>

definition copied_texts :: "(execution \<Rightarrow> string) list" where
  "copied_texts =
     [TraceID, SpanID, ParentSpanID, SpanKind, Target, Tool, \<lambda>ex. ServiceName (Source ex),
      \<lambda>ex. ProtocolVersion (Source ex), \<lambda>ex. NetworkTransport (Source ex),
      \<lambda>ex. SessionID (Source ex)]"

lemma stamp_keeps [simp]:
  "TraceID (stamp p ex) = TraceID ex" "SpanID (stamp p ex) = SpanID ex"
  "ParentSpanID (stamp p ex) = ParentSpanID ex" "SpanKind (stamp p ex) = SpanKind ex"
  "Target (stamp p ex) = Target ex" "ErrorType (stamp p ex) = ErrorType ex"
  "ErrorCode (stamp p ex) = ErrorCode ex" "StartedAt (stamp p ex) = StartedAt ex"
  "FinishedAt (stamp p ex) = FinishedAt ex" "DurationMS (stamp p ex) = DurationMS ex"
  "SeenFrom (stamp p ex) = SeenFrom ex"
  "ServiceName (Source (stamp p ex)) = ServiceName (Source ex)"
  "ProtocolVersion (Source (stamp p ex)) = ProtocolVersion (Source ex)"
  "NetworkTransport (Source (stamp p ex)) = NetworkTransport (Source ex)"
  "SessionID (Source (stamp p ex)) = SessionID (Source ex)"
  "Transport (Source (stamp p ex)) = Transport (Source ex)"
  "ObserverType (Source (stamp p ex)) = ObserverType (Source ex)"
  by (simp_all add: stamp_def)

lemma built_text:
  assumes "built S ex" and "f \<in> set copied_texts"
  shows "carried f (\<lambda>v. v = []) S ex"
proof (rule built_carried [OF assms(1)])
  show "f (stamp p x) = f x" for p x using assms(2) by (auto simp: copied_texts_def)
  show "f (merge a b) = f a" if "f a \<noteq> []" for a b
    using assms(2) that by (auto simp: copied_texts_def mergeSource_def mergeField_def)
  show "f (merge a b) = f b \<or> f b = [] \<and> f (merge a b) = []" if "f a = []" for a b
    using assms(2) that by (auto simp: copied_texts_def mergeSource_def mergeField_def split: if_splits)
qed

lemma merge_errors:
  "ErrorType (merge a b) = merge_firstNonEmpty [ErrorType a, ErrorType b]"
  "ErrorCode (merge a b) = merge_firstNonEmpty [ErrorCode a, ErrorCode b]"
  by (simp_all add: merge_unfold mergeField_def mergeStatus_def)

lemma built_errors:
  assumes "built S ex" and "f \<in> {ErrorType, ErrorCode}"
  shows "carried f (\<lambda>v. trim_space v = []) S ex"
proof (rule built_carried [OF assms(1)])
  show "f (stamp p x) = f x" for p x using assms(2) by auto
  show "f (merge a b) = f a" if "trim_space (f a) \<noteq> []" for a b
    using assms(2) that by (auto simp: merge_errors)
  show "f (merge a b) = f b \<or> trim_space (f b) = [] \<and> trim_space (f (merge a b)) = []"
    if "trim_space (f a) = []" for a b
    using assms(2) that by (auto simp: merge_errors split: if_splits)
qed

lemma built_times:
  assumes "built S ex" and "f \<in> {StartedAt, FinishedAt}"
  shows "carried f (\<lambda>v. v = None) S ex"
  by (rule built_carried [OF assms(1)]) (use assms(2) in auto)

text \<open>A time of the record is a time of a signal.\<close>

lemma carried_Some: "carried f (\<lambda>v. v = None) S ex \<Longrightarrow> f ex = Some t \<Longrightarrow> \<exists>sig \<in> S. f sig = Some t"
  by (fastforce simp: carried_def)

lemma DurationMS_merge:
  "DurationMS (merge a b) =
     (let dur = (if DurationMS a = 0 then DurationMS b else DurationMS a)
      in case (StartedAt (merge a b), FinishedAt (merge a b)) of
           (Some s, Some f) \<Rightarrow> if dur = 0 then milliseconds (time_sub f s) else dur
         | _ \<Rightarrow> dur)"
  by (simp add: merge_unfold)

text \<open>A duration is one that a signal states, or the time between two times that signals state.\<close>

definition duration_from :: "execution set \<Rightarrow> int \<Rightarrow> bool" where
  "duration_from S d \<longleftrightarrow>
     (\<exists>sig \<in> S. d = DurationMS sig) \<or>
     (\<exists>s \<in> S. \<exists>f \<in> S. \<exists>t u. StartedAt s = Some t \<and> FinishedAt f = Some u \<and>
        d = milliseconds (time_sub u t))"

lemma duration_from_mono: "duration_from A d \<Longrightarrow> A \<subseteq> S \<Longrightarrow> duration_from S d"
  unfolding duration_from_def by blast

lemma built_duration:
  "built S ex \<Longrightarrow> duration_from S (DurationMS ex) \<and>
     (DurationMS ex = 0 \<longrightarrow> (\<forall>sig \<in> S. DurationMS sig = 0))"
proof (induction rule: built.induct)
  case (single x p)
  then show ?case by (auto simp: duration_from_def)
next
  case (both A a B b)
  note m = built.both [OF both.hyps]
  let ?dur = "if DurationMS a = 0 then DurationMS b else DurationMS a"
  have d: "duration_from (A \<union> B) ?dur"
    using both.IH duration_from_mono [of A _ "A \<union> B"] duration_from_mono [of B _ "A \<union> B"]
    by (cases "DurationMS a = 0") simp_all
  have tu: "duration_from (A \<union> B) (milliseconds (time_sub u t))"
    if st: "StartedAt (merge a b) = Some t" and fi: "FinishedAt (merge a b) = Some u" for t u
  proof -
    obtain x where "x \<in> A \<union> B" "StartedAt x = Some t"
      using carried_Some [OF built_times [OF m, of StartedAt], of t] st by auto
    moreover obtain y where "y \<in> A \<union> B" "FinishedAt y = Some u"
      using carried_Some [OF built_times [OF m, of FinishedAt], of u] fi by auto
    ultimately show ?thesis unfolding duration_from_def by blast
  qed
  have e: "DurationMS (merge a b) = ?dur \<or> ?dur = 0 \<and> (\<exists>t u. StartedAt (merge a b) = Some t \<and>
      FinishedAt (merge a b) = Some u \<and> DurationMS (merge a b) = milliseconds (time_sub u t))"
    by (cases "StartedAt (merge a b)"; cases "FinishedAt (merge a b)")
      (simp_all add: DurationMS_merge Let_def del: merge_fields)
  have z: "\<forall>sig \<in> A \<union> B. DurationMS sig = 0" if "?dur = 0"
  proof -
    have "DurationMS a = 0" "DurationMS b = 0" using that by (simp_all split: if_splits)
    from mp [OF conjunct2 [OF both.IH(1)] this(1)] mp [OF conjunct2 [OF both.IH(2)] this(2)]
    show ?thesis by (simp only: ball_Un simp_thms)
  qed
  define dur where "dur = ?dur"
  note d = d [folded dur_def] and z = z [folded dur_def]
  from e have "DurationMS (merge a b) = dur \<or> dur = 0 \<and> duration_from (A \<union> B) (DurationMS (merge a b))"
    using tu by (auto simp only: dur_def)
  then show ?case
  proof (elim disjE conjE)
    assume "DurationMS (merge a b) = dur"
    then show ?thesis using d by (intro conjI impI z) simp_all
  next
    assume "dur = 0" and "duration_from (A \<union> B) (DurationMS (merge a b))"
    then show ?thesis by (intro conjI impI z)
  qed
qed

section \<open>The operation id\<close>

lemma Sup_OneId:
  assumes "finite S" and "S \<noteq> {}" and "Sup_fin (f ` S) = OneId i"
  shows "\<exists>sig \<in> S. f sig = OneId i"
  using assms
proof (induction rule: finite_ne_induct)
  case (insert x S)
  then have "sup (f x) (Sup_fin (f ` S)) = OneId i" by simp
  then have "f x = OneId i \<or> Sup_fin (f ` S) = OneId i"
    by (auto simp: sup_attribution_def split: if_splits)
  with insert.IH show ?case by blast
qed simp

lemma attribution_id:
  assumes "corr_ok ex"
  shows "exec_attribution ex = OneId i \<longleftrightarrow> OperationID ex = i \<and> i \<noteq> []"
  using assms
  by (cases "Correlation ex")
    (auto simp: corr_ok_def exec_attribution_def dest: corr_wf_nonempty)

text \<open>An operation id of the record is that of one of its signals.\<close>

lemma built_operation:
  assumes "built S ex" and "\<forall>sig \<in> S. corr_ok sig" and "OperationID ex \<noteq> []"
  shows "\<exists>sig \<in> S. OperationID sig = OperationID ex"
proof -
  have "exec_attribution ex = OneId (OperationID ex)"
    using attribution_id [OF built_corr_ok [OF assms(1,2)]] assms(3) by simp
  then have "Sup_fin (exec_attribution ` S) = OneId (OperationID ex)"
    using built_attribution [OF assms(1,2)] by simp
  with Sup_OneId [of S exec_attribution "OperationID ex"] built_nonempty [OF assms(1)]
  obtain sig where "sig \<in> S" "exec_attribution sig = OneId (OperationID ex)" by blast
  then show ?thesis using attribution_id assms(2) by blast
qed

section \<open>The source\<close>

lemma signal_source:
  assumes "signal_of fl m ex"
  shows "Transport (Source ex) = transportOf (SeenFrom ex) \<and> ObserverType (Source ex) = GatewayObserverType"
  using assms
  by (auto simp: signal_of_def log_execution_def span_execution_def sourceFrom_def transportOf_def
      TransportLogs_def TransportTraces_def SignalLogs_def SignalTraces_def Let_def case_prod_beta
      elim!: FromLogRecord_Some FromSpan_Some)

lemma built_source:
  "built S ex \<Longrightarrow>
   \<forall>sig \<in> S. Transport (Source sig) = transportOf (SeenFrom sig) \<and> ObserverType (Source sig) = GatewayObserverType
   \<Longrightarrow> Transport (Source ex) = transportOf (SeenFrom ex) \<and> ObserverType (Source ex) = GatewayObserverType"
  by (induction rule: built.induct) (auto simp: mergeSource_def)

section \<open>The property\<close>

text \<open>
  C5. Merging invents no value. In every interleaving, the ids of trace, span and parent, the
  span kind, the target, the tool and the service name, protocol version, network transport and
  session id of a written record are each the value of one of the signals it was built from, and
  empty only when empty on all of them; so are its error type and code, but that blank ones
  count as empty, and its start and finish time. Its operation id is empty or that of one of
  them. Its duration is stated by one of them or is the time between a start and a finish
  that they state, not necessarily the same signal, and is zero only when no signal states one.
  Its transport names exactly the signals it was seen from.
\<close>

theorem fields_from_signals:
  assumes "run_history fl sink wait s0 s h" and "a \<in> set (written s)"
  shows "(\<forall>f \<in> set copied_texts. carried f (\<lambda>v. v = []) (claimed_under h a) (a_ex a))
    \<and> (\<forall>f \<in> {ErrorType, ErrorCode}. carried f (\<lambda>v. trim_space v = []) (claimed_under h a) (a_ex a))
    \<and> (\<forall>f \<in> {StartedAt, FinishedAt}. carried f (\<lambda>v. v = None) (claimed_under h a) (a_ex a))
    \<and> (OperationID (a_ex a) = [] \<or>
        (\<exists>sig \<in> claimed_under h a. OperationID sig = OperationID (a_ex a)))
    \<and> duration_from (claimed_under h a) (DurationMS (a_ex a))
    \<and> (DurationMS (a_ex a) = 0 \<longrightarrow> (\<forall>sig \<in> claimed_under h a. DurationMS sig = 0))
    \<and> Transport (Source (a_ex a)) = transportOf (SeenFrom (a_ex a))
    \<and> ObserverType (Source (a_ex a)) = GatewayObserverType"
proof -
  have b: "built (claimed_under h a) (a_ex a)"
    using history_invD(2) [OF run_history_inv [OF assms(1)]] assms(2) by blast
  have "Transport (Source sig) = transportOf (SeenFrom sig) \<and> ObserverType (Source sig) = GatewayObserverType"
    if "sig \<in> claimed_under h a" for sig
    using claimed_signals(1) [OF assms(1) that] signal_source by blast
  moreover have "\<forall>sig \<in> claimed_under h a. corr_ok sig"
    using claimed_signals(1) [OF assms(1)] by (blast intro: corr_ok_wf signal_wf)
  note op = built_operation [OF b this]
  ultimately have "Transport (Source (a_ex a)) = transportOf (SeenFrom (a_ex a))"
    "ObserverType (Source (a_ex a)) = GatewayObserverType" using built_source [OF b] by blast+
  with op built_text [OF b] built_errors [OF b] built_times [OF b] built_duration [OF b]
  show ?thesis by blast
qed

theorem fields_from_signals_witness:
  "\<exists>s h a. demo_sys s \<and> a \<in> set (written s) \<and> claimed_under h a \<noteq> {} \<and>
     carried SpanKind (\<lambda>v. v = []) (claimed_under h a) (a_ex a) \<and>
     Transport (Source (a_ex a)) = transportOf (SeenFrom (a_ex a))"
proof -
  obtain s h where s: "demo_sys s" "run_history plain_floats (Some recordingSink) 0 [] s h"
    using demo_history by blast
  obtain a where a: "a \<in> set (written s)" using s(1) demo_written [of s] by (cases "written s") auto
  have "claimed_under h a \<noteq> {}"
    using history_invD(2) [OF run_history_inv [OF s(2)]] a built_nonempty by blast
  moreover have "SpanKind \<in> set copied_texts" by (simp add: copied_texts_def)
  ultimately show ?thesis using fields_from_signals [OF s(2) a] s(1) a by blast
qed

end
