(* ===== verification/Levels.thy ===== *)
theory Levels
  imports Concurrent RecordFields
begin

text \<open>
  A condition on the spans that are received under which the buffers never hold two levels of
  claims, a client span whose parent claims a parent itself: no key that a span names as its
  parent belongs to spans that name one too. AgentGateway's own spans have this form, since a
  server span is the root of its trace. It depends on the requests only and computes.
\<close>

section \<open>The condition\<close>

definition span_signals :: "float_lib \<Rightarrow> call list \<Rightarrow> execution list" where
  "span_signals fl cs =
     concat (map (\<lambda>c. case c of CallSpans rng now ss \<Rightarrow> List.map_filter (FromSpan fl) ss | _ \<Rightarrow> []) cs)"

text \<open>The parent keys that the spans with key \<open>c\<close> name when they are merged in some order.\<close>

definition parent_keys :: "execution list \<Rightarrow> string \<Rightarrow> string list" where
  "parent_keys xs c =
     (let own = filter (\<lambda>x. record_key x = c) xs
      in if list_ex (\<lambda>x. SpanKind x = SpanKindClient) own
         then [TraceID z @ ''/'' @ ParentSpanID y. y \<leftarrow> own, z \<leftarrow> own, ParentSpanID y \<noteq> []]
         else [])"

definition flat :: "execution list \<Rightarrow> bool" where
  "flat xs \<longleftrightarrow>
     list_all (\<lambda>d. list_all (\<lambda>c. parent_keys xs c = [] \<or> d = c) (parent_keys xs d)) (map record_key xs)"

section \<open>Buffered spans are merged from received ones\<close>

definition traced :: "execution list \<Rightarrow> string \<Rightarrow> execution \<Rightarrow> bool" where
  "traced xs k ex \<longleftrightarrow> (\<exists>S. built S ex \<and> S \<subseteq> set xs \<and> (\<forall>x \<in> S. record_key x = k))"

definition all_traced :: "execution list \<Rightarrow> (string, execution) fmap \<Rightarrow> bool" where
  "all_traced xs m \<longleftrightarrow> (\<forall>k ex. fmlookup m k = Some ex \<longrightarrow> traced xs k ex)"

definition spans_traced :: "execution list \<Rightarrow> processor \<Rightarrow> bool" where
  "spans_traced xs p \<longleftrightarrow> all_traced xs (spans p) \<and> all_traced xs (pendingSpans p)"

lemma traced_merge: "traced xs k a \<Longrightarrow> traced xs k b \<Longrightarrow> traced xs k (merge a b)"
  unfolding traced_def by (blast intro: built.both)

lemma traced_stamp: "ex \<in> set xs \<Longrightarrow> traced xs (record_key ex) (stamp p ex)"
  unfolding traced_def by (intro exI [of _ "{ex}"]) (simp add: built.single)

lemma all_traced_put:
  "all_traced xs m \<Longrightarrow> traced xs k ex \<Longrightarrow> all_traced xs (put_merged k ex m)"
  by (auto simp: all_traced_def lookup_put_merged merged_onto_def intro: traced_merge split: option.split)

lemma all_traced_drop: "all_traced xs m \<Longrightarrow> all_traced xs (fmdrop k m)"
  by (simp add: all_traced_def)

lemma all_traced_fold_back:
  assumes "all_traced xs pend" and "all_traced xs m"
  shows "all_traced xs (fold_back k pend m)"
proof (cases "fmlookup pend k")
  case (Some ex)
  then have "traced xs k ex" using assms(1) by (simp add: all_traced_def)
  from all_traced_put [OF assms(2) this] Some show ?thesis by (simp add: fold_back_def)
qed (simp add: fold_back_def assms(2))

lemma spans_traced_frame:
  "spans q = spans p \<Longrightarrow> pendingSpans q = pendingSpans p \<Longrightarrow> spans_traced xs q = spans_traced xs p"
  by (simp add: spans_traced_def)

lemma spans_traced_count [simp]: "spans_traced xs (count_stat fn p) = spans_traced xs p"
  by (simp add: spans_traced_def)

lemma spans_traced_take_signal:
  assumes "spans_traced xs p"
    and "\<And>ex sg. es = (Some ex, sg) \<Longrightarrow> sg \<noteq> SignalLogs \<Longrightarrow> ex \<in> set xs"
  shows "spans_traced xs (take_signal now es p)"
proof (cases "fst es")
  case None
  then show ?thesis using assms(1) by (cases es) (simp add: take_signal_def)
next
  case (Some ex)
  then obtain sg where es: "es = (Some ex, sg)" by (cases es) simp
  show ?thesis
  proof (cases "sg = SignalLogs")
    case True
    then show ?thesis
      using assms(1) es by (auto simp: take_signal_def buffer_def Let_def spans_traced_def)
  next
    case False
    then have "traced xs (record_key ex) (stamp p ex)"
      using assms(2) es by (intro traced_stamp) simp
    with assms(1) False show ?thesis
      using all_traced_put [of xs _ "record_key ex" "stamp p ex"] es
      by (auto simp: take_signal_def buffer_def Let_def spans_traced_def record_key_def)
  qed
qed

lemma spans_traced_acknowledge: "spans_traced xs p \<Longrightarrow> spans_traced xs (acknowledge a p)"
proof -
  have "spans_traced xs (ack_key k q)" if "spans_traced xs q" for k q
    using that by (simp add: ack_key_def discardPending_def spans_traced_def all_traced_drop Let_def)
  then have "spans_traced xs (fold ack_key ks q)" if "spans_traced xs q" for ks q
    using that by (induction ks arbitrary: q) simp_all
  then show "spans_traced xs p \<Longrightarrow> spans_traced xs (acknowledge a p)"
    by (simp add: acknowledge_def)
qed

lemma spans_traced_restore: "spans_traced xs p \<Longrightarrow> spans_traced xs (restoreReserved out p)"
proof -
  have "spans_traced xs (restore_key k q)" if "spans_traced xs q" for k q
    using that by (auto simp: restore_key_def mergePendingIntoActive_def spans_traced_def Let_def
        intro: all_traced_drop all_traced_fold_back split: option.split)
  then have "spans_traced xs (fold restore_key ks q)" if "spans_traced xs q" for ks q
    using that by (induction ks arbitrary: q) simp_all
  then show "spans_traced xs p \<Longrightarrow> spans_traced xs (restoreReserved out p)"
    by (simp add: restoreReserved_def)
qed

section \<open>In every schedule\<close>

text \<open>What the goroutines have yet to take in comes from the same spans.\<close>

definition inputs_traced :: "float_lib \<Rightarrow> execution list \<Rightarrow> 'e pc \<Rightarrow> bool" where
  "inputs_traced fl xs pc \<longleftrightarrow>
     (\<forall>ex sg. (Some ex, sg) \<in> set (to_come fl pc) \<longrightarrow> sg \<noteq> SignalLogs \<longrightarrow> ex \<in> set xs)"

definition traced_inv :: "float_lib \<Rightarrow> execution list \<Rightarrow> ('s, 'e) goroutines \<Rightarrow> bool" where
  "traced_inv fl xs g \<longleftrightarrow>
     spans_traced xs (g_proc g) \<and> (\<forall>pc \<in> set (pcs g). inputs_traced fl xs pc)"

lemma emit_turn_traced:
  assumes "emit_turn sink ph err (s, p) = (pc, s', p')" and "spans_traced xs p"
  shows "spans_traced xs p' \<and> inputs_traced fl xs pc"
  using assms
  by (cases "(sink, ph, err, s, p)" rule: emit_turn.cases)
    (auto simp: inputs_traced_def write_failed_def intro: spans_traced_acknowledge spans_traced_restore
      split: prod.splits option.splits)

lemma go_traced:
  assumes "traced_inv fl xs g"
  shows "traced_inv fl xs (go fl sink t g)"
proof (cases "tn_who t < length (pcs g)")
  case True
  then obtain ps pc qs where g: "pcs g = ps @ pc # qs" and w: "tn_who t = length ps"
    by (rule turn_at)
  have p: "spans_traced xs (g_proc g)" and own: "inputs_traced fl xs pc"
    and rest: "\<forall>pc \<in> set ps \<union> set qs. inputs_traced fl xs pc"
    using assms by (auto simp: traced_inv_def g)
  note gd = go_def Let_def traced_inv_def g w
  show ?thesis
  proof (cases pc)
    case (Consuming "is")
    then show ?thesis
      using p own rest
      by (cases "is") (auto simp: gd consume_turn_def inputs_traced_def)
  next
    case (Taking es "is")
    have "spans_traced xs (take_signal (tn_now t) es (g_proc g))"
      using own Taking by (intro spans_traced_take_signal [OF p]) (auto simp: inputs_traced_def)
    with own rest Taking show ?thesis by (auto simp: gd inputs_traced_def)
  next
    case (Claiming cutoff)
    then show ?thesis
      using p rest
      by (auto simp: gd claim_turn_def claim_snapshot inputs_traced_def spans_traced_def)
  next
    case (Holding ph err)
    obtain pc' s' p' where e: "emit_turn sink ph err (g_sink g, g_proc g) = (pc', s', p')"
      by (metis prod_cases3)
    then show ?thesis using Holding emit_turn_traced [OF e p, of fl] rest by (auto simp: gd)
  qed (use p rest in \<open>auto simp: gd inputs_traced_def\<close>)
qed (use assms in \<open>simp add: go_def\<close>)

lemma schedule_traced: "traced_inv fl xs g \<Longrightarrow> traced_inv fl xs (run_schedule fl sink sched g)"
  by (induction sched arbitrary: g) (simp_all add: run_schedule_def go_traced)

lemma traced_start:
  "traced_inv fl (span_signals fl cs) (spawn cs (s, start_processor wait i v))"
proof -
  have "inputs_traced fl (span_signals fl cs) (call_start c)" if "c \<in> set cs" for c
  proof (cases c)
    case (CallSpans rng now ss)
    then show ?thesis
      using that by (force simp: inputs_traced_def span_signals_def set_map_filter)
  qed (auto simp: inputs_traced_def)
  then show ?thesis
    by (auto simp: traced_inv_def spans_traced_def all_traced_def spawn_def start_processor_def
        SetObserver_def NewProcessor_def)
qed

section \<open>One level of claims\<close>

lemma claims_parent_keys:
  assumes "all_traced xs (spans p)" and "claims_parent p c k"
  shows "k \<in> set (parent_keys xs c) \<and> c \<in> record_key ` set xs"
proof -
  from assms(2) obtain ex where ex: "fmlookup (spans p) c = Some ex" "names_parent ex" "parent_key ex = k"
    by (auto simp: claims_parent_def)
  from assms(1) ex(1) have "traced xs c ex" by (simp add: all_traced_def)
  then obtain S where S: "built S ex" "S \<subseteq> set xs" "\<forall>x \<in> S. record_key x = c"
    unfolding traced_def by blast
  have f: "\<exists>x \<in> S. f ex = f x" if "f \<in> {SpanKind, ParentSpanID, TraceID}" for f
  proof -
    have "f \<in> set copied_texts" using that by (auto simp: copied_texts_def)
    from built_text [OF S(1) this] show ?thesis by (auto simp: carried_def)
  qed
  from f [of SpanKind] f [of ParentSpanID] f [of TraceID] obtain x y z where
    "x \<in> S" "SpanKind ex = SpanKind x" "y \<in> S" "ParentSpanID ex = ParentSpanID y"
    "z \<in> S" "TraceID ex = TraceID z" by auto
  moreover from this have "x \<in> set xs" "y \<in> set xs" "z \<in> set xs"
    "record_key x = c" "record_key y = c" "record_key z = c" using S by auto
  ultimately show ?thesis
    using ex(2,3) by (force simp: parent_keys_def names_parent_def parent_key_def list_ex_iff Let_def)
qed

lemma flat_one_level:
  assumes "spans_traced xs p" and "flat xs"
  shows "one_level p"
  unfolding one_level_def
proof (intro allI impI)
  fix c d k assume "claims_parent p c k" and "claims_parent p d c"
  with assms(1) have "k \<in> set (parent_keys xs c)" "c \<in> set (parent_keys xs d)" "d \<in> record_key ` set xs"
    using claims_parent_keys [of xs p] by (simp_all add: spans_traced_def)
  with assms(2) show "d = c" by (fastforce simp: flat_def list_all_iff)
qed

lemma schedule_one_level:
  assumes "flat (span_signals fl cs)"
    and "run_schedule fl sink sched (spawn cs (s, start_processor wait i v)) = g"
  shows "one_level (g_proc g)"
  using flat_one_level [OF _ assms(1)] assms(2)
    schedule_traced [OF traced_start [of fl cs s wait i v], of sink sched]
  by (auto simp: traced_inv_def)

end
