(* ===== verification/CleanExit.thy ===== *)
theory CleanExit
  imports Lifecycle Levels
begin

text \<open>
  How a run ends. Whatever the exit code, the file holds one record per key; the exit code 0
  promises in addition that nothing was lost, whether the requests were served one after the
  other (\<open>run\<close>) or by goroutines that take turns, the last flush among them (\<open>run_together\<close>).
\<close>

section \<open>The end of a run\<close>

lemma committed_close: "committed (s\<lparr>closed := b\<rparr>) = committed s"
  by (cases "poisoned s") (auto simp: committed_def)

lemma JSONL_Close_nil: "JSONL_Close fault s = (None, s') \<Longrightarrow> s' = s\<lparr>closed := True\<rparr>"
  by (auto simp: JSONL_Close_def Let_def split: if_splits option.splits)

lemma JSONL_Close_file:
  "JSONL_Close fault s = (r, s') \<Longrightarrow>
     committed s' = committed s \<and> file_bytes s' = file_bytes s \<and> poisoned s' = poisoned s"
  by (auto simp: JSONL_Close_def committed_close Let_def split: if_splits option.splits)

lemma shutdownServices_nil:
  assumes "shutdownServices env flush ab deadline now st = (r, t, st')" and "flushErr r = None"
  shows "flush st = (None, st') \<and> flush_took env \<noteq> None \<and> \<not> flushTimedOut r"
  using assms flushProcessor_nil [of env flush ab deadline _ st]
  by (auto simp: shutdownServices_def Let_def split: prod.splits)

lemma shutdownServices_state:
  assumes "shutdownServices env flush ab deadline now st = (r, t, st')"
  shows "st' \<in> {st, snd (flush st), ab st}"
  using assms
  by (auto simp: shutdownServices_def flushProcessor_def Let_def split: prod.splits if_splits bool.splits)

text \<open>A run that ends with 0 was served, drained without an error and closed its file.\<close>

lemma run_exit_zero:
  assumes "run_hosted frac_ns env h args = out" and "ro_exit out = 0" and "args \<noteq> [''--version'']"
  obtains s0 st st' where
    "NewJSONL (re_open env) (ObservationsPath (LoadConfig frac_ns (re_getenv env))) = Inr s0"
    "ho_flush h (ho_serve h s0) = (None, st)" "ho_close h st = (None, st')"
    "ro_end out = Some (ho_world h st')"
    "last (ro_log out) = LogFinalStats (stats_json (ProcessorStats (snd (ho_world h st'))))"
    "http_answer (ho_drain h (ho_serve h s0)) = None"
    "graceful_took (ho_drain h (ho_serve h s0)) \<noteq> None"
    "flush_took (ho_drain h (ho_serve h s0)) \<noteq> None"
proof -
  let ?open = "NewJSONL (re_open env) (ObservationsPath (LoadConfig frac_ns (re_getenv env)))"
  obtain s0 where s0: "?open = Inr s0"
    using assms by (cases ?open) (auto simp: run_hosted_def)
  let ?d = "ho_drain h (ho_serve h s0)"
  obtain r t st where sh: "shutdownServices ?d (ho_flush h) (ho_abandoned h)
      (re_signal env + shutdownTimeout) (re_signal env) (ho_serve h s0) = (r, t, st)"
    by (metis prod_cases3)
  obtain r' st' where fi: "finalizeShutdown r (ho_close h) st = (r', st')" by (metis surj_pair)
  have up: "re_grpc_listen env = None" "re_http_serve env = None"
    using assms s0 by (auto simp: run_hosted_def Let_def split: if_splits option.splits)
  then have out: "ro_exit out = exitCode r'" "ro_end out = Some (ho_world h st')"
    "last (ro_log out) = last (drain_log r' (snd (ho_world h st')))"
    using s0 sh fi assms(1) [symmetric] assms(3)
    by (simp_all add: run_hosted_def Let_def) (simp add: drain_log_def Let_def)
  then have "exitCode r' = 0" using assms(2) by simp
  then have e: "httpErr r' = None" "flushErr r' = None" "closeErr r' = None" "\<not> grpcForced r'"
    by (simp_all add: exitCode_def split: if_splits)
  then have r: "httpErr r = None" "\<not> grpcForced r" "flushErr r = None"
    using fi by (auto simp: finalizeShutdown_def split: if_splits prod.splits)
  then have dr: "http_answer ?d = None" "graceful_took ?d \<noteq> None"
    using shutdownServices_drained [OF sh] by simp_all
  note fl = shutdownServices_nil [OF sh r(3)]
  then have "ho_close h st = (None, st')" "\<not> flushTimedOut r'"
    using fi e by (auto simp: finalizeShutdown_def split: prod.splits)
  then show thesis
    using that [OF s0] fl out dr by (simp add: drain_log_def Let_def)
qed

text \<open>Where a run can end that came as far as serving.\<close>

lemma run_hosted_end:
  assumes "run_hosted frac_ns env h args = out" and "ro_end out = Some w"
  obtains s0 st where
    "NewJSONL (re_open env) (ObservationsPath (LoadConfig frac_ns (re_getenv env))) = Inr s0"
    "st \<in> {ho_serve h s0, snd (ho_flush h (ho_serve h s0)), ho_abandoned h (ho_serve h s0)}"
    "w = ho_world h st \<or> w = ho_world h (snd (ho_close h st))"
proof -
  let ?open = "NewJSONL (re_open env) (ObservationsPath (LoadConfig frac_ns (re_getenv env)))"
  obtain s0 where s0: "?open = Inr s0"
    using assms by (cases ?open) (auto simp: run_hosted_def split: if_splits)
  obtain r t st where sh: "shutdownServices (ho_drain h (ho_serve h s0)) (ho_flush h) (ho_abandoned h)
      (re_signal env + shutdownTimeout) (re_signal env) (ho_serve h s0) = (r, t, st)"
    by (metis prod_cases3)
  obtain r' st' where fi: "finalizeShutdown r (ho_close h) st = (r', st')" by (metis surj_pair)
  have e: "ro_end (run_hosted frac_ns env h args) = Some w" using assms by simp
  have a: "args \<noteq> [''--version'']" using e by (auto simp: run_hosted_def)
  have "re_grpc_listen env = None"
  proof (rule ccontr)
    assume "re_grpc_listen env \<noteq> None"
    then obtain err where "re_grpc_listen env = Some err" by blast
    then have "ro_end (run_hosted frac_ns env h args) = None"
      by (simp add: run_hosted_def Let_def s0 a)
    with e show False by simp
  qed
  then have "ro_end (run_hosted frac_ns env h args) =
      Some (if re_http_serve env = None then ho_world h st' else ho_world h (ho_serve h s0))"
    by (cases "re_http_serve env") (simp_all add: run_hosted_def Let_def s0 a sh fi)
  with e have "w = ho_world h (ho_serve h s0) \<or> w = ho_world h st'" by (auto split: if_splits)
  moreover have "st' = st \<or> st' = snd (ho_close h st)"
    using fi by (auto simp: finalizeShutdown_def split: if_splits prod.splits)
  moreover note shutdownServices_state [OF sh]
  ultimately show thesis using that [OF s0, of "ho_serve h s0"] that [OF s0, of st] by blast
qed

text \<open>
  A flush that returns nil, from a state of rest in which no claimed client span is itself a
  parent, leaves nothing behind: all that the processor knew is in the file.
\<close>

lemma clean_flush:
  assumes "NewJSONL oe path = Inr s0" and "terminated (existing oe)" and "range_order rng"
    and "one_level p" and "Flush (Some (jsonl_sink quote)) rng (w, p) = (None, w', q)"
    and "reachable fl (Some (jsonl_sink quote)) wait (s0, answers) (sys_of p Idle w {#} wr)"
  shows "firstSeen q = fmempty \<and> spans q = fmempty \<and> logs q = fmempty \<and>
    (\<exists>recs :: assembled list.
      map Some (lines (committed (fst w'))) =
        map Some (lines (existing oe)) @ map (\<lambda>a. Marshal quote (a_ex a)) recs \<and>
      distinct (map a_key recs) \<and> length recs = EmittedCount (stats q) \<and> known p \<subseteq> consumed recs)"
proof -
  let ?k = "Some (jsonl_sink quote)"
  have rest: "quiescent p" using reachable_quiescent [OF assms(6)] by (simp add: sys_of_def)
  note fc = flush_nil_complete [OF rest assms(4,3,5)]
  have "run_call fl ?k (CallFlush rng) (w, p) = (None, w', q)" using assms(5) by simp
  from run_call_steps [OF this, where rcv = "{#}" and wr = wr] assms(3) obtain v where
    st: "(step fl ?k)\<^sup>*\<^sup>* (sys_of p Idle w {#} wr) (sys_of q Idle w' {#} (wr @ v))" by auto
  let ?recs = "wr @ v"
  note x = reachable_steps [OF st assms(6)]
  have n: "length ?recs = EmittedCount (stats q)" "distinct (map a_key ?recs)"
    using reachable_inv [OF x] by (simp_all add: sys_inv_def log_inv_def sys_of_def)
  have "known p \<subseteq> known q" using steps_known [OF st reachable_inv [OF assms(6)]] by simp
  then have kn: "known p \<subseteq> consumed ?recs" using delivered [OF x] fc by simp
  have "map Some (lines (committed (fst w'))) =
      map Some (lines (existing oe)) @ map (\<lambda>a. Marshal quote (a_ex a)) ?recs"
    using file_log [OF assms(1,2) x] by (simp add: sys_of_def)
  with fc n kn show ?thesis by (intro conjI exI [of _ ?recs]) simp_all
qed

section \<open>Requests one after the other\<close>

lemma served_started:
  "served fl frac_ns quote env out =
     run_calls fl (Some (jsonl_sink quote)) (re_calls env)
       ((out, re_answers env),
        start_processor (MergeWait (LoadConfig frac_ns (re_getenv env)))
          (cfg_ObserverID (LoadConfig frac_ns (re_getenv env)))
          (cfg_ObserverVersion (LoadConfig frac_ns (re_getenv env))))"
  by (simp add: served_def start_processor_def Let_def re_calls_def serve_all_calls)

lemma close_world_nil:
  "close_world fault (w, p) = (None, st') \<Longrightarrow> st' = ((fst w\<lparr>closed := True\<rparr>, snd w), p)"
  by (auto simp: close_world_def split: prod.splits dest: JSONL_Close_nil)

text \<open>
  Exit code 0 means that nothing was lost. When the process ends with 0 and no claimed
  client span was itself a parent, then whatever it was sent, no signal is left in the
  buffers, the file is closed, its complete lines are those it had, followed by one encoded
  record for every record counted as emitted, and the join key of every tool call in every
  request that was taken in is among the keys these records were made from.
\<close>

theorem exit_zero_nothing_lost:
  assumes "run fl frac_ns quote env args = out" and "ro_exit out = 0" and "args \<noteq> [''--version'']"
    and "NewJSONL (re_open env) (ObservationsPath (LoadConfig frac_ns (re_getenv env))) = Inr s0"
    and "terminated (existing (re_open env))"
    and "\<forall>ar \<in> set (re_arrivals env). range_order (ar_order ar)" and "range_order (re_rng env)"
    and "one_level (snd (served fl frac_ns quote env s0))"
  shows "\<exists>s answers p. \<exists>recs :: assembled list. ro_end out = Some ((s, answers), p) \<and> closed s \<and>
    firstSeen p = fmempty \<and> spans p = fmempty \<and> logs p = fmempty \<and>
    map Some (lines (committed s)) =
      map Some (lines (existing (re_open env))) @ map (\<lambda>a. Marshal quote (a_ex a)) recs \<and>
    length recs = EmittedCount (stats p) \<and>
    (\<forall>c \<in> set (re_calls env). call_keys fl c \<subseteq> consumed recs)"
proof -
  let ?cfg = "LoadConfig frac_ns (re_getenv env)" and ?k = "Some (jsonl_sink quote)"
  let ?p = "start_processor (MergeWait ?cfg) (cfg_ObserverID ?cfg) (cfg_ObserverVersion ?cfg)"
  obtain w p where sv: "served fl frac_ns quote env s0 = (w, p)" by fastforce
  then have run: "run_calls fl ?k (re_calls env) ((s0, re_answers env), ?p) = (w, p)"
    by (simp add: served_started)
  have ord: "\<forall>c \<in> set (re_calls env). range_order (call_order c)"
    unfolding re_calls_def by (rule arrival_calls_order [OF assms(6)])
  obtain wr where x: "reachable fl ?k (MergeWait ?cfg) (s0, re_answers env) (sys_of p Idle w {#} wr)"
    using reachable_started [OF run ord] ..
  obtain wr0 where "reachable fl ?k (MergeWait ?cfg) (s0, re_answers env)
      (sys_of ?p Idle (s0, re_answers env) {#} wr0)" using reachable_start ..
  from run_calls_known [OF run ord reachable_inv [OF this]] have
    k: "(\<Union>c \<in> set (re_calls env). call_keys fl c) \<subseteq> known p" by simp
  have ol: "one_level p" using assms(8) sv by simp
  obtain st st' where
    e: "Flush ?k (re_rng env) (w, p) = (None, st)" "close_world (re_close_fault env) st = (None, st')"
    "ro_end out = Some st'"
    using run_exit_zero [OF assms(1) [unfolded run_def] assms(2,3)] assms(4) sv
    by (metis (no_types, lifting) Inr_inject hosted.select_convs)
  obtain w' q where st: "st = (w', q)" by fastforce
  from clean_flush [OF assms(4,5,7) ol e(1) [unfolded st] x] obtain recs :: "assembled list" where
    "firstSeen q = fmempty" "spans q = fmempty" "logs q = fmempty"
    "map Some (lines (committed (fst w'))) =
      map Some (lines (existing (re_open env))) @ map (\<lambda>a. Marshal quote (a_ex a)) recs"
    "length recs = EmittedCount (stats q)" "known p \<subseteq> consumed recs" by blast
  then show ?thesis
    using k e(3) close_world_nil [OF e(2) [unfolded st]] committed_close [of True "fst w'"]
    by (intro exI [of _ "fst w'\<lparr>closed := True\<rparr>"] exI [of _ "snd w'"] exI [of _ q] exI [of _ recs])
      auto
qed

section \<open>Requests and the flush as goroutines\<close>

text \<open>
  When both servers have drained, no handler is under way or starts any more: every goroutine
  has returned, or never began and gets no turn. \<open>http.Server.Shutdown\<close> promises that when it
  returns nil, and \<open>GracefulStop\<close> when it returns.
\<close>

definition at_rest :: "call list \<Rightarrow> ('s, 'e) goroutines \<Rightarrow> bool" where
  "at_rest cs g \<longleftrightarrow> list_all2 (\<lambda>c pc. returned pc \<or> pc = call_start c) cs (pcs g)"

definition drained_servers ::
  "drain_env \<Rightarrow> call list \<Rightarrow> turn list \<Rightarrow> ('s, 'e) goroutines \<Rightarrow> bool" where
  "drained_servers env cs later g \<longleftrightarrow>
     (http_answer env = None \<and> graceful_took env \<noteq> None \<longrightarrow>
        at_rest cs g \<and> (\<forall>t \<in> set later. tn_who t < length cs \<longrightarrow> returned (pcs g ! tn_who t)))"

lemma at_rest_view:
  assumes "at_rest cs g"
  shows "view g wr = sys_of (g_proc g) Idle (g_sink g) {#} wr"
proof -
  have n: "\<not> holds_lock pc \<and> in_hand pc = {#}" if "pc \<in> set (pcs g)" for pc
  proof -
    from that obtain i where "i < length (pcs g)" "pc = pcs g ! i" by (auto simp: in_set_conv_nth)
    then have "returned pc \<or> pc = call_start (cs ! i)"
      using assms by (simp add: at_rest_def list_all2_conv_all_nth)
    then show ?thesis by (elim disjE) (simp_all add: returned_facts)
  qed
  then have "filter holds_lock (pcs g) = []" by (auto simp: filter_empty_conv)
  moreover have "map in_hand (pcs g) = map (\<lambda>_. {#}) (pcs g)" using n by (intro map_cong) auto
  then have "sum_list (map in_hand (pcs g)) = {#}" by (simp only: sum_list_0)
  ultimately show ?thesis by (simp add: view_def no_lock_Idle)
qed

text \<open>The servers of a run, as goroutines over the processor that the process configured.\<close>

lemma served_schedule:
  "served_together fl frac_ns quote env sc out =
     run_schedule fl (Some (jsonl_sink quote)) (sc_serving sc)
       (spawn (re_calls env) ((out, re_answers env),
          start_processor (MergeWait (LoadConfig frac_ns (re_getenv env)))
            (cfg_ObserverID (LoadConfig frac_ns (re_getenv env)))
            (cfg_ObserverVersion (LoadConfig frac_ns (re_getenv env)))))"
  by (simp add: served_together_def start_processor_def Let_def)

lemma served_reachable:
  assumes "\<forall>t \<in> set (sc_serving sc). range_order (tn_order t)"
    and "served_together fl frac_ns quote env sc s0 = g"
  obtains wr where "lock_inv g"
    "reachable fl (Some (jsonl_sink quote)) (MergeWait (LoadConfig frac_ns (re_getenv env)))
       (s0, re_answers env) (view g wr)"
proof -
  let ?cfg = "LoadConfig frac_ns (re_getenv env)" and ?k = "Some (jsonl_sink quote)"
  let ?p = "start_processor (MergeWait ?cfg) (cfg_ObserverID ?cfg) (cfg_ObserverVersion ?cfg)"
  obtain wr0 where r: "reachable fl ?k (MergeWait ?cfg) (s0, re_answers env)
      (sys_of ?p Idle (s0, re_answers env) {#} wr0)" using reachable_start ..
  from schedule_reachable [OF assms(1) r assms(2) [unfolded served_schedule]] that
  show thesis by blast
qed

lemma add_flush:
  "view (g\<lparr>pcs := pcs g @ [Locking None]\<rparr>) wr = view g wr"
  "lock_inv (g\<lparr>pcs := pcs g @ [Locking None]\<rparr>) \<longleftrightarrow> lock_inv g"
  using lock_phase_unlocked [of "Locking None" "pcs g" "[]"] by (simp_all add: view_def lock_inv_def)

text \<open>The flush beside the goroutines: still a run of the interleaved system.\<close>

lemma flushed_reachable:
  assumes "\<forall>t \<in> set (sc_flush sc). range_order (tn_order t)" and "lock_inv g"
    and "reachable fl (Some (jsonl_sink quote)) wait s (view g wr)"
  obtains w where "reachable fl (Some (jsonl_sink quote)) wait s (view (flushed_together fl quote sc g) w)"
  using schedule_steps [OF _ assms(1), of "g\<lparr>pcs := pcs g @ [Locking None]\<rparr>" fl
      "Some (jsonl_sink quote)" wr] assms(2,3) that
  by (auto simp: flushed_together_def add_flush intro: reachable_steps)

text \<open>A flush that nobody disturbs and that returns is the \<open>Flush\<close> of the processor.\<close>

lemma flushed_alone:
  assumes "at_rest cs g" and "\<forall>t \<in> set (sc_flush sc). range_order (tn_order t)"
    and "\<forall>t \<in> set (sc_flush sc). tn_who t < length cs \<longrightarrow> returned (pcs g ! tn_who t)"
    and "flushed_together fl quote sc g = g'" and "last (pcs g') = Returned e"
  obtains rng where "range_order rng"
    "Flush (Some (jsonl_sink quote)) rng (g_sink g, g_proc g) = (e, g_sink g', g_proc g')"
proof -
  let ?g = "g\<lparr>pcs := pcs g @ [Locking None]\<rparr>"
  have "length cs = length (pcs g)" using assms(1) by (auto simp: at_rest_def dest: list_all2_lengthD)
  then have o: "\<forall>t \<in> set (sc_flush sc). range_order (tn_order t) \<and>
      (tn_who t < length (pcs g) \<longrightarrow> returned (pcs g ! tn_who t))" using assms(2,3) by simp
  have p: "pcs ?g = pcs g @ [Locking None]" "assembling (Locking None :: sink_err pc)" by simp_all
  note run = assms(4) [unfolded flushed_together_def]
  from left_alone [OF p o, of fl "Some (jsonl_sink quote)" e] that show thesis
    using assms(5) by (auto simp: run Flush_def)
qed

text \<open>A run that ends with 0: the goroutine of the flush has returned nil.\<close>

lemma together_returned:
  assumes "run_together fl frac_ns quote sc env args = out" and "ro_exit out = 0"
    and "args \<noteq> [''--version'']"
  obtains s0 g g' where
    "NewJSONL (re_open env) (ObservationsPath (LoadConfig frac_ns (re_getenv env))) = Inr s0"
    "flushed_together fl quote sc (served_together fl frac_ns quote env sc s0) = g"
    "last (pcs g) = Returned None" "close_together (re_close_fault env) g = (None, g')"
    "http_answer (re_drain env) = None" "graceful_took (re_drain env) \<noteq> None"
    "ro_end out = Some (g_sink g', g_proc g')"
    "last (ro_log out) = LogFinalStats (stats_json (ProcessorStats (g_proc g')))"
proof (rule run_exit_zero [OF assms(1) [unfolded run_together_def] assms(2,3)], goal_cases)
  case (1 s0 g g')
  have g: "flushed_together fl quote sc (served_together fl frac_ns quote env sc s0) = g"
    and e: "returned_error (last (pcs g)) = None"
    using 1(3) by (auto simp: Let_def)
  have "returned (last (pcs g))" using 1(9) by (simp add: g split: if_splits)
  with e have "last (pcs g) = Returned None"
    by (cases "last (pcs g)") (simp_all add: returned_error_def)
  then show ?case using that [OF 1(2) g] 1(4-8) by simp
qed

text \<open>
  C6. Whatever the exit code, the file is in order. The file ended with a complete line, or was
  empty, before the run. However the goroutines of the run take turns, whether the flush ended,
  failed or was abandoned at the deadline, whatever the disk did: at the end the complete lines
  of the committed part of the file are those it had followed by the encodings of records of
  which no two have the same key, every write that was counted is among them, and at most one
  more has been written and not yet counted. The committed part is the whole file unless a
  rollback has failed and poisoned the sink.
\<close>

theorem every_exit_consistent:
  assumes "run_together fl frac_ns quote sc env args = out"
    and "ro_end out = Some ((s, answers), p)"
    and "terminated (existing (re_open env))"
    and "\<forall>t \<in> set (sc_serving sc) \<union> set (sc_flush sc). range_order (tn_order t)"
  shows "\<exists>recs :: assembled list.
    map Some (lines (committed s)) =
      map Some (lines (existing (re_open env))) @ map (\<lambda>a. Marshal quote (a_ex a)) recs \<and>
    distinct (map a_key recs) \<and> (\<forall>a \<in> set recs. a_key a = record_key (a_ex a)) \<and>
    EmittedCount (stats p) \<le> length recs \<and> length recs \<le> Suc (EmittedCount (stats p)) \<and>
    (poisoned s = None \<longrightarrow> file_bytes s = committed s)"
proof -
  let ?k = "Some (jsonl_sink quote)" and ?cfg = "LoadConfig frac_ns (re_getenv env)"
  have ord: "\<forall>t \<in> set (sc_serving sc). range_order (tn_order t)"
    "\<forall>t \<in> set (sc_flush sc). range_order (tn_order t)" using assms(4) by simp_all
  obtain s0 g where s0: "NewJSONL (re_open env) (ObservationsPath ?cfg) = Inr s0"
    and g: "g = served_together fl frac_ns quote env sc s0
      \<or> g = flushed_together fl quote sc (served_together fl frac_ns quote env sc s0)"
    and e: "((s, answers), p) = (g_sink g, g_proc g)
      \<or> ((s, answers), p) =
          (g_sink (snd (close_together (re_close_fault env) g)),
           g_proc (snd (close_together (re_close_fault env) g)))"
    using run_hosted_end [OF assms(1) [unfolded run_together_def] assms(2)]
    by (auto simp: Let_def)
  have p: "p = g_proc g" and s: "committed s = committed (fst (g_sink g))"
    "file_bytes s = file_bytes (fst (g_sink g))" "poisoned s = poisoned (fst (g_sink g))"
    using e JSONL_Close_file [of "re_close_fault env" "fst (g_sink g)"]
    by (cases "g_sink g"; auto simp: close_together_def split: prod.splits)+
  obtain wr0 where l: "lock_inv (served_together fl frac_ns quote env sc s0)"
    and r0: "reachable fl ?k (MergeWait ?cfg) (s0, re_answers env)
      (view (served_together fl frac_ns quote env sc s0) wr0)"
    by (rule served_reachable [OF ord(1) refl])
  obtain wr1 where "reachable fl ?k (MergeWait ?cfg) (s0, re_answers env)
      (view (flushed_together fl quote sc (served_together fl frac_ns quote env sc s0)) wr1)"
    by (rule flushed_reachable [OF ord(2) l r0])
  with r0 g obtain recs where x: "reachable fl ?k (MergeWait ?cfg) (s0, re_answers env) (view g recs)"
    by blast
  have li: "log_inv (view g recs)" using reachable_inv [OF x] by (simp add: sys_inv_def)
  have w: "written (view g recs) = recs" "proc (view g recs) = p" "sinkst (view g recs) = g_sink g"
    by (simp_all add: view_def sys_of_def p)
  have n: "length recs = EmittedCount (stats p) + length (unacked (phase (view g recs)))"
    "distinct (map a_key recs)" "\<forall>a \<in> set recs. keyed (a_key a) (a_ex a)"
    using li by (simp_all add: log_inv_def w)
  have "length (unacked ph) \<le> 1" for ph by (cases ph) simp_all
  with n(1) have c: "EmittedCount (stats p) \<le> length recs" "length recs \<le> Suc (EmittedCount (stats p))"
    by (metis le_add1, metis Suc_eq_plus1 add_le_cancel_left)
  show ?thesis
    using file_log [OF s0 assms(3) x] n c by (intro exI [of _ recs]) (auto simp: s w keyed_def record_key_def)
qed

text \<open>
  C2. Nothing is lost when requests are handled concurrently. The requests of a run are served
  by goroutines that take turns in any order, with the sink failing as it likes, and the last
  flush is a goroutine too. The file ended with a complete line before, or was empty; the servers
  keep their promise to drain; and no span that was sent names as its parent one that names a
  parent too. When the process then ends with 0, nothing is buffered, the last line of the log
  gives the final counters, the file is closed, its complete lines are those it had followed by
  one encoded record for every record counted as emitted, no two of them with the same key, and
  the key of every tool call of every request that was answered is among the keys they were made
  from.
\<close>

theorem together_exit_zero:
  assumes "run_together fl frac_ns quote sc env args = out" and "ro_exit out = 0"
    and "args \<noteq> [''--version'']"
    and "NewJSONL (re_open env) (ObservationsPath (LoadConfig frac_ns (re_getenv env))) = Inr s0"
    and "terminated (existing (re_open env))"
    and "\<forall>t \<in> set (sc_serving sc) \<union> set (sc_flush sc). range_order (tn_order t)"
    and "served_together fl frac_ns quote env sc s0 = g"
    and "drained_servers (re_drain env) (re_calls env) (sc_flush sc) g"
    and "flat (span_signals fl (re_calls env))"
  shows "\<exists>s answers p. \<exists>recs :: assembled list. ro_end out = Some ((s, answers), p) \<and> closed s \<and>
    firstSeen p = fmempty \<and> last (ro_log out) = LogFinalStats (stats_json (ProcessorStats p)) \<and>
    map Some (lines (committed s)) =
      map Some (lines (existing (re_open env))) @ map (\<lambda>a. Marshal quote (a_ex a)) recs \<and>
    distinct (map a_key recs) \<and> length recs = EmittedCount (stats p) \<and>
    (\<forall>i < length (re_calls env). returned (pcs g ! i) \<longrightarrow>
       call_keys fl (re_calls env ! i) \<subseteq> consumed recs)"
proof -
  let ?cfg = "LoadConfig frac_ns (re_getenv env)" and ?k = "Some (jsonl_sink quote)"
  let ?p = "start_processor (MergeWait ?cfg) (cfg_ObserverID ?cfg) (cfg_ObserverVersion ?cfg)"
  have ord: "\<forall>t \<in> set (sc_serving sc). range_order (tn_order t)"
    "\<forall>t \<in> set (sc_flush sc). range_order (tn_order t)" using assms(6) by simp_all
  have g: "run_schedule fl ?k (sc_serving sc) (spawn (re_calls env) ((s0, re_answers env), ?p)) = g"
    using assms(7) by (simp add: served_schedule)
  have ol: "one_level (g_proc g)" by (rule schedule_one_level [OF assms(9) g])
  obtain s1 g' g'' where e: "NewJSONL (re_open env) (ObservationsPath ?cfg) = Inr s1"
    "flushed_together fl quote sc (served_together fl frac_ns quote env sc s1) = g'"
    and la: "last (pcs g') = Returned None"
    and cl: "close_together (re_close_fault env) g' = (None, g'')"
    and dr: "http_answer (re_drain env) = None" "graceful_took (re_drain env) \<noteq> None"
    and out: "ro_end out = Some (g_sink g'', g_proc g'')"
      "last (ro_log out) = LogFinalStats (stats_json (ProcessorStats (g_proc g'')))"
    by (rule together_returned [OF assms(1-3)])
  have g': "flushed_together fl quote sc g = g'" using e assms(4,7) by simp
  have rest: "at_rest (re_calls env) g"
    "\<forall>t \<in> set (sc_flush sc). tn_who t < length (re_calls env) \<longrightarrow> returned (pcs g ! tn_who t)"
    using assms(8) dr by (simp_all add: drained_servers_def)
  obtain rng where ro: "range_order rng"
    and f: "Flush ?k rng (g_sink g, g_proc g) = (None, g_sink g', g_proc g')"
    by (rule flushed_alone [OF rest(1) ord(2) rest(2) g' la])
  obtain wr where x: "reachable fl ?k (MergeWait ?cfg) (s0, re_answers env)
      (sys_of (g_proc g) Idle (g_sink g) {#} wr)"
    using served_reachable [OF ord(1) assms(7)] by (metis at_rest_view [OF rest(1)])
  from clean_flush [OF assms(4,5) ro ol f x] obtain recs :: "assembled list" where
    c: "firstSeen (g_proc g') = fmempty"
    "map Some (lines (committed (fst (g_sink g')))) =
      map Some (lines (existing (re_open env))) @ map (\<lambda>a. Marshal quote (a_ex a)) recs"
    "distinct (map a_key recs)" "length recs = EmittedCount (stats (g_proc g'))"
    "known (g_proc g) \<subseteq> consumed recs" by blast
  obtain wr0 where r: "reachable fl ?k (MergeWait ?cfg) (s0, re_answers env)
      (sys_of ?p Idle (s0, re_answers env) {#} wr0)" using reachable_start ..
  have kn: "call_keys fl (re_calls env ! i) \<subseteq> known (g_proc g)"
    if i: "i < length (re_calls env)" "returned (pcs g ! i)" for i
  proof -
    obtain err where "pcs g ! i = Returned err" using i(2) by (cases "pcs g ! i") simp_all
    from returned_known [OF ord(1) reachable_inv [OF r] g i(1) this] show ?thesis .
  qed
  have g'': "g_sink g'' = (fst (g_sink g')\<lparr>closed := True\<rparr>, snd (g_sink g'))" "g_proc g'' = g_proc g'"
    using cl by (auto simp: close_together_def split: prod.splits dest: JSONL_Close_nil)
  have "committed (fst (g_sink g')\<lparr>closed := True\<rparr>) = committed (fst (g_sink g'))"
    by (rule committed_close)
  then show ?thesis
    using c kn out g''
    by (intro exI [of _ "fst (g_sink g')\<lparr>closed := True\<rparr>"] exI [of _ "snd (g_sink g')"]
        exI [of _ "g_proc g'"] exI [of _ recs]) auto
qed

section \<open>Serving one request after the other is a schedule\<close>

lemma shutdownServices_map:
  assumes "flush (f g) = (case flush' g of (e, g) \<Rightarrow> (e, f g))" and "ab (f g) = f (ab' g)"
  shows "shutdownServices env flush ab deadline now (f g) =
    (case shutdownServices env flush' ab' deadline now g of (r, t, g) \<Rightarrow> (r, t, f g))"
  using assms
  by (simp add: shutdownServices_def flushProcessor_def Let_def split: prod.split bool.split)

lemma finalizeShutdown_map:
  assumes "close (f g) = (case close' g of (e, g) \<Rightarrow> (e, f g))"
  shows "finalizeShutdown r close (f g) = (case finalizeShutdown r close' g of (r, g) \<Rightarrow> (r, f g))"
  using assms by (simp add: finalizeShutdown_def split: prod.split)

text \<open>Two ways to host the processor that agree on sink and processor give the same run.\<close>

lemma run_hosted_map:
  assumes "NewJSONL (re_open env) (ObservationsPath (LoadConfig frac_ns (re_getenv env))) = Inr s0"
    and "ho_serve h' s0 = g" and "ho_serve h s0 = f g" and "ho_drain h (f g) = ho_drain h' g"
    and "ho_flush h (f g) = (case ho_flush h' g of (e, g) \<Rightarrow> (e, f g))"
    and "ho_abandoned h (f g) = f (ho_abandoned h' g)"
    and "\<And>g. ho_close h (f g) = (case ho_close h' g of (e, g) \<Rightarrow> (e, f g))"
    and "\<And>g. ho_world h (f g) = ho_world h' g"
  shows "run_hosted frac_ns env h args = run_hosted frac_ns env h' args"
proof -
  let ?t = "re_signal env + shutdownTimeout" and ?n = "re_signal env"
  obtain r t g1 where s: "shutdownServices (ho_drain h' g) (ho_flush h') (ho_abandoned h') ?t ?n g
      = (r, t, g1)" by (metis prod_cases3)
  obtain r' g2 where c: "finalizeShutdown r (ho_close h') g1 = (r', g2)" by (metis surj_pair)
  have s': "shutdownServices (ho_drain h' g) (ho_flush h) (ho_abandoned h) ?t ?n (f g) = (r, t, f g1)"
    using shutdownServices_map [of "ho_flush h" f g "ho_flush h'" "ho_abandoned h"
        "ho_abandoned h'", OF assms(5,6), of "ho_drain h' g" ?t ?n] s by simp
  have c': "finalizeShutdown r (ho_close h) (f g1) = (r', f g2)"
    using finalizeShutdown_map [of "ho_close h" f g1 "ho_close h'", OF assms(7), of r] c by simp
  show ?thesis
    unfolding run_hosted_def Let_def
    by (simp add: assms(1-4,8) s s' c c' split: option.split)
qed

lemma serial_flush:
  assumes "Flush (Some (jsonl_sink quote)) rng (w, p) = (e, w', p')"
  obtains ts where "\<forall>t \<in> set ts. tn_who t = length ps \<and> tn_order t = rng"
    "\<And>ts'. flushed_together fl quote \<lparr>sc_serving = ts', sc_flush = ts\<rparr>
        \<lparr>g_proc = p, g_sink = w, assembleMu = False, pcs = ps\<rparr> =
      \<lparr>g_proc = p', g_sink = w', assembleMu = False, pcs = ps @ [Returned e]\<rparr>"
proof -
  have "assemble (Some (jsonl_sink quote)) rng None (w, p) = (e, w', p')"
    using assms by (simp add: Flush_def)
  from solo_assemble [OF this, of fl] obtain ts where
    "\<forall>t \<in> set ts. tn_who t = length ps \<and> tn_order t = rng"
    "run_schedule fl (Some (jsonl_sink quote)) ts (among ps [] (Locking None, w, p, False)) =
      among ps [] (Returned e, w', p', False)" unfolding solo_def by meson
  then show thesis using that by (simp add: flushed_together_def among_def)
qed

text \<open>The servers one request after the other, then the flush, are a schedule at rest.\<close>

lemma serial_schedules:
  assumes "\<forall>ar \<in> set (re_arrivals env). range_order (ar_order ar)" and "range_order (re_rng env)"
    and "served fl frac_ns quote env s0 = (w, p)"
    and "Flush (Some (jsonl_sink quote)) (re_rng env) (w, p) = (e, w', p')"
  obtains sc errs where
    "\<forall>t \<in> set (sc_serving sc) \<union> set (sc_flush sc). range_order (tn_order t)"
    "served_together fl frac_ns quote env sc s0 =
      \<lparr>g_proc = p, g_sink = w, assembleMu = False, pcs = map Returned errs\<rparr>"
    "flushed_together fl quote sc
        \<lparr>g_proc = p, g_sink = w, assembleMu = False, pcs = map Returned errs\<rparr> =
      \<lparr>g_proc = p', g_sink = w', assembleMu = False, pcs = map Returned errs @ [Returned e]\<rparr>"
    "length errs = length (re_calls env)"
    "\<forall>t \<in> set (sc_flush sc). tn_who t = length (re_calls env)"
proof -
  let ?k = "Some (jsonl_sink quote)" and ?cfg = "LoadConfig frac_ns (re_getenv env)"
  let ?p = "start_processor (MergeWait ?cfg) (cfg_ObserverID ?cfg) (cfg_ObserverVersion ?cfg)"
  define errs where "errs = run_errors fl ?k (re_calls env) ((s0, re_answers env), ?p)"
  have l: "length (run_errors fl ?k cs sp) = length cs" for cs sp
    by (induction cs arbitrary: sp) simp_all
  have "\<forall>c \<in> set (re_calls env). range_order (call_order c)"
    unfolding re_calls_def by (rule arrival_calls_order [OF assms(1)])
  from serial_schedule [OF assms(3) [unfolded served_started] this] obtain ts where
    ts: "\<forall>t \<in> set ts. range_order (tn_order t)"
    "run_schedule fl ?k ts (spawn (re_calls env) ((s0, re_answers env), ?p)) =
      \<lparr>g_proc = p, g_sink = w, assembleMu = False, pcs = map Returned errs\<rparr>"
    unfolding errs_def by blast
  obtain us where
    us: "\<forall>t \<in> set us. tn_who t = length (map Returned errs :: sink_err pc list) \<and> tn_order t = re_rng env"
    "\<And>ts'. flushed_together fl quote \<lparr>sc_serving = ts', sc_flush = us\<rparr>
        \<lparr>g_proc = p, g_sink = w, assembleMu = False, pcs = map Returned errs\<rparr> =
      \<lparr>g_proc = p', g_sink = w', assembleMu = False, pcs = map Returned errs @ [Returned e]\<rparr>"
    using serial_flush [OF assms(4)] by blast
  have n: "length errs = length (re_calls env)" by (simp add: errs_def l)
  show thesis
    by (rule that [of "\<lparr>sc_serving = ts, sc_flush = us\<rparr>" errs])
      (use ts us n assms(2) in \<open>auto simp: served_schedule\<close>)
qed

text \<open>
  \<open>run\<close> is \<open>run_together\<close> with a schedule in which one goroutine after the other runs to its
  end; when the deadline comes first, the flush is just about to return.
\<close>

lemma run_serial:
  assumes "\<forall>ar \<in> set (re_arrivals env). range_order (ar_order ar)" and "range_order (re_rng env)"
    and "NewJSONL (re_open env) (ObservationsPath (LoadConfig frac_ns (re_getenv env))) = Inr s0"
    and "re_abandoned env = snd \<circ> Flush (Some (jsonl_sink quote)) (re_rng env)"
  obtains sc where "run_together fl frac_ns quote sc env args = run fl frac_ns quote env args"
    "\<forall>t \<in> set (sc_serving sc) \<union> set (sc_flush sc). range_order (tn_order t)"
    "drained_servers (re_drain env) (re_calls env) (sc_flush sc)
      (served_together fl frac_ns quote env sc s0)"
proof -
  obtain w p where sv: "served fl frac_ns quote env s0 = (w, p)" by fastforce
  obtain e w' p' where fl: "Flush (Some (jsonl_sink quote)) (re_rng env) (w, p) = (e, w', p')"
    by (metis prod_cases3)
  obtain sc errs where sc: "\<forall>t \<in> set (sc_serving sc) \<union> set (sc_flush sc). range_order (tn_order t)"
    and g: "served_together fl frac_ns quote env sc s0 =
      \<lparr>g_proc = p, g_sink = w, assembleMu = False, pcs = map Returned errs\<rparr>"
    and g': "flushed_together fl quote sc
        \<lparr>g_proc = p, g_sink = w, assembleMu = False, pcs = map Returned errs\<rparr> =
      \<lparr>g_proc = p', g_sink = w', assembleMu = False, pcs = map Returned errs @ [Returned e]\<rparr>"
    and n: "length errs = length (re_calls env)" "\<forall>t \<in> set (sc_flush sc). tn_who t = length (re_calls env)"
    by (rule serial_schedules [OF assms(1,2) sv fl])
  let ?f = "\<lambda>g. (g_sink g, g_proc g)"
  have "run fl frac_ns quote env args = run_together fl frac_ns quote sc env args"
    unfolding run_def run_together_def
    by (rule run_hosted_map [OF assms(3), where f = ?f])
      (auto simp: g g' sv fl assms(4) Let_def returned_error_def close_world_def close_together_def
        split: prod.split)
  moreover have "drained_servers (re_drain env) (re_calls env) (sc_flush sc)
      (served_together fl frac_ns quote env sc s0)"
    using n by (simp add: g drained_servers_def at_rest_def list_all2_conv_all_nth)
  ultimately show thesis using that sc by simp
qed

section \<open>A run\<close>

text \<open>
  A run that gets one tool call, an observer from the defaults and no wait, with a disk that
  takes every write; HTTP and gRPC drain at once and the flush takes a microsecond.
\<close>

definition good_getenv :: getenv where
  "good_getenv k =
     (if k = ''EVIDRA_BRIDGE_MERGE_WAIT'' then ''0'' else if k = ''EVIDRA_BRIDGE_OBSERVATIONS'' then ''o''
      else [])"

definition floor_frac :: "nat \<Rightarrow> nat \<Rightarrow> nat \<Rightarrow> nat" where
  "floor_frac f scale un = f * un div scale"

text \<open>The three signals of a call: a span over gRPC, the log over HTTP, a span over gRPC.\<close>

definition span_export :: "span \<Rightarrow> request" where
  "span_export sp =
     TracesExport \<lparr>er_Resources = [\<lparr>rg_Attributes = [], rg_Scopes = [\<lparr>sg_Records = [Some sp]\<rparr>]\<rparr>]\<rparr>"

definition good_arrivals :: "arrival list" where
  "good_arrivals = map at_once
     [span_export (gatewaySpan [1] [3] [2] SPAN_KIND_CLIENT ''restart'' ''alpha'' STATUS_CODE_UNSET),
      HttpRequest \<lparr>mr_Path = ''/v1/logs'', mr_Request = post_body\<rparr>,
      span_export (gatewaySpan [1] [2] [] SPAN_KIND_SERVER ''restart'' ''alpha'' STATUS_CODE_UNSET)]"

lemma good_calls: "arrival_calls demo_codec good_arrivals = one_call_demo"
proof -
  have r: "routed \<lparr>mr_Path = ''/v1/logs'', mr_Request = post_body\<rparr> = Some LogsRoute" by code_simp
  have b: "rq_Method post_body = ''POST''" "rq_Body post_body = Some ''body''"
    by (simp_all add: post_body_def)
  show ?thesis
    by (simp add: arrival_calls_def good_arrivals_def arrival_call_def at_once_def span_export_def
        handed_logs_def handed_spans_def r b posted_def demo_codec_def request_records_def
        one_log_request_def one_call_demo_def List.map_filter_simps)
qed

definition good_env :: "nat \<Rightarrow> run_env" where
  "good_env n =
     \<lparr>re_getenv = good_getenv, re_open = fresh_env,
      re_answers = (\<lambda>_. fine_env\<lparr>write_count := n\<rparr>), re_grpc_listen = None,
      re_http_serve = None, re_codec = demo_codec, re_arrivals = good_arrivals, re_signal = 0,
      re_rng = sorted_list_of_fset, re_drain = good_drain,
      re_abandoned = snd \<circ> Flush (Some (jsonl_sink (\<lambda>s. s))) sorted_list_of_fset,
      re_close_fault = None\<rparr>"

text \<open>The same, but nobody hears of the end of the flush before the deadline.\<close>

definition late_env :: "nat \<Rightarrow> run_env" where
  "late_env n = (good_env n)\<lparr>re_drain := good_drain\<lparr>flush_took := None\<rparr>\<rparr>"

lemma good_env_facts:
  "re_getenv (good_env n) = good_getenv" "re_open (good_env n) = fresh_env"
  "re_grpc_listen (good_env n) = None" "re_http_serve (good_env n) = None"
  "re_arrivals (good_env n) = good_arrivals" "re_signal (good_env n) = 0"
  "re_rng (good_env n) = sorted_list_of_fset" "re_drain (good_env n) = good_drain"
  "re_abandoned (good_env n) = snd \<circ> Flush (Some (jsonl_sink (\<lambda>s. s))) (re_rng (good_env n))"
  "re_close_fault (good_env n) = None"
  by (simp_all add: good_env_def)

lemma good_config:
  "LoadConfig floor_frac good_getenv =
     \<lparr>ListenAddr = '':4318'', GRPCListenAddr = '':4317'', ObservationsPath = ''o'', MergeWait = 0,
      cfg_ObserverID = ''agentgateway-bridge'', cfg_ObserverVersion = []\<rparr>"
  by (simp add: LoadConfig_def envOrDefault_def envDurationOrDefault_def good_getenv_def
      ParseDuration_def Let_def)

definition good_start :: processor where
  "good_start = start_processor 0 ''agentgateway-bridge'' []"

lemma good_open: "NewJSONL fresh_env ''o'' = Inr (new_file [])"
  by (simp add: NewJSONL_def fresh_env_def new_file_def Let_def)

lemma close_new_file: "JSONL_Close None (new_file xs) = (None, (new_file xs)\<lparr>closed := True\<rparr>)"
  by (simp add: JSONL_Close_def new_file_def)

lemma good_served:
  "served plain_floats floor_frac (\<lambda>s. s) (good_env n) (new_file []) =
     run_calls plain_floats (Some (jsonl_sink (\<lambda>s. s))) one_call_demo
       ((new_file [], \<lambda>_. fine_env\<lparr>write_count := n\<rparr>), good_start)"
  by (simp add: served_started good_env_def good_config good_start_def re_calls_def good_calls)

lemma good_flush:
  obtains n line w p w' p' where
    "served plain_floats floor_frac (\<lambda>s. s) (good_env n) (new_file []) = (w, p)" "one_level p"
    "Flush (Some (jsonl_sink (\<lambda>s. s))) sorted_list_of_fset (w, p) = (None, w', p')"
    "fst w' = new_file (line @ [newline])" "lines (committed (fst w')) = [line]"
proof -
  obtain line where
    l: "Marshal (\<lambda>s. s) (call_record (stamp good_start)) = Some line" "printable line"
    using Marshal_total [OF call_record_wf] by blast
  let ?n = "Suc (length line)"
  let ?k = "Some (jsonl_sink (\<lambda>s. s))"
  obtain w1 p1 where r: "run_calls plain_floats ?k one_call_demo
      ((new_file [], \<lambda>_. fine_env\<lparr>write_count := ?n\<rparr>), good_start) = (w1, p1)" by fastforce
  obtain e w2 p2 where f: "Flush ?k sorted_list_of_fset (w1, p1) = (e, w2, p2)"
    by (metis prod_cases3)
  have e: "e = None" "fst w2 = new_file (line @ [newline])"
    using one_call_flushed [OF l(1) [unfolded good_start_def] lessI order_refl
        r [unfolded good_start_def] f] by simp_all
  have "lines (committed (fst w2)) = [line]"
    using lines_append [of "[]" line] printable_no_newline [OF l(2)] e(2)
    by (simp add: committed_def new_file_def terminated_def)
  then show thesis
    using that [OF good_served [of ?n, unfolded r] one_call_one_level [OF r [unfolded good_start_def]]]
      f e by simp
qed

lemma good_run:
  obtains n line w p w' p' where
    "served plain_floats floor_frac (\<lambda>s. s) (good_env n) (new_file []) = (w, p)" "one_level p"
    "ro_exit (run plain_floats floor_frac (\<lambda>s. s) (good_env n) []) = 0"
    "ro_end (run plain_floats floor_frac (\<lambda>s. s) (good_env n) []) =
       Some ((fst w'\<lparr>closed := True\<rparr>, snd w'), p')"
    "lines (committed (fst w'\<lparr>closed := True\<rparr>)) = [line]"
proof -
  let ?k = "Some (jsonl_sink (\<lambda>s. s))"
  obtain n line w p w' p' where
    sv: "served plain_floats floor_frac (\<lambda>s. s) (good_env n) (new_file []) = (w, p)" "one_level p"
    and f: "Flush ?k sorted_list_of_fset (w, p) = (None, w', p')"
    and n: "fst w' = new_file (line @ [newline])" "lines (committed (fst w')) = [line]"
    by (rule good_flush)
  let ?out = "run plain_floats floor_frac (\<lambda>s. s) (good_env n) []"
  note env = good_env_facts
  have dr: "shutdownServices good_drain (Flush ?k sorted_list_of_fset) ab
      shutdownTimeout 0 (w, p) = (\<lparr>httpErr = None, flushErr = None, closeErr = None,
        grpcForced = False, flushTimedOut = False\<rparr>, 1010, w', p')" for ab
    using f
    by (simp add: shutdownServices_def stopGRPC_def flushProcessor_def select_channel_def
        good_drain_def shutdownTimeout_def Second_def)
  have cl: "close_world None (w', p') = (None, (fst w'\<lparr>closed := True\<rparr>, snd w'), p')"
    using close_new_file [of "line @ [newline]"] n(1)
    by (cases w') (simp add: close_world_def)
  have z: "ro_exit ?out = 0" "ro_end ?out = Some ((fst w'\<lparr>closed := True\<rparr>, snd w'), p')"
    by (simp_all add: run_def run_hosted_def good_config good_open sv env dr cl
        finalizeShutdown_def exitCode_def Let_def)
  show thesis by (rule that [OF sv z]) (simp only: committed_close n(2))
qed

lemma late_run:
  obtains n line w where
    "ro_exit (run plain_floats floor_frac (\<lambda>s. s) (late_env n) []) = 1"
    "ro_end (run plain_floats floor_frac (\<lambda>s. s) (late_env n) []) = Some w"
    "lines (committed (fst (fst w))) = [line]"
proof -
  let ?k = "Some (jsonl_sink (\<lambda>s. s))"
  obtain n line w p w' p' where
    sv: "served plain_floats floor_frac (\<lambda>s. s) (good_env n) (new_file []) = (w, p)" "one_level p"
    and f: "Flush ?k sorted_list_of_fset (w, p) = (None, w', p')"
    and n: "fst w' = new_file (line @ [newline])" "lines (committed (fst w')) = [line]"
    by (rule good_flush)
  let ?out = "run plain_floats floor_frac (\<lambda>s. s) (late_env n) []"
  note env = good_env_facts
  have sv': "served plain_floats floor_frac (\<lambda>s. s) (late_env n) (new_file []) = (w, p)"
    using sv(1) by (simp add: late_env_def served_def)
  have dr: "shutdownServices (good_drain\<lparr>flush_took := None\<rparr>) fl (snd \<circ> Flush ?k sorted_list_of_fset)
      shutdownTimeout 0 (w, p) = (\<lparr>httpErr = None, flushErr = Some FlushDeadline, closeErr = None,
        grpcForced = False, flushTimedOut = True\<rparr>, shutdownTimeout, w', p')" for fl
    using f
    by (simp add: shutdownServices_def stopGRPC_def flushProcessor_def select_channel_def
        good_drain_def shutdownTimeout_def Second_def)
  have "ro_exit ?out = 1" "ro_end ?out = Some (w', p')"
    by (simp_all add: run_def run_hosted_def sv' [simplified late_env_def] late_env_def good_config
        good_open env dr finalizeShutdown_def exitCode_def Let_def)
  then show thesis using that n(2) by simp
qed

lemma good_open_env:
  "NewJSONL (re_open (good_env n))
     (ObservationsPath (LoadConfig floor_frac (re_getenv (good_env n)))) = Inr (new_file [])"
  "terminated (existing (re_open (good_env n)))"
  "\<forall>ar \<in> set (re_arrivals (good_env n)). range_order (ar_order ar)"
  "range_order (re_rng (good_env n))"
proof -
  show "NewJSONL (re_open (good_env n))
     (ObservationsPath (LoadConfig floor_frac (re_getenv (good_env n)))) = Inr (new_file [])"
    by (simp add: good_env_facts good_config good_open)
qed (simp_all add: good_env_facts fresh_env_def terminated_def good_arrivals_def at_once_def
    range_order_sorted)

theorem exit_zero_nothing_lost_witness:
  "\<exists>n s answers p line. ro_exit (run plain_floats floor_frac (\<lambda>s. s) (good_env n) []) = 0 \<and>
     ro_end (run plain_floats floor_frac (\<lambda>s. s) (good_env n) []) = Some ((s, answers), p) \<and>
     closed s \<and> firstSeen p = fmempty \<and> lines (committed s) = [line]"
proof -
  obtain n line w p w' p' where
    sv: "served plain_floats floor_frac (\<lambda>s. s) (good_env n) (new_file []) = (w, p)" "one_level p"
    and z: "ro_exit (run plain_floats floor_frac (\<lambda>s. s) (good_env n) []) = 0"
    "ro_end (run plain_floats floor_frac (\<lambda>s. s) (good_env n) []) =
       Some ((fst w'\<lparr>closed := True\<rparr>, snd w'), p')"
    "lines (committed (fst w'\<lparr>closed := True\<rparr>)) = [line]" by (rule good_run)
  have "one_level (snd (served plain_floats floor_frac (\<lambda>s. s) (good_env n) (new_file [])))"
    using sv by simp
  from exit_zero_nothing_lost [OF refl z(1) _ good_open_env this] z show ?thesis
    by (intro exI conjI) (rule z(1), rule z(2), simp_all)
qed

lemma one_call_flat: "flat (span_signals plain_floats one_call_demo)"
proof -
  have xs: "span_signals plain_floats one_call_demo = [ex_client, ex_server]"
    by (simp add: span_signals_def one_call_demo_def samples_Some List.map_filter_simps)
  have k: "record_key ex_client = ''01/03''" "record_key ex_server = ''01/02''"
    using one_call_keys by (simp_all add: record_key_def)
  have "parent_keys [ex_client, ex_server] ''01/03'' = [''01/02'']"
    "parent_keys [ex_client, ex_server] ''01/02'' = []"
    using one_call_keys(4-6)
    by (auto simp: parent_keys_def k names_parent_def parent_key_def Let_def)
  then show ?thesis by (simp add: flat_def xs k)
qed

text \<open>The same run, with its three requests and the flush as goroutines.\<close>

theorem together_exit_zero_witness:
  "\<exists>n sc s answers p line.
     ro_exit (run_together plain_floats floor_frac (\<lambda>s. s) sc (good_env n) []) = 0 \<and>
     ro_end (run_together plain_floats floor_frac (\<lambda>s. s) sc (good_env n) []) = Some ((s, answers), p) \<and>
     closed s \<and> firstSeen p = fmempty \<and> lines (committed s) = [line]"
proof -
  obtain n line w p w' p' where
    z: "ro_exit (run plain_floats floor_frac (\<lambda>s. s) (good_env n) []) = 0"
    "ro_end (run plain_floats floor_frac (\<lambda>s. s) (good_env n) []) =
       Some ((fst w'\<lparr>closed := True\<rparr>, snd w'), p')"
    "lines (committed (fst w'\<lparr>closed := True\<rparr>)) = [line]" by (rule good_run)
  note op = good_open_env [of n]
  obtain sc where
    same: "run_together plain_floats floor_frac (\<lambda>s. s) sc (good_env n) [] =
      run plain_floats floor_frac (\<lambda>s. s) (good_env n) []"
    and o: "\<forall>t \<in> set (sc_serving sc) \<union> set (sc_flush sc). range_order (tn_order t)"
    and dr: "drained_servers (re_drain (good_env n)) (re_calls (good_env n)) (sc_flush sc)
      (served_together plain_floats floor_frac (\<lambda>s. s) (good_env n) sc (new_file []))"
    by (rule run_serial [OF op(3,4,1) good_env_facts(9)])
  let ?out = "run_together plain_floats floor_frac (\<lambda>s. s) sc (good_env n) []"
  have fl: "flat (span_signals plain_floats (re_calls (good_env n)))"
    using one_call_flat by (simp add: re_calls_def good_env_def good_calls)
  have ex: "ro_exit ?out = 0" using same z(1) by simp
  have "[] \<noteq> [''--version'']" by simp
  from together_exit_zero [OF refl ex this op(1,2) o refl dr fl] have "firstSeen p' = fmempty"
    by (auto simp only: same z(2) option.inject prod.inject)
  then show ?thesis
    using same z by (intro exI [of _ n] exI [of _ sc]) (simp add: z(3))
qed

text \<open>And when the deadline comes first: the exit code is 1, and the record is in the file.\<close>

theorem every_exit_consistent_witness:
  "\<exists>n sc s answers p line.
     ro_exit (run_together plain_floats floor_frac (\<lambda>s. s) sc (late_env n) []) = 1 \<and>
     ro_end (run_together plain_floats floor_frac (\<lambda>s. s) sc (late_env n) []) = Some ((s, answers), p) \<and>
     lines (committed s) = [line] \<and> EmittedCount (stats p) \<le> 1"
proof -
  obtain n line w where
    z: "ro_exit (run plain_floats floor_frac (\<lambda>s. s) (late_env n) []) = 1"
    "ro_end (run plain_floats floor_frac (\<lambda>s. s) (late_env n) []) = Some w"
    "lines (committed (fst (fst w))) = [line]" by (rule late_run)
  obtain s answers p where w: "w = ((s, answers), p)" by (metis prod_cases3 surj_pair)
  have op: "NewJSONL (re_open (late_env n))
      (ObservationsPath (LoadConfig floor_frac (re_getenv (late_env n)))) = Inr (new_file [])"
    "terminated (existing (re_open (late_env n)))" "existing (re_open (late_env n)) = []"
    "\<forall>ar \<in> set (re_arrivals (late_env n)). range_order (ar_order ar)"
    "range_order (re_rng (late_env n))"
    "re_abandoned (late_env n) = snd \<circ> Flush (Some (jsonl_sink (\<lambda>s. s))) (re_rng (late_env n))"
    using good_open_env [of n] by (simp_all add: late_env_def good_env_facts fresh_env_def)
  obtain sc where
    same: "run_together plain_floats floor_frac (\<lambda>s. s) sc (late_env n) [] =
      run plain_floats floor_frac (\<lambda>s. s) (late_env n) []"
    and o: "\<forall>t \<in> set (sc_serving sc) \<union> set (sc_flush sc). range_order (tn_order t)"
    by (rule run_serial [OF op(4,5,1,6)])
  from every_exit_consistent [OF same z(2) [unfolded w] op(2) o] obtain recs :: "assembled list" where
    "map Some (lines (committed s)) = map (\<lambda>a. Marshal (\<lambda>s. s) (a_ex a)) recs"
    "EmittedCount (stats p) \<le> length recs" by (auto simp: op(3) lines_def)
  then have "EmittedCount (stats p) \<le> 1" using z(3) by (auto simp: w dest: arg_cong [where f = length])
  with same z show ?thesis by (intro exI [of _ n] exI [of _ sc]) (simp add: w)
qed

end
