(* ===== verification/Attribution.thy ===== *)
theory Attribution
  imports Goroutines
begin

text \<open>
  From the received messages to the attribution of a written record. The steps of \<open>Interleaving\<close>
  are accompanied by the history of \<open>Provenance\<close> and by the list of the messages that were
  received, so that a record can be traced to the messages it came from, not only to signals.
\<close>

section \<open>Runs with their messages\<close>

text \<open>
  A step that receives a message counts it and puts what it is normalized to among the signals in
  hand; every other step adds none to these.
\<close>

inductive run_messages ::
  "float_lib \<Rightarrow> ('s, 'e) sink_write option \<Rightarrow> int \<Rightarrow> 's \<Rightarrow> 's sys \<Rightarrow> history \<Rightarrow> input list \<Rightarrow> bool"
  for fl sink wait s0 where
  start: "run_messages fl sink wait s0 (init_sys wait s0) no_history []"
| message: "run_messages fl sink wait s0 s h ms \<Longrightarrow>
    t = s\<lparr>proc := count_stat (count_seen i) (proc s),
          received := add_mset (normalized fl i) (received s)\<rparr> \<Longrightarrow>
    run_messages fl sink wait s0 t (observe s t h) (ms @ [i])"
| other: "run_messages fl sink wait s0 s h ms \<Longrightarrow> step fl sink s t \<Longrightarrow>
    received t \<subseteq># received s \<Longrightarrow> run_messages fl sink wait s0 t (observe s t h) ms"

lemma message_step:
  "step fl sink s (s\<lparr>proc := count_stat (count_seen i) (proc s),
     received := add_mset (normalized fl i) (received s)\<rparr>)"
  using step.receive_log [of fl sink s] step.receive_span [of fl sink s] by (cases i) simp_all

lemma run_messages_history: "run_messages fl sink wait s0 s h ms \<Longrightarrow> run_history fl sink wait s0 s h"
  by (induction rule: run_messages.induct) (auto intro: run_history.intros message_step)

text \<open>Every run of the system has its messages.\<close>

lemma run_history_messages:
  "run_history fl sink wait s0 s h \<Longrightarrow> \<exists>ms. run_messages fl sink wait s0 s h ms"
proof (induction rule: run_history.induct)
  case start
  show ?case by (blast intro: run_messages.start)
next
  case (more s h t)
  then obtain ms where ms: "run_messages fl sink wait s0 s h ms" by blast
  note other = run_messages.other [OF ms more.hyps(2)]
  from more.hyps(2) show ?case
  proof (cases rule: step.cases)
    case (receive_log r)
    then show ?thesis using run_messages.message [OF ms, of t "InputLog r"] by auto
  next
    case (receive_span sp)
    then show ?thesis using run_messages.message [OF ms, of t "InputSpan sp"] by auto
  qed (use other in \<open>auto simp: diff_subset_eq_self\<close>)
qed

section \<open>Messages and signals\<close>

fun input_attributes :: "float_lib \<Rightarrow> input \<Rightarrow> (string, string) fmap" where
  "input_attributes fl (InputLog r) =
     (case r of None \<Rightarrow> fmempty | Some r \<Rightarrow> attributeMap fl (lr_Attributes r))"
| "input_attributes fl (InputSpan sp) =
     (case sp of None \<Rightarrow> fmempty | Some sp \<Rightarrow> attributeMap fl (sp_Attributes sp))"

text \<open>The messages that were normalized to one of the signals in \<open>S\<close>.\<close>

definition messages_of :: "float_lib \<Rightarrow> input list \<Rightarrow> execution set \<Rightarrow> input set" where
  "messages_of fl ms S = {i \<in> set ms. \<exists>sig \<in> S. fst (normalized fl i) = Some sig}"

lemma message_signal:
  assumes "fst (normalized fl i) = Some ex"
  shows "signal_of fl (input_attributes fl i) ex"
proof (cases i)
  case (InputLog r)
  with assms show ?thesis by (cases r) (auto simp: signal_of_def FromLogRecord_def)
next
  case (InputSpan sp)
  with assms show ?thesis by (cases sp) (auto simp: signal_of_def FromSpan_def)
qed

lemma received_messages:
  "run_messages fl sink wait s0 s h ms \<Longrightarrow> es \<in># received s \<Longrightarrow> \<exists>i \<in> set ms. normalized fl i = es"
proof (induction arbitrary: es rule: run_messages.induct)
  case start
  then show ?case by (simp add: init_sys_def)
next
  case (message s h ms t i)
  show ?case
  proof (cases "es = normalized fl i")
    case False
    then have "es \<in># received s" using message.prems message.hyps(2) by simp
    from message.IH [OF this] show ?thesis by auto
  qed simp
next
  case (other s h ms t)
  then show ?case by (blast dest: mset_subset_eqD)
qed

lemma observe_taken: "ex \<in> taken (observe s t h) k \<Longrightarrow>
    ex \<in> taken h k \<or> (\<exists>sg. (Some ex, sg) \<in># received s)"
  by (auto simp: observe_def taken_by_def dest: in_diffD)

lemma taken_messages:
  "run_messages fl sink wait s0 s h ms \<Longrightarrow> ex \<in> taken h k \<Longrightarrow>
     \<exists>i \<in> set ms. fst (normalized fl i) = Some ex"
proof (induction arbitrary: ex k rule: run_messages.induct)
  case start
  then show ?case by (simp add: no_history_def)
next
  case (message s h ms t i)
  from observe_taken [OF message.prems] show ?case
    using message.IH received_messages [OF message.hyps(1)] by fastforce
next
  case (other s h ms t)
  from observe_taken [OF other.prems] show ?case
    using other.IH received_messages [OF other.hyps(1)] by fastforce
qed

lemma claimed_messages:
  assumes "run_messages fl sink wait s0 s h ms" and "sig \<in> claimed_under h a"
  shows "\<exists>i \<in> messages_of fl ms (claimed_under h a). fst (normalized fl i) = Some sig"
proof -
  obtain k where "sig \<in> taken h k"
    using assms(2) history_invD(6) [OF run_history_inv [OF run_messages_history [OF assms(1)]]]
    by (auto simp: claimed_under_def)
  from taken_messages [OF assms(1) this] assms(2) show ?thesis by (auto simp: messages_of_def)
qed

lemma messages_attribution:
  assumes "finite S" and "S \<noteq> {}" and "S \<subseteq> {sig. \<exists>i \<in> messages_of fl ms S. fst (normalized fl i) = Some sig}"
  shows "Sup_fin (exec_attribution ` S) =
    attribution_of (\<Union>i \<in> messages_of fl ms S. ids_of (input_attributes fl i))"
proof -
  let ?M = "messages_of fl ms S" and ?f = "\<lambda>i. attribution_of (ids_of (input_attributes fl i))"
  have f: "?f i = exec_attribution sig" if "fst (normalized fl i) = Some sig" for i sig
    using signal_fields(1) [OF message_signal [OF that]] by simp
  have "exec_attribution ` S = ?f ` ?M"
  proof
    show "exec_attribution ` S \<subseteq> ?f ` ?M"
    proof
      fix x assume "x \<in> exec_attribution ` S"
      then obtain sig where "sig \<in> S" "x = exec_attribution sig" by blast
      with assms(3) obtain i where "i \<in> ?M" "fst (normalized fl i) = Some sig" by blast
      then have "x = ?f i" using f \<open>x = _\<close> by simp
      then show "x \<in> ?f ` ?M" using \<open>i \<in> ?M\<close> by (rule image_eqI)
    qed
    show "?f ` ?M \<subseteq> exec_attribution ` S" using f by (auto simp: messages_of_def)
  qed
  moreover have "finite ?M" by (simp add: messages_of_def)
  moreover have "?M \<noteq> {}" using assms(2,3) by blast
  ultimately show ?thesis using Sup_attribution_of [of ?M "\<lambda>i. ids_of (input_attributes fl i)"] by simp
qed

section \<open>The property\<close>

text \<open>
  C4. No attribution is invented and none is kept against an objection. Take the messages that
  were received and normalized to one of the signals a written record was built from; each of
  these signals comes from such a message. The record is correlated with an operation id exactly
  when that id is well formed and is the only one among all the ids that the attributes of these
  messages carry; it is unattributed exactly when they carry none, and otherwise ambiguous. It
  names the tool that one of the messages names.
\<close>

theorem attribution_from_received_attributes:
  assumes "run_messages fl sink wait s0 s h ms" and "a \<in> set (written s)"
  shows "(\<forall>sig \<in> claimed_under h a.
      \<exists>i \<in> messages_of fl ms (claimed_under h a). fst (normalized fl i) = Some sig)
    \<and> exec_attribution (a_ex a) =
      attribution_of (\<Union>i \<in> messages_of fl ms (claimed_under h a). ids_of (input_attributes fl i))
    \<and> (\<exists>i \<in> messages_of fl ms (claimed_under h a).
      Tool (a_ex a) = attr (input_attributes fl i) ''gen_ai.tool.name'')"
proof -
  let ?S = "claimed_under h a"
  note hist = run_messages_history [OF assms(1)]
  have b: "built ?S (a_ex a)" using history_invD(2) [OF run_history_inv [OF hist]] assms(2) by blast
  have m: "\<exists>i \<in> messages_of fl ms ?S. fst (normalized fl i) = Some sig" if "sig \<in> ?S" for sig
    by (rule claimed_messages [OF assms(1) that])
  have "\<forall>sig \<in> ?S. corr_ok sig" using claimed_signals(1) [OF hist] by (blast intro: corr_ok_wf signal_wf)
  from built_attribution [OF b this] messages_attribution [of ?S fl ms] m built_nonempty [OF b]
  have "exec_attribution (a_ex a) =
      attribution_of (\<Union>i \<in> messages_of fl ms ?S. ids_of (input_attributes fl i))" by auto
  moreover obtain sig where sig: "sig \<in> ?S" "Tool (a_ex a) = Tool sig" using built_tool [OF b] ..
  moreover obtain i where i: "i \<in> messages_of fl ms ?S" "fst (normalized fl i) = Some sig"
    using m [OF sig(1)] by blast
  moreover have "Tool sig = attr (input_attributes fl i) ''gen_ai.tool.name''"
    by (rule signal_fields(2) [OF message_signal [OF i(2)]])
  ultimately show ?thesis using m by auto
qed

theorem attribution_from_received_attributes_witness:
  "\<exists>s h ms a. demo_sys s \<and> run_messages plain_floats (Some recordingSink) 0 [] s h ms \<and>
     a \<in> set (written s) \<and> messages_of plain_floats ms (claimed_under h a) \<noteq> {} \<and>
     exec_attribution (a_ex a) = attribution_of
       (\<Union>i \<in> messages_of plain_floats ms (claimed_under h a). ids_of (input_attributes plain_floats i))"
proof -
  obtain s h where s: "demo_sys s" "run_history plain_floats (Some recordingSink) 0 [] s h"
    using demo_history by blast
  obtain ms where ms: "run_messages plain_floats (Some recordingSink) 0 [] s h ms"
    using run_history_messages [OF s(2)] ..
  obtain a where "a \<in> set (written s)" using s(1) demo_written [of s] by (cases "written s") auto
  then show ?thesis using s ms attribution_from_received_attributes [OF ms] by blast
qed

end
