(* ===== verification/Conservation.thy ===== *)
theory Conservation
  imports Delivery
begin

text \<open>
  Every signal is in exactly one place. The steps of \<open>Interleaving\<close> are accompanied by a tally
  the program does not keep: how many signals have been merged into the buffers under each key.
  In every reachable state the signals received are those that were ignored, had no key, came
  too late, are pending, are still being normalized, or are part of the tally of a key that is
  buffered or emitted.
\<close>

section \<open>The tally\<close>

text \<open>
  A step merges a signal when it takes it out of \<open>received\<close> under a key that is neither emitted
  nor in flight; giving a failed batch back merges what was pending.
\<close>

definition merged_now :: "'s sys \<Rightarrow> 's sys \<Rightarrow> string \<Rightarrow> nat" where
  "merged_now s t k =
     (if k = [] \<or> k \<in> emitted (proc s) \<or> k \<in> inFlight (proc s) then 0
      else size {#es \<in># received s - received t. map_option record_key (fst es) = Some k#})"

definition given_back :: "'s sys \<Rightarrow> 's sys \<Rightarrow> string \<Rightarrow> nat" where
  "given_back s t k =
     (case phase s of
        Restoring _ \<Rightarrow> if phase t = Idle then pending_count k (proc s) else 0
      | _ \<Rightarrow> 0)"

definition tally :: "'s sys \<Rightarrow> 's sys \<Rightarrow> (string \<Rightarrow> nat) \<Rightarrow> string \<Rightarrow> nat" where
  "tally s t m k = m k + merged_now s t k + given_back s t k"

inductive tally_run ::
  "float_lib \<Rightarrow> ('s, 'e) sink_write option \<Rightarrow> int \<Rightarrow> 's \<Rightarrow> 's sys \<Rightarrow> (string \<Rightarrow> nat) \<Rightarrow> bool"
  for fl sink wait s0 where
  start: "tally_run fl sink wait s0 (init_sys wait s0) (\<lambda>_. 0)"
| more: "tally_run fl sink wait s0 s m \<Longrightarrow> step fl sink s t \<Longrightarrow>
    tally_run fl sink wait s0 t (tally s t m)"

lemma tally_run_reachable: "tally_run fl sink wait s0 s m \<Longrightarrow> reachable fl sink wait s0 s"
  by (induction rule: tally_run.induct) (auto intro: reachable.intros)

lemma reachable_tally_run: "reachable fl sink wait s0 s \<Longrightarrow> \<exists>m. tally_run fl sink wait s0 s m"
  by (induction rule: reachable.induct) (blast intro: tally_run.intros)+

section \<open>What a step does to the tally\<close>

text \<open>The signals whose fate is decided, and those that are pending.\<close>

definition decided :: "processor \<Rightarrow> nat" where
  "decided p =
     ToolCallsIgnored (stats p) + UnjoinableNoSpan (stats p) + LateSignalsIgnored (stats p)
       + fmsum (pendingSignals p)"

definition tallied :: "processor \<Rightarrow> nat \<Rightarrow> (string \<Rightarrow> nat) \<Rightarrow> bool" where
  "tallied p n m \<longleftrightarrow>
     seen p = decided p + (\<Sum>k \<in> known p. m k) + n \<and> (\<forall>k. 0 < m k \<longleftrightarrow> k \<in> known p)"

lemma tallied_frame:
  assumes "tallied p n m" and "seen q = seen p" and "decided q = decided p" and "known q = known p"
  shows "tallied q n m"
  using assms by (simp add: tallied_def)

lemma decided_ack_key: "decided (ack_key k p) = decided p"
  using fmsum_split [of "pendingSignals p" k] by (simp add: decided_def pending_count_fmget)

lemma decided_acknowledge: "decided (acknowledge a p) = decided p"
proof -
  have "decided (fold ack_key ks q) = decided q" for ks q
    by (induction ks arbitrary: q) (simp_all add: decided_ack_key)
  then show ?thesis by (simp add: acknowledge_def decided_def)
qed

lemma tallied_buffer:
  assumes "proc_inv p" and "finite (emitted p)" and "tallied p (Suc n) m"
    and "\<And>k. m' k = m k + (if k = record_key ex \<and> k \<noteq> [] \<and> k \<notin> emitted p \<and> k \<notin> inFlight p then 1 else 0)"
  shows "tallied (buffer now ex signal p) n m'"
proof -
  let ?key = "record_key ex" and ?q = "buffer now ex signal p"
  have fin: "finite (known p)" using assms(2) by (simp add: known_def)
  have pend: "hasPending ?key p \<Longrightarrow> ?key \<in> inFlight p" "?key \<in> inFlight p \<Longrightarrow> ?key \<in> known p"
    using proc_invD(4,5) [OF assms(1)] by (auto simp: hasPending_iff known_def)
  have sn: "seen ?q = seen p" by (rule settled_buffer [OF assms(1)])
  have up: "fmsum (fmupd ?key (pending_count ?key p + 1) (pendingSignals p)) =
      fmsum (pendingSignals p) + 1"
    using fmsum_split [of "pendingSignals p" ?key] by (simp add: fmsum_upd pending_count_fmget)
  show ?thesis
  proof (cases "?key = [] \<or> ?key \<in> emitted p \<or> ?key \<in> inFlight p")
    case True
    then have "m' = m" by (auto simp: assms(4) fun_eq_iff)
    moreover have "decided ?q = decided p + 1 \<and> known ?q = known p"
      using True pend(2) up
      by (auto simp: buffer_def Let_def record_key_def [symmetric] decided_def known_def)
    ultimately show ?thesis using assms(3) sn by (simp add: tallied_def)
  next
    case False
    then have m': "m' = m(?key := Suc (m ?key))" by (auto simp: assms(4) fun_eq_iff)
    have q: "decided ?q = decided p" "known ?q = insert ?key (known p)"
      using False pend(1)
      by (auto simp: buffer_def Let_def record_key_def [symmetric] decided_def known_def)
    have "(\<Sum>k \<in> insert ?key (known p). m' k) = Suc (\<Sum>k \<in> known p. m k)"
    proof (cases "?key \<in> known p")
      case True
      then show ?thesis
        using sum.remove [OF fin True, of m'] sum.remove [OF fin True, of m]
        by (simp add: m' insert_absorb)
    next
      case False
      then have "m ?key = 0" using assms(3) by (auto simp: tallied_def)
      with False fin show ?thesis
        by (simp add: m') (rule sum.cong, auto)
    qed
    then show ?thesis using assms(3) sn q by (auto simp: tallied_def m')
  qed
qed

lemma sum_pending:
  assumes "proc_inv p" and "finite (known p)"
  shows "(\<Sum>k \<in> known p. pending_count k p) = fmsum (pendingSignals p)"
proof -
  have "fmdom' (pendingSignals p) \<subseteq> known p"
    using proc_invD(4,5,7) [OF assms(1)] by (auto simp: known_def)
  then have "(\<Sum>k \<in> fmdom' (pendingSignals p). pending_count k p) = (\<Sum>k \<in> known p. pending_count k p)"
    by (rule sum.mono_neutral_left [OF assms(2)])
      (auto simp: pending_count_def in_fmdom'_iff)
  moreover have "(\<Sum>k \<in> fmdom' (pendingSignals p). pending_count k p) = fmsum (pendingSignals p)"
    unfolding fmsum_def by (rule sum.cong) (auto simp: pending_count_def in_fmdom'_iff)
  ultimately show ?thesis by simp
qed

lemma tallied_restore:
  assumes "proc_inv p" and "batch_inv p out" and "finite (emitted p)" and "tallied p n m"
  shows "tallied (restoreReserved out p) n (\<lambda>k. m k + pending_count k p)"
proof -
  note r = restoreReserved_fields [OF assms(1), of out]
  let ?q = "restoreReserved out p"
  have kn: "known ?q = known p" by (simp add: known_def r(3,4))
  have fin: "finite (known p)" using assms(3) by (simp add: known_def)
  have "inFlight ?q = {}" by (rule batch_inv_restore [OF assms(1,2)])
  then have "fmdom' (pendingSignals ?q) = {}" using proc_invD(4,7) [OF r(1)] by auto
  then have "decided ?q + fmsum (pendingSignals p) = decided p"
    by (simp add: decided_def r(5) fmsum_def)
  moreover have "k \<in> known p" if "0 < pending_count k p" for k
  proof -
    have "k \<in> fmdom' (pendingSignals p)"
      using that by (auto simp: pending_count_def in_fmdom'_iff split: option.splits)
    then show ?thesis using proc_invD(4,5,7) [OF assms(1)] unfolding known_def by blast
  qed
  moreover have "seen ?q = seen p" by (simp add: seen_def r(5))
  ultimately show ?thesis
    using assms(4) sum_pending [OF assms(1) fin]
    by (auto simp: tallied_def kn sum.distrib)
qed

section \<open>Every step keeps the tally true\<close>

definition tally_inv :: "'s sys \<Rightarrow> (string \<Rightarrow> nat) \<Rightarrow> bool" where
  "tally_inv s m \<longleftrightarrow> tallied (proc s) (size (received s)) m"

lemma tally_quiet:
  assumes "received s \<subseteq># received t" and "\<And>out. phase s = Restoring out \<Longrightarrow> phase t \<noteq> Idle"
  shows "tally s t m = m"
proof -
  have "received s - received t = {#}" using assms(1) by (simp add: Diff_eq_empty_iff_mset)
  then have "merged_now s t k = 0" for k by (simp add: merged_now_def)
  moreover have "given_back s t k = 0" for k
    using assms(2) by (auto simp: given_back_def split: phase.split)
  ultimately show ?thesis by (simp add: tally_def fun_eq_iff)
qed

lemma tally_frame:
  assumes "tally_inv s m" and "received s = received t"
    and "\<And>out. phase s = Restoring out \<Longrightarrow> phase t \<noteq> Idle"
    and "seen (proc t) = seen (proc s)" and "decided (proc t) = decided (proc s)"
    and "known (proc t) = known (proc s)"
  shows "tally_inv t (tally s t m)"
proof -
  have "tally s t m = m" using assms(2,3) by (intro tally_quiet) simp_all
  then show ?thesis
    using assms(1) tallied_frame [OF _ assms(4-6)] by (simp add: tally_inv_def assms(2))
qed

lemma tally_process:
  assumes "tally_inv s m" and "sys_inv s" and "es \<in># received s"
    and t: "t = s\<lparr>proc := take_signal now es (proc s), received := received s - {#es#}\<rparr>"
  shows "tally_inv t (tally s t m)"
proof -
  note inv = sys_invD [OF assms(2)]
  have fin: "finite (emitted (proc s))" using inv(4) by (simp add: count_inv_def)
  obtain M where M: "received s = M + {#es#}" using multi_member_split [OF assms(3)] by auto
  then have r: "received s - received t = {#es#}" "received t = M" by (simp_all add: t)
  have mn: "merged_now s t k = (if k = [] \<or> k \<in> emitted (proc s) \<or> k \<in> inFlight (proc s) then 0
      else if map_option record_key (fst es) = Some k then 1 else 0)" for k
    unfolding merged_now_def r(1) by auto
  have g: "given_back s t k = 0" for k by (simp add: given_back_def t split: phase.split)
  have i: "tallied (proc s) (Suc (size M)) m" using assms(1) M by (simp add: tally_inv_def)
  show ?thesis
  proof (cases "fst es")
    case None
    then have "tally s t m = m" by (simp add: tally_def mn g fun_eq_iff)
    moreover have "take_signal now es (proc s) = count_stat call_ignored (proc s)"
      using None by (cases es) (simp add: take_signal_def)
    ultimately show ?thesis
      using i by (simp add: tally_inv_def r(2)) (simp add: t tallied_def seen_def decided_def call_ignored_def)
  next
    case (Some ex)
    then have "take_signal now es (proc s) = buffer now ex (snd es) (proc s)"
      by (cases es) (simp add: take_signal_def)
    moreover have "tallied (buffer now ex (snd es) (proc s)) (size M) (tally s t m)"
      by (rule tallied_buffer [OF inv(1) fin i]) (auto simp: tally_def mn g Some)
    moreover have "proc t = take_signal now es (proc s)" by (simp add: t)
    ultimately show ?thesis by (simp add: tally_inv_def r(2))
  qed
qed

lemma step_tally:
  assumes "step fl sink s t" and "sys_inv s" and "tally_inv s m"
  shows "tally_inv t (tally s t m)"
proof -
  note frame = tally_frame [OF assms(3), of t]
  note inv = sys_invD [OF assms(2)]
  from assms(1) show ?thesis
  proof (cases rule: step.cases)
    case (set_observer i v)
    then show ?thesis
      by (intro frame) (simp_all add: decided_def known_def SetObserver_def seen_def)
  next
    case (receive_log r)
    have "tally s t m = m" by (rule tally_quiet) (simp_all add: receive_log)
    then show ?thesis
      using assms(3) by (simp add: receive_log tally_inv_def tallied_def decided_def log_seen_def seen_def)
  next
    case (receive_span sp)
    have "tally s t m = m" by (rule tally_quiet) (simp_all add: receive_span)
    then show ?thesis
      using assms(3) by (simp add: receive_span tally_inv_def tallied_def decided_def span_seen_def seen_def)
  next
    case (process es now)
    then show ?thesis by (intro tally_process [OF assms(3,2)])
  next
    case (begin_assembly rng cutoff out p')
    then show ?thesis
      by (intro frame) (auto simp: claim_snapshot decided_def known_def seen_def)
  next
    case (ack a out)
    have "consumed (remaining (phase s)) \<subseteq> known (proc s)"
      using inv(2) proc_invD(5) [OF inv(1)] unfolding batch_inv_def known_def
      by (auto simp: consumed_def)
    then have "known (acknowledge a (proc s)) = known (proc s)"
      using ack(2) by (auto simp: known_def)
    then show ?thesis
      using ack by (intro frame) (simp_all add: decided_acknowledge acknowledge_stats(2))
  next
    case (count_failure a out)
    then show ?thesis
      by (intro frame) (simp_all add: decided_def known_def seen_def write_failed_def)
  next
    case (restore out)
    have "tally s t m = (\<lambda>k. m k + pending_count k (proc s))"
      by (auto simp: tally_def merged_now_def given_back_def restore fun_eq_iff)
    moreover have "batch_inv (proc s) out" using inv(2) restore(2) by simp
    moreover have "finite (emitted (proc s))" using inv(4) by (simp add: count_inv_def)
    ultimately show ?thesis
      using tallied_restore [OF inv(1) _ _ assms(3) [unfolded tally_inv_def]]
      by (simp add: tally_inv_def restore)
  qed (rule frame; simp)+
qed

lemma tally_run_inv: "tally_run fl sink wait s0 s m \<Longrightarrow> tally_inv s m"
proof (induction rule: tally_run.induct)
  case start
  show ?case
    by (simp add: tally_inv_def tallied_def init_sys_def decided_def seen_def known_def fmsum_def
        zero_stats_def)
next
  case (more s m t)
  then show ?case by (intro step_tally reachable_inv [OF tally_run_reachable])
qed

section \<open>Properties\<close>

text \<open>
  C12. Signals are conserved. At any moment of any interleaving every signal received so far is
  in exactly one place: it was no tool call, it had no key, it came too late, it is pending
  behind a write, it is still being normalized, or it was merged into a record that is
  buffered or written; and every key that is buffered or emitted has such a signal.
\<close>

theorem signals_conserved:
  assumes "tally_run fl sink wait s0 s m"
  shows "LogRecordsSeen (stats (proc s)) + SpansSeen (stats (proc s)) =
      ToolCallsIgnored (stats (proc s)) + UnjoinableNoSpan (stats (proc s))
        + LateSignalsIgnored (stats (proc s)) + fmsum (pendingSignals (proc s)) + size (received s)
        + (\<Sum>k \<in> fmdom' (firstSeen (proc s)). m k) + (\<Sum>k \<in> emitted (proc s). m k)
    \<and> (\<forall>k. 0 < m k \<longleftrightarrow> k \<in> emitted (proc s) \<or> k \<in> fmdom' (firstSeen (proc s)))"
proof -
  note inv = reachable_inv [OF tally_run_reachable [OF assms]]
  have "finite (emitted (proc s))" using sys_invD(4) [OF inv] by (simp add: count_inv_def)
  moreover have "emitted (proc s) \<inter> fmdom' (firstSeen (proc s)) = {}"
    by (rule proc_invD(6) [OF sys_invD(1) [OF inv]])
  ultimately have "(\<Sum>k \<in> known (proc s). m k) =
      (\<Sum>k \<in> emitted (proc s). m k) + (\<Sum>k \<in> fmdom' (firstSeen (proc s)). m k)"
    unfolding known_def by (intro sum.union_disjoint) simp_all
  then show ?thesis
    using tally_run_inv [OF assms]
    by (auto simp: tally_inv_def tallied_def decided_def seen_def known_def)
qed

theorem signals_conserved_witness:
  "\<exists>s m. demo_sys s \<and>
     LogRecordsSeen (stats (proc s)) + SpansSeen (stats (proc s)) =
       ToolCallsIgnored (stats (proc s)) + UnjoinableNoSpan (stats (proc s))
         + LateSignalsIgnored (stats (proc s)) + fmsum (pendingSignals (proc s)) + size (received s)
         + (\<Sum>k \<in> emitted (proc s). m k)"
proof -
  obtain s where s: "demo_sys s" using demo_sys_exists ..
  then have "reachable plain_floats (Some recordingSink) 0 [] s" by (simp add: demo_sys_def)
  from reachable_tally_run [OF this] obtain m where
    m: "tally_run plain_floats (Some recordingSink) 0 [] s m" ..
  have "firstSeen (proc s) = fmempty" using s demo_end_eval by (simp add: demo_sys_def)
  with signals_conserved [OF m] s show ?thesis by auto
qed

end
