(* ===== verification/JsonReadBack.thy ===== *)
theory JsonReadBack
  imports JsonRoundtrip
begin

text \<open>
  A record that was written is read back: \<open>Unmarshal\<close> of the text of \<open>Marshal\<close> gives the record
  with every field as it was, up to malformed UTF-8 in strings.
\<close>

section \<open>The record as it is read\<close>

definition source_utf8 :: "source \<Rightarrow> source" where
  "source_utf8 s =
     \<lparr>ObserverType = to_utf8 (ObserverType s), ObserverID = to_utf8 (ObserverID s),
      ObserverVersion = to_utf8 (ObserverVersion s), Transport = to_utf8 (Transport s),
      ServiceName = to_utf8 (ServiceName s), ProtocolVersion = to_utf8 (ProtocolVersion s),
      NetworkTransport = to_utf8 (NetworkTransport s), SessionID = to_utf8 (SessionID s)\<rparr>"

definition slice_utf8 :: "string list \<Rightarrow> slice" where
  "slice_utf8 ss = \<lparr>elems = map to_utf8 ss, spare = []\<rparr>"

definition wire_of :: "(string \<Rightarrow> string) \<Rightarrow> execution \<Rightarrow> wire" where
  "wire_of quote ex =
     \<lparr>w_TraceID = to_utf8 (TraceID ex), w_SpanID = to_utf8 (SpanID ex),
      w_ParentSpanID = to_utf8 (ParentSpanID ex), w_SpanKind = to_utf8 (SpanKind ex),
      w_OperationID = to_utf8 (OperationID ex),
      w_Correlation = correlation_text (Correlation ex),
      w_CorrelationDetail = to_utf8 (CorrelationDetail ex),
      w_Target = to_utf8 (Target ex), w_Tool = to_utf8 (Tool ex),
      w_StartedAt = StartedAt ex, w_FinishedAt = FinishedAt ex, w_DurationMS = DurationMS ex,
      w_Status = status_text (Status ex),
      w_ErrorType = to_utf8 (ErrorType ex), w_ErrorCode = to_utf8 (ErrorCode ex),
      w_ArgumentsFingerprint = to_utf8 (ArgumentsFingerprint ex),
      w_ArgumentsFingerprintStatus = availability_text (ArgumentsFingerprintStatus ex),
      w_ResultFingerprint = to_utf8 (ResultFingerprint ex),
      w_ResultFingerprintStatus = availability_text (ResultFingerprintStatus ex),
      w_ReadOnlyDeclared = ReadOnlyDeclared ex,
      w_ReadOnlyAnnotationKnown = ReadOnlyAnnotationKnown ex,
      w_AnnotationsVerified = AnnotationsVerified ex,
      w_Source = source_utf8 (Source ex), w_SeenFrom = slice_utf8 (SeenFrom ex),
      w_Disagreements = slice_utf8 (map (disagreement_text quote) (Disagreements ex))\<rparr>"

section \<open>The tree can be printed\<close>

definition plain_byte :: "char \<Rightarrow> bool" where
  "plain_byte c \<longleftrightarrow> 32 \<le> byte c \<and> c \<noteq> dquote \<and> c \<noteq> backslash"

lemma plain_literal: "list_all plain_byte s \<Longrightarrow> good_literal s"
  by (induction s) (auto simp: good_literal_def plain_byte_def)

lemma plain_digit: "is_digit c \<Longrightarrow> plain_byte c"
  by (auto simp: is_digit_def in_range_def plain_byte_def byte_consts)

lemma plain_pad [simp]: "list_all plain_byte (pad w i)"
proof -
  have "is_digit (CHR ''0'')" by code_simp
  then have "list_all is_digit (pad w i)"
    using decimal_nat_digits [of "nat i"] by (auto simp: pad_def Let_def list_all_iff)
  then show ?thesis by (auto simp: list_all_iff plain_digit)
qed

lemma plain_marks:
  "plain_byte (CHR ''-'')" "plain_byte (CHR '':'')" "plain_byte (CHR ''T'')" "plain_byte (CHR ''Z'')"
  "plain_byte (CHR ''.'')"
  by code_simp+

lemma plain_fraction: "list_all plain_byte (fraction i)"
  using plain_pad [of 9 i]
  by (auto simp: fraction_def strip_zeros_def list_all_iff plain_marks dest: set_dropWhileD)

lemma plain_rfc3339: "list_all plain_byte (rfc3339 ns)"
  by (simp add: rfc3339_def Let_def case_prod_unfold plain_marks plain_fraction)

lemma time_literal: "good_literal (time_text t)"
proof -
  have "list_all plain_byte ''0001-01-01T00:00:00Z''" by code_simp
  then show ?thesis
    using plain_rfc3339 by (auto simp: time_text_def intro!: plain_literal split: option.split)
qed

abbreviation printable_all :: "nat \<Rightarrow> (string \<times> json) list \<Rightarrow> bool" where
  "printable_all d kvs \<equiv> (\<forall>(k, v) \<in> set kvs. printable_tree d v)"

lemma printable_opt [simp]:
  "printable_all d (opt_tree k s)" "d < 10000 \<Longrightarrow> printable_all d (opt_list_tree k ss)"
  by (simp_all add: opt_tree_def opt_list_tree_def)

lemma printable_source: "printable_all d (source_tree src)"
  unfolding source_tree_def set_append ball_Un by simp

lemma printable_execution:
  "printable_tree 0 (obj_tree (execution_tree quote ex (time_text t) (time_text u)))"
proof -
  have "printable_all 1 (execution_tree quote ex (time_text t) (time_text u))"
    unfolding execution_tree_def set_append ball_Un
    by (simp add: time_literal num_chars_decimal printable_obj printable_source)
  then show ?thesis by (simp add: printable_obj)
qed

section \<open>Decoding the tree\<close>

lemma exec_lookups [simp]:
  "lookup_field exec_tags (json_escape ''trace_id'') = Some FTraceID"
  "lookup_field exec_tags (json_escape ''span_id'') = Some FSpanID"
  "lookup_field exec_tags (json_escape ''parent_span_id'') = Some FParentSpanID"
  "lookup_field exec_tags (json_escape ''span_kind'') = Some FSpanKind"
  "lookup_field exec_tags (json_escape ''operation_id'') = Some FOperationID"
  "lookup_field exec_tags (json_escape ''correlation'') = Some FCorrelation"
  "lookup_field exec_tags (json_escape ''correlation_detail'') = Some FCorrelationDetail"
  "lookup_field exec_tags (json_escape ''target'') = Some FTarget"
  "lookup_field exec_tags (json_escape ''tool'') = Some FTool"
  "lookup_field exec_tags (json_escape ''started_at'') = Some FStartedAt"
  "lookup_field exec_tags (json_escape ''finished_at'') = Some FFinishedAt"
  "lookup_field exec_tags (json_escape ''duration_ms'') = Some FDurationMS"
  "lookup_field exec_tags (json_escape ''status'') = Some FStatus"
  "lookup_field exec_tags (json_escape ''error_type'') = Some FErrorType"
  "lookup_field exec_tags (json_escape ''error_code'') = Some FErrorCode"
  "lookup_field exec_tags (json_escape ''arguments_fingerprint'') = Some FArgumentsFingerprint"
  "lookup_field exec_tags (json_escape ''arguments_fingerprint_status'') =
     Some FArgumentsFingerprintStatus"
  "lookup_field exec_tags (json_escape ''result_fingerprint'') = Some FResultFingerprint"
  "lookup_field exec_tags (json_escape ''result_fingerprint_status'') =
     Some FResultFingerprintStatus"
  "lookup_field exec_tags (json_escape ''read_only_declared'') = Some FReadOnlyDeclared"
  "lookup_field exec_tags (json_escape ''read_only_annotation_known'') =
     Some FReadOnlyAnnotationKnown"
  "lookup_field exec_tags (json_escape ''annotations_verified'') = Some FAnnotationsVerified"
  "lookup_field exec_tags (json_escape ''source'') = Some FSource"
  "lookup_field exec_tags (json_escape ''seen_from'') = Some FSeenFrom"
  "lookup_field exec_tags (json_escape ''disagreements'') = Some FDisagreements"
  by code_simp+

lemma source_lookups [simp]:
  "lookup_field source_tags (json_escape ''observer_type'') = Some FObserverType"
  "lookup_field source_tags (json_escape ''observer_id'') = Some FObserverID"
  "lookup_field source_tags (json_escape ''observer_version'') = Some FObserverVersion"
  "lookup_field source_tags (json_escape ''transport'') = Some FTransport"
  "lookup_field source_tags (json_escape ''service_name'') = Some FServiceName"
  "lookup_field source_tags (json_escape ''protocol_version'') = Some FProtocolVersion"
  "lookup_field source_tags (json_escape ''network_transport'') = Some FNetworkTransport"
  "lookup_field source_tags (json_escape ''session_id_diagnostic'') = Some FSessionID"
  by code_simp+

text \<open>One member, by its plain name.\<close>

definition put ::
  "(string \<times> 'f) list \<Rightarrow> ('f \<Rightarrow> json \<Rightarrow> 'r \<Rightarrow> 'r option) \<Rightarrow> string \<Rightarrow> json \<Rightarrow> 'r \<Rightarrow> 'r option" where
  "put fs set_field k v r =
     (case lookup_field fs (json_escape k) of None \<Rightarrow> Some r | Some f \<Rightarrow> set_field f v r)"

fun puts ::
  "(string \<times> 'f) list \<Rightarrow> ('f \<Rightarrow> json \<Rightarrow> 'r \<Rightarrow> 'r option) \<Rightarrow> (string \<times> json) list \<Rightarrow> 'r \<Rightarrow> 'r option" where
  "puts fs set_field [] r = Some r"
| "puts fs set_field ((k, v) # kvs) r =
     (case put fs set_field k v r of None \<Rightarrow> None | Some r \<Rightarrow> puts fs set_field kvs r)"

lemma decode_puts:
  "decode_members fs set_field (map (\<lambda>(k, v). (json_escape k, v)) kvs) r = puts fs set_field kvs r"
  by (induction fs set_field kvs r rule: puts.induct)
    (simp_all add: put_def split: option.split)

lemma puts_append:
  "puts fs set_field (xs @ ys) r =
     (case puts fs set_field xs r of None \<Rightarrow> None | Some r \<Rightarrow> puts fs set_field ys r)"
  by (induction fs set_field xs r rule: puts.induct) (simp_all split: option.split)

text \<open>A field that is left out when empty keeps its value; otherwise it is overwritten.\<close>

definition over :: "string \<Rightarrow> string \<Rightarrow> string" where
  "over s old = (if s = [] then old else to_utf8 s)"

lemma over_Nil [simp]: "over s [] = to_utf8 s"
  by (simp add: over_def)

lemma into_str_tree [simp]: "into_string (str_tree s) old = Some (to_utf8 s)"
  by (simp add: str_tree_def unquote_escape)

lemma puts_source_opt:
  "puts source_tags set_source_field (opt_tree ''observer_id'' x) s
     = Some (s\<lparr>ObserverID := over x (ObserverID s)\<rparr>)"
  "puts source_tags set_source_field (opt_tree ''observer_version'' x) s
     = Some (s\<lparr>ObserverVersion := over x (ObserverVersion s)\<rparr>)"
  "puts source_tags set_source_field (opt_tree ''service_name'' x) s
     = Some (s\<lparr>ServiceName := over x (ServiceName s)\<rparr>)"
  "puts source_tags set_source_field (opt_tree ''protocol_version'' x) s
     = Some (s\<lparr>ProtocolVersion := over x (ProtocolVersion s)\<rparr>)"
  "puts source_tags set_source_field (opt_tree ''network_transport'' x) s
     = Some (s\<lparr>NetworkTransport := over x (NetworkTransport s)\<rparr>)"
  "puts source_tags set_source_field (opt_tree ''session_id_diagnostic'' x) s
     = Some (s\<lparr>SessionID := over x (SessionID s)\<rparr>)"
  by (simp_all add: opt_tree_def over_def put_def del: json_escape.simps)

lemma into_source_tree: "into_source (obj_tree (source_tree src)) zero_source = Some (source_utf8 src)"
proof -
  have "puts source_tags set_source_field (source_tree src) zero_source = Some (source_utf8 src)"
    unfolding source_tree_def
    by (simp add: puts_append puts_source_opt put_def zero_source_def source_utf8_def
        del: json_escape.simps)
  then show ?thesis by (simp add: obj_tree_def decode_puts)
qed

lemma into_elems_trees: "into_elems (map str_tree ss) old = Some (map to_utf8 ss)"
  by (induction ss arbitrary: old) simp_all

lemma into_slice_trees: "into_slice (JArr (map str_tree ss)) nil_slice = Some (slice_utf8 ss)"
  by (simp add: into_elems_trees nil_slice_def slice_utf8_def)

lemma puts_exec_opt:
  "puts exec_tags set_exec_field (opt_tree ''trace_id'' x) w
     = Some (w\<lparr>w_TraceID := over x (w_TraceID w)\<rparr>)"
  "puts exec_tags set_exec_field (opt_tree ''span_id'' x) w
     = Some (w\<lparr>w_SpanID := over x (w_SpanID w)\<rparr>)"
  "puts exec_tags set_exec_field (opt_tree ''parent_span_id'' x) w
     = Some (w\<lparr>w_ParentSpanID := over x (w_ParentSpanID w)\<rparr>)"
  "puts exec_tags set_exec_field (opt_tree ''span_kind'' x) w
     = Some (w\<lparr>w_SpanKind := over x (w_SpanKind w)\<rparr>)"
  "puts exec_tags set_exec_field (opt_tree ''operation_id'' x) w
     = Some (w\<lparr>w_OperationID := over x (w_OperationID w)\<rparr>)"
  "puts exec_tags set_exec_field (opt_tree ''correlation_detail'' x) w
     = Some (w\<lparr>w_CorrelationDetail := over x (w_CorrelationDetail w)\<rparr>)"
  "puts exec_tags set_exec_field (opt_tree ''target'' x) w
     = Some (w\<lparr>w_Target := over x (w_Target w)\<rparr>)"
  "puts exec_tags set_exec_field (opt_tree ''tool'' x) w
     = Some (w\<lparr>w_Tool := over x (w_Tool w)\<rparr>)"
  "puts exec_tags set_exec_field (opt_tree ''error_type'' x) w
     = Some (w\<lparr>w_ErrorType := over x (w_ErrorType w)\<rparr>)"
  "puts exec_tags set_exec_field (opt_tree ''error_code'' x) w
     = Some (w\<lparr>w_ErrorCode := over x (w_ErrorCode w)\<rparr>)"
  "puts exec_tags set_exec_field (opt_tree ''arguments_fingerprint'' x) w
     = Some (w\<lparr>w_ArgumentsFingerprint := over x (w_ArgumentsFingerprint w)\<rparr>)"
  "puts exec_tags set_exec_field (opt_tree ''result_fingerprint'' x) w
     = Some (w\<lparr>w_ResultFingerprint := over x (w_ResultFingerprint w)\<rparr>)"
  by (simp_all add: opt_tree_def over_def put_def del: json_escape.simps)

lemma puts_exec_lists:
  "w_SeenFrom w = nil_slice \<Longrightarrow> puts exec_tags set_exec_field (opt_list_tree ''seen_from'' ss) w
     = Some (w\<lparr>w_SeenFrom := slice_utf8 ss\<rparr>)"
  "w_Disagreements w = nil_slice \<Longrightarrow>
     puts exec_tags set_exec_field (opt_list_tree ''disagreements'' ss) w
     = Some (w\<lparr>w_Disagreements := slice_utf8 ss\<rparr>)"
  using into_slice_trees [of ss]
  by (auto simp: opt_list_tree_def put_def slice_utf8_def nil_slice_def
      simp del: json_escape.simps into_slice.simps)

lemma puts_duration:
  "is_int64 i \<Longrightarrow> w_DurationMS w = 0 \<Longrightarrow>
     puts exec_tags set_exec_field (if i = 0 then [] else [(''duration_ms'', JNum (decimal_int i))]) w
     = Some (w\<lparr>w_DurationMS := i\<rparr>)"
  by (simp add: put_def del: json_escape.simps)

text \<open>The texts of the enumerations are ASCII.\<close>

lemma correlation_ascii [simp]: "to_utf8 (correlation_text c) = correlation_text c"
  by (cases c; hypsubst_thin; code_simp)

lemma status_ascii [simp]: "to_utf8 (status_text st) = status_text st"
  by (cases st; hypsubst_thin; code_simp)

lemma availability_ascii [simp]: "to_utf8 (availability_text av) = availability_text av"
  by (cases av; hypsubst_thin; code_simp)

lemma zero_text: "rfc3339 zero_instant = ''0001-01-01T00:00:00Z''"
  by code_simp

lemma read_time:
  assumes "int64_time t"
  shows "parse_rfc3339 (time_text t) = Some t"
proof (cases t)
  case None
  have "time_year zero_instant = 1" by code_simp
  then show ?thesis
    using parse_rfc3339_text [of zero_instant] None by (simp add: time_text_def zero_text gotime_of_def)
next
  case (Some ns)
  have "json_time t \<noteq> None" using assms by (rule json_time_total)
  then have "0 \<le> time_year ns \<and> time_year ns \<le> 9999" by (simp add: json_time_def Some split: if_splits)
  moreover have "ns \<noteq> zero_instant"
    using assms by (auto simp: Some int64_time_def zero_instant_def epoch_days_def)
  ultimately show ?thesis
    using parse_rfc3339_text [of ns] by (simp add: Some time_text_def gotime_of_def)
qed

lemma puts_execution:
  assumes "exec_wf ex"
  shows "puts exec_tags set_exec_field
      (execution_tree quote ex (time_text (StartedAt ex)) (time_text (FinishedAt ex))) zero_wire
    = Some (wire_of quote ex)"
proof -
  have times: "parse_rfc3339 (time_text (StartedAt ex)) = Some (StartedAt ex)"
    "parse_rfc3339 (time_text (FinishedAt ex)) = Some (FinishedAt ex)" "is_int64 (DurationMS ex)"
    using assms by (simp_all add: exec_wf_def read_time)
  show ?thesis
    unfolding execution_tree_def
    by (simp add: puts_append puts_exec_opt puts_exec_lists puts_duration times put_def zero_wire_def
        wire_of_def into_source_tree del: json_escape.simps)
qed

lemma Unmarshal_Marshal:
  assumes "exec_wf ex" and "Marshal quote ex = Some line"
  shows "Unmarshal line = Some (wire_of quote ex)"
proof -
  let ?t = "execution_tree quote ex (time_text (StartedAt ex)) (time_text (FinishedAt ex))"
  have "parse_json line = Some (obj_tree ?t)"
    using Marshal_tree [OF assms(2)] parse_json_text [OF printable_execution] by simp
  then show ?thesis
    using puts_execution [OF assms(1)] by (simp add: Unmarshal_def obj_tree_def decode_puts)
qed

text \<open>
  C16. What is written is read back. Every normalized or assembled record can be encoded, and
  decoding the text gives each of its fields again: the times to the nanosecond, the duration,
  the lists in order, and strings with any byte that is not part of well-formed UTF-8 replaced
  by U+FFFD.
\<close>

theorem unmarshal_marshal:
  assumes "exec_wf ex"
  shows "\<exists>line. Marshal quote ex = Some line \<and> Unmarshal line = Some (wire_of quote ex)"
  using Marshal_total [OF assms] Unmarshal_Marshal [OF assms] by blast

theorem unmarshal_marshal_witness:
  "\<exists>line. Marshal (\<lambda>s. s) ex_log = Some line \<and> Unmarshal line = Some (wire_of (\<lambda>s. s) ex_log)"
  by (rule unmarshal_marshal) simp

end
