(* ===== verification/ReadAll.thy ===== *)
theory ReadAll
  imports Sink JsonReadBack
begin

text \<open>
  \<open>ReadAll\<close> of \<open>internal/sink/jsonl.go\<close>: the records of a file, line by line. The scanner of
  \<open>bufio\<close> gives the pieces between line ends without a carriage return at their end; its buffer
  holds 8 MiB, and a line needs one byte more than its text. When a read fails, what came
  before it is still handed out, and the error is reported at the end.
\<close>

section \<open>The scanner and the loop\<close>

record file_view =
  fv_open_fault :: "io_err option"
  fv_bytes :: string
  fv_read_fault :: "io_err option"

datatype scan_err = ErrTooLong | ReadFault io_err

datatype read_err =
    OpenFailed io_err
  | BadLine string nat
  | ScanFailed string scan_err

definition carriage_return :: char where "carriage_return = CHR 0x0D"

definition drop_cr :: "string \<Rightarrow> string" where
  "drop_cr s = (if s \<noteq> [] \<and> last s = carriage_return then butlast s else s)"

text \<open>The lines with their carriage returns; nothing follows the last line end.\<close>

definition raw_lines :: "string \<Rightarrow> string list" where
  "raw_lines t =
     (if last (split_on newline t) = [] then butlast (split_on newline t)
      else split_on newline t)"

definition max_token :: int where "max_token = 8 * 1024 * 1024"

definition fits_buffer :: "string \<Rightarrow> bool" where
  "fits_buffer raw \<longleftrightarrow> int (length raw) < max_token"

fun read_lines ::
  "string \<Rightarrow> io_err option \<Rightarrow> nat \<Rightarrow> string list \<Rightarrow> wire list \<Rightarrow> read_err + wire list" where
  "read_lines path fault line [] out =
     (case fault of Some err \<Rightarrow> Inl (ScanFailed path (ReadFault err)) | None \<Rightarrow> Inr out)"
| "read_lines path fault line (raw # rest) out =
     (if \<not> fits_buffer raw then Inl (ScanFailed path ErrTooLong)
      else if drop_cr raw = [] then read_lines path fault (line + 1) rest out
      else (case Unmarshal (drop_cr raw) of
              None \<Rightarrow> Inl (BadLine path (line + 1))
            | Some ex \<Rightarrow> read_lines path fault (line + 1) rest (out @ [ex])))"

definition ReadAll :: "string \<Rightarrow> file_view \<Rightarrow> read_err + wire list" where
  "ReadAll path view =
     (case fv_open_fault view of
        Some err \<Rightarrow> Inl (OpenFailed err)
      | None \<Rightarrow> read_lines path (fv_read_fault view) 0 (raw_lines (fv_bytes view)) [])"

text \<open>A file that can be opened and read.\<close>

definition whole :: "string \<Rightarrow> file_view" where
  "whole t = \<lparr>fv_open_fault = None, fv_bytes = t, fv_read_fault = None\<rparr>"

section \<open>Reading a log\<close>

lemma raw_lines_terminated: "terminated t \<Longrightarrow> raw_lines t = lines t"
proof -
  assume "terminated t"
  then consider "t = []" | u where "t = u @ [newline]"
    by (metis append_butlast_last_id terminated_def)
  then show ?thesis
  proof cases
    case 2
    then have "split_on newline t = split_on newline u @ [[]]"
      using split_on_sep [of newline u "[]"] by simp
    then show ?thesis by (simp add: raw_lines_def lines_def)
  qed (simp add: raw_lines_def lines_def)
qed

lemma read_lines_append:
  "read_lines path None n xs out = Inr out' \<Longrightarrow>
     read_lines path None n (xs @ ys) out = read_lines path None (n + length xs) ys out'"
  by (induction path "None :: io_err option" n xs out rule: read_lines.induct)
    (auto split: if_splits option.splits)

lemma printable_drop_cr: "printable s \<Longrightarrow> drop_cr s = s"
proof -
  assume "printable s"
  moreover have "byte carriage_return = 13" by (simp add: carriage_return_def byte_def)
  ultimately have "s \<noteq> [] \<Longrightarrow> last s \<noteq> carriage_return"
    using last_in_set [of s] by (force simp: printable_def)
  then show ?thesis by (auto simp: drop_cr_def)
qed

lemma read_records:
  assumes "\<forall>ex \<in> set exs. exec_wf ex" and "map Some ls = map (Marshal quote) exs"
  shows "read_lines path None n ls out =
    (if list_all fits_buffer ls then Inr (out @ map (wire_of quote) exs)
     else Inl (ScanFailed path ErrTooLong))"
  using assms
proof (induction exs arbitrary: ls n out)
  case (Cons ex exs)
  then obtain l ls' where l: "ls = l # ls'" "Marshal quote ex = Some l"
    "map Some ls' = map (Marshal quote) exs" by (cases ls) auto
  obtain l' where "Marshal quote ex = Some l' \<and> l' \<noteq> [] \<and> printable l'"
    using Marshal_total Cons(2) by (metis list.set_intros(1))
  then have "l \<noteq> []" "drop_cr l = l" using l(2) printable_drop_cr by auto
  moreover have "Unmarshal l = Some (wire_of quote ex)"
    using Unmarshal_Marshal l(2) Cons(2) by simp
  ultimately show ?case using Cons(1) [of ls'] Cons(2) l by simp
qed simp

text \<open>The lines that count: those that are not empty without their carriage return.\<close>

definition record_lines :: "string \<Rightarrow> string list" where
  "record_lines t = filter (\<lambda>l. l \<noteq> []) (map drop_cr (raw_lines t))"

lemma read_lines_exact:
  "read_lines path fault n ls out = Inr all \<longleftrightarrow>
     fault = None \<and> list_all fits_buffer ls \<and>
     (\<exists>new. all = out @ new \<and>
        map Unmarshal (filter (\<lambda>l. l \<noteq> []) (map drop_cr ls)) = map Some new)"
proof (induction ls arbitrary: n out)
  case Nil
  then show ?case by (auto split: option.split)
next
  case (Cons l ls)
  show ?case
  proof (cases "fits_buffer l \<and> drop_cr l \<noteq> []")
    case True
    show ?thesis
    proof (cases "Unmarshal (drop_cr l)")
      case (Some ex)
      have "(\<exists>new. all = (out @ [ex]) @ new \<and> P new) \<longleftrightarrow> (\<exists>new. all = out @ new \<and> (\<exists>m. new = ex # m \<and> P m))"
        for P by auto
      then show ?thesis using True Some Cons by (auto simp: map_eq_Cons_conv Cons_eq_map_conv)
    qed (use True in auto)
  qed (use Cons in auto)
qed

text \<open>
  C28. ReadAll is all or nothing. It returns records exactly when the file could be opened and
  read to its end, every line fits the scanner's buffer and every line that is not empty
  decodes; then it returns the decoded lines, each once and in the order of the file.
\<close>

theorem read_all_exact:
  "ReadAll path view = Inr recs \<longleftrightarrow>
     fv_open_fault view = None \<and> fv_read_fault view = None \<and>
     list_all fits_buffer (raw_lines (fv_bytes view)) \<and>
     map Unmarshal (record_lines (fv_bytes view)) = map Some recs"
  by (auto simp: ReadAll_def read_lines_exact record_lines_def split: option.split)

lemma file_terminated:
  assumes "NewJSONL oe path = Inr s0" and "terminated (existing oe)"
    and "reachable fl (Some (jsonl_sink quote)) wait (s0, answers) x"
    and "poisoned (fst (sinkst x)) = None"
  shows "terminated (file_bytes (fst (sinkst x)))"
proof -
  have s0: "file_bytes s0 = existing oe" "poisoned s0 = None"
    using assms(1) by (auto simp: NewJSONL_def Let_def split: if_splits option.splits)
  then have "jsonl_world_inv (s0, answers)"
    using assms(2) by (simp add: jsonl_world_inv_def jsonl_inv_def committed_def)
  from jsonl.reachable_holds_written [OF assms(3) this] assms(4) show ?thesis
    by (simp add: jsonl.holds_written_def jsonl_world_inv_def jsonl_inv_def committed_def)
qed

text \<open>
  C13. The file can be read back. A processor appends to a file that \<open>ReadAll\<close> can read and whose
  last line is complete. As long as no rollback has failed, \<open>ReadAll\<close> of the file then gives
  the records it gave before, followed by every record the sink accepted, in order and field
  by field, provided that every line is shorter than the 8 MiB of the scanner's buffer. One
  longer record, which \<open>Write\<close> accepts, makes the whole file unreadable.
\<close>

theorem log_read_back:
  assumes "NewJSONL oe path = Inr s0" and "terminated (existing oe)"
    and "ReadAll path (whole (existing oe)) = Inr old"
    and "reachable fl (Some (jsonl_sink quote)) wait (s0, answers) x"
    and "poisoned (fst (sinkst x)) = None"
  shows "ReadAll path (whole (file_bytes (fst (sinkst x)))) =
    (if list_all (\<lambda>a. fits_buffer (the (Marshal quote (a_ex a)))) (written x)
     then Inr (old @ map (\<lambda>a. wire_of quote (a_ex a)) (written x))
     else Inl (ScanFailed path ErrTooLong))"
proof -
  let ?exs = "map a_ex (written x)"
  let ?ls = "map (\<lambda>ex. the (Marshal quote ex)) ?exs"
  have wf: "\<forall>ex \<in> set ?exs. exec_wf ex"
    using reachable_inv [OF assms(4)] by (auto simp: sys_inv_def log_inv_def keyed_def)
  have "Some (the (Marshal quote ex)) = Marshal quote ex" if "ex \<in> set ?exs" for ex
    using wf that Marshal_total [of ex quote] by auto
  then have m: "map Some ?ls = map (Marshal quote) ?exs" by (auto simp: image_iff)
  have "map Some (lines (file_bytes (fst (sinkst x)))) = map Some (lines (existing oe) @ ?ls)"
    using file_log [OF assms(1,2,4)] assms(5) m by (simp add: comp_def)
  then have "raw_lines (file_bytes (fst (sinkst x))) = raw_lines (existing oe) @ ?ls"
    using raw_lines_terminated file_terminated [OF assms(1,2,4,5)] assms(2)
    by (metis inj_Some map_injective)
  moreover have "read_lines path None 0 (raw_lines (existing oe)) [] = Inr old"
    using assms(3) by (simp add: ReadAll_def whole_def)
  ultimately show ?thesis
    using read_records [OF wf m] read_lines_append
    by (simp add: ReadAll_def whole_def list_all_iff comp_def)
qed

theorem log_read_back_witness:
  "\<exists>x s0 answers a. NewJSONL fresh_env ''o'' = Inr s0 \<and>
     reachable plain_floats (Some (jsonl_sink (\<lambda>s. s))) 0 (s0, answers) x \<and> written x = [a] \<and>
     ReadAll ''o'' (whole (file_bytes (fst (sinkst x)))) =
       (if fits_buffer (the (Marshal (\<lambda>s. s) (a_ex a))) then Inr [wire_of (\<lambda>s. s) (a_ex a)]
        else Inl (ScanFailed ''o'' ErrTooLong))"
proof -
  obtain line where
    l: "Marshal (\<lambda>s. s) (call_record (stamp (start_processor 0 ''b'' []))) = Some line"
      "printable line" using Marshal_total [OF call_record_wf] by blast
  let ?w = "(new_file [], \<lambda>_ :: nat. fine_env\<lparr>write_count := Suc (length line)\<rparr>)"
  obtain x where x: "reachable plain_floats (Some (jsonl_sink (\<lambda>s. s))) 0 ?w x"
    "fst (sinkst x) = new_file (line @ [newline])"
    using one_call_in_file [OF l(1) lessI] by blast
  have n: "NewJSONL fresh_env ''o'' = Inr (new_file [])"
    by (simp add: NewJSONL_def fresh_env_def new_file_def Let_def)
  have e: "terminated (existing fresh_env)" "ReadAll ''o'' (whole (existing fresh_env)) = Inr []"
    by (simp_all add: fresh_env_def terminated_def ReadAll_def whole_def raw_lines_def)
  have p: "poisoned (fst (sinkst x)) = None" using x(2) by (simp add: new_file_def)
  have "lines (committed (fst (sinkst x))) = [line]"
    using x(2) lines_append [of "[]" line] printable_no_newline [OF l(2)]
    by (simp add: committed_def new_file_def terminated_def)
  with file_log [OF n e(1) x(1)] have "length (written x) = 1"
    by (metis fresh_env_def length_map length_Cons lines_Nil list.size(3) append_Nil list.map(1)
        open_env.select_convs(3) One_nat_def)
  then obtain a where "written x = [a]" by (metis length_0_conv length_Suc_conv One_nat_def)
  with log_read_back [OF n e x(1) p] n x(1) show ?thesis by fastforce
qed

end
