(* ===== verification/FileRecords.thy ===== *)
theory FileRecords
  imports ReadAll
begin

text \<open>
  What a reader of the output file gets. A sink is readable when the lines it holds decode to a
  view of the records they were made from; whoever decodes the lines that a processor added
  then sees every accepted record, and each call at most once.
\<close>

section \<open>Readable sinks\<close>

locale readable_sink = sink_contract do_write contents enc inv
  for do_write :: "('s, 'e) sink_write"
    and contents :: "'s \<Rightarrow> string list"
    and enc :: "execution \<Rightarrow> string option"
    and inv :: "'s \<Rightarrow> bool" +
  fixes dec :: "string \<Rightarrow> 'w option"
    and view :: "execution \<Rightarrow> 'w"
  assumes reads_back: "exec_wf ex \<Longrightarrow> enc ex = Some line \<Longrightarrow> dec line = Some (view ex)"
begin

definition added :: "'s \<Rightarrow> 's \<Rightarrow> string list" where
  "added s0 s = drop (length (contents s0)) (contents s)"

lemma decode_added:
  assumes "reachable fl (Some do_write) wait s0 x" and "inv s0"
  shows "map dec (added s0 (sinkst x)) = map Some (map (\<lambda>a. view (a_ex a)) (written x))"
proof -
  have h: "holds_written s0 x" by (rule reachable_holds_written [OF assms])
  have "dec (the (enc (a_ex a))) = Some (view (a_ex a))" if "a \<in> set (written x)" for a
  proof (rule reads_back)
    show "exec_wf (a_ex a)"
      using reachable_inv [OF assms(1)] that by (auto simp: sys_inv_def log_inv_def keyed_def)
    show "enc (a_ex a) = Some (the (enc (a_ex a)))" using h that by (auto simp: holds_written_def)
  qed
  with h show ?thesis by (simp add: added_def holds_written_def)
qed

end

interpretation jsonl_file: readable_sink "jsonl_sink quote" jsonl_contents "Marshal quote" jsonl_world_inv
    Unmarshal "wire_of quote"
  for quote
  by unfold_locales (rule Unmarshal_Marshal)

section \<open>Properties\<close>

definition wire_key :: "wire \<Rightarrow> string" where
  "wire_key w = JoinKey (w_TraceID w) (w_SpanID w)"

lemma wire_key_of:
  "valid_utf8 (TraceID ex) \<Longrightarrow> valid_utf8 (SpanID ex) \<Longrightarrow> wire_key (wire_of quote ex) = record_key ex"
  by (simp add: wire_key_def wire_of_def record_key_def to_utf8_valid)

lemma opened_world:
  assumes "NewJSONL oe path = Inr s0" and "terminated (existing oe)"
  shows "jsonl_world_inv (s0, answers)" and "jsonl_contents (s0, answers) = lines (existing oe)"
proof -
  have s0: "file_bytes s0 = existing oe" "poisoned s0 = None"
    using assms(1) by (auto simp: NewJSONL_def Let_def split: if_splits option.splits)
  then show "jsonl_world_inv (s0, answers)" "jsonl_contents (s0, answers) = lines (existing oe)"
    using assms(2) by (simp_all add: jsonl_world_inv_def jsonl_inv_def jsonl_contents_def committed_def)
qed

lemma to_utf8_Nil: "to_utf8 s = [] \<longleftrightarrow> s = []"
proof (cases s)
  case (Cons c r)
  have "utf8_len (c # r) \<noteq> Some 0" using utf8_len_bounds [of "c # r" 0] by auto
  then show ?thesis using Cons by (auto simp: replacement_def split: option.split)
qed simp

text \<open>
  C14. Whoever reads the file sees each call once. A process opens a file whose last line is
  complete, and the trace and span ids of the records it writes are valid UTF-8. Then the
  complete lines it has added to the committed part of the file all decode, one for each accepted
  record; no two of the decoded records name the same pair of trace and span; and a decoded
  record has an operation id exactly when it says that it is correlated.
\<close>

theorem file_names_each_call_once:
  assumes "NewJSONL oe path = Inr s0" and "terminated (existing oe)"
    and "reachable fl (Some (jsonl_sink quote)) wait (s0, answers) x"
    and "list_all (\<lambda>a. valid_utf8 (TraceID (a_ex a)) \<and> valid_utf8 (SpanID (a_ex a))) (written x)"
  shows "\<exists>ws. map Unmarshal (drop (length (lines (existing oe))) (lines (committed (fst (sinkst x))))) =
        map Some ws
    \<and> length ws = length (written x) \<and> distinct (map wire_key ws)
    \<and> (\<forall>w \<in> set ws. w_OperationID w \<noteq> [] \<longleftrightarrow> w_Correlation w = ''correlated'')"
proof -
  let ?ws = "map (\<lambda>a. wire_of quote (a_ex a)) (written x)"
  note inv = reachable_inv [OF assms(3)]
  note o = opened_world [OF assms(1,2), of answers]
  have "map Unmarshal (drop (length (lines (existing oe))) (lines (committed (fst (sinkst x))))) = map Some ?ws"
    using jsonl_file.decode_added [OF assms(3) o(1)]
    by (simp add: jsonl_file.added_def o(2)) (simp add: jsonl_contents_def)
  moreover have k: "map wire_key ?ws = map a_key (written x)"
    using assms(4) written_keys [OF inv] by (simp add: list_all_iff wire_key_of)
  have "distinct (map a_key (written x))" using inv by (simp add: sys_inv_def log_inv_def)
  then have "distinct (map wire_key ?ws)" by (simp only: k)
  moreover have "w_OperationID w \<noteq> [] \<longleftrightarrow> w_Correlation w = ''correlated''" if "w \<in> set ?ws" for w
  proof -
    obtain a where a: "a \<in> set (written x)" "w = wire_of quote (a_ex a)" using \<open>w \<in> set ?ws\<close> by auto
    have "exec_wf (a_ex a)" using inv a(1) by (auto simp: sys_inv_def log_inv_def keyed_def)
    then have c: "corr_wf (Correlation (a_ex a)) (OperationID (a_ex a))" by (simp add: exec_wf_def)
    have "to_utf8 s = [] \<longleftrightarrow> s = []" for s by (rule to_utf8_Nil)
    then show ?thesis
      using corr_wf_nonempty [OF c] a(2)
      by (cases "Correlation (a_ex a)") (simp_all add: wire_of_def)
  qed
  ultimately show ?thesis by (intro exI [of _ ?ws]) simp
qed

text \<open>One log, taken in and written.\<close>

lemma one_log_written:
  assumes "Marshal (\<lambda>s. s) ex_log = Some line"
  shows "\<exists>x a. reachable plain_floats (Some (jsonl_sink (\<lambda>s. s))) 0
      (new_file [], \<lambda>_. fine_env\<lparr>write_count := Suc (length line)\<rparr>) x
    \<and> written x = [a] \<and> a_ex a = ex_log"
proof -
  let ?w = "(new_file [], \<lambda>_ :: nat. fine_env\<lparr>write_count := Suc (length line)\<rparr>)"
  let ?k = "Some (jsonl_sink (\<lambda>s. s))"
  define q0 where "q0 = consume_logs plain_floats (\<lambda>_. 0)
    [Some (gatewayLog [1] [2] ''restart'' ''alpha'' opA)] (NewProcessor 0)"
  define a where "a = \<lparr>a_key = ''01/02'', a_consumedKeys = [''01/02''], a_ex = ex_log,
    a_both = False, a_loggy = True, a_parentsSuppressed = 0\<rparr>"
  have q: "spans q0 = fmempty" "logs q0 = fmupd ''01/02'' ex_log fmempty"
    "firstSeen q0 = fmupd ''01/02'' 0 fmempty" "inFlight q0 = {}" "emitted q0 = {}"
    using one_call_keys(1)
    by (simp_all add: q0_def samples_Some take_signal_def buffer_def Let_def hasPending_def stamp_def
        put_merged_def put_first_def NewProcessor_def count_stat_def)
  have "snapshot None sorted_list_of_fset q0 = [a]"
    by (simp add: snapshot_def readyKeys_def suppressed_def childOf_def assembleKey_def q a_def
        List.map_filter_simps sorted_keys_def sorted_list_of_fset.rep_eq)
  then have c: "claim None sorted_list_of_fset q0 = ([a], q0\<lparr>inFlight := {''01/02''}\<rparr>)"
    by (simp add: claim_snapshot q a_def)
  let ?p = "q0\<lparr>inFlight := {''01/02''}\<rparr>"
  have "init_sys 0 ?w = sys_of (NewProcessor 0) Idle ?w {#} []"
    by (simp add: init_sys_def sys_of_def)
  then have "reachable plain_floats ?k 0 ?w (sys_of (NewProcessor 0) Idle ?w {#} [])"
    using reachable.start [of plain_floats ?k 0 ?w] by simp
  then have "reachable plain_floats ?k 0 ?w (sys_of q0 Idle ?w {#} [])"
    by (rule reachable_steps [rotated]) (simp only: q0_def consume_logs_steps)
  moreover have "step plain_floats ?k (sys_of q0 Idle ?w {#} []) (sys_of ?p (Emitting [a]) ?w {#} [])"
    using begin_assembly [of "sys_of q0 Idle ?w {#} []" sorted_list_of_fset None "[a]" ?p plain_floats ?k]
      c range_order_sorted by simp
  ultimately have "reachable plain_floats ?k 0 ?w (sys_of ?p (Emitting [a]) ?w {#} [])"
    by (rule reachable.more)
  moreover have "step plain_floats ?k (sys_of ?p (Emitting [a]) ?w {#} []) (sys_of ?p (Writing a []) ?w {#} [])"
    by (rule run_steps(2)) (simp add: q)
  ultimately have "reachable plain_floats ?k 0 ?w (sys_of ?p (Writing a []) ?w {#} [])"
    by (rule reachable.more)
  moreover have "sink_call ?k ?w (a_ex a) =
      (None, (new_file (line @ [newline]), \<lambda>_. fine_env\<lparr>write_count := Suc (length line)\<rparr>))"
    using fresh_write [OF assms lessI] by (simp add: sink_call_def a_def)
  note run_steps(3) [OF this, where fl = plain_floats and p = ?p and out = "[]" and rcv = "{#}" and wr = "[]"]
  ultimately have "reachable plain_floats ?k 0 ?w (sys_of ?p (Written a [])
      (new_file (line @ [newline]), \<lambda>_. fine_env\<lparr>write_count := Suc (length line)\<rparr>) {#} ([] @ [a]))"
    by (rule reachable.more)
  moreover have "a_ex a = ex_log" by (simp add: a_def)
  ultimately show ?thesis by (intro exI conjI) (assumption | simp)+
qed

theorem file_names_each_call_once_witness:
  "\<exists>x s0 answers w. NewJSONL fresh_env ''o'' = Inr s0 \<and>
     reachable plain_floats (Some (jsonl_sink (\<lambda>s. s))) 0 (s0, answers) x \<and>
     map Unmarshal (lines (committed (fst (sinkst x)))) = [Some w]"
proof -
  obtain line where l: "Marshal (\<lambda>s. s) ex_log = Some line" using sample_line by blast
  let ?w = "(new_file [], \<lambda>_ :: nat. fine_env\<lparr>write_count := Suc (length line)\<rparr>)"
  obtain x a where x: "reachable plain_floats (Some (jsonl_sink (\<lambda>s. s))) 0 ?w x"
    "written x = [a]" "a_ex a = ex_log" using one_log_written [OF l] by blast
  have n: "NewJSONL fresh_env ''o'' = Inr (new_file [])" "terminated (existing fresh_env)"
    "existing fresh_env = []"
    by (simp_all add: NewJSONL_def fresh_env_def new_file_def Let_def terminated_def)
  have "valid_utf8 (TraceID ex_log)" "valid_utf8 (SpanID ex_log)" by code_simp+
  then have "list_all (\<lambda>a. valid_utf8 (TraceID (a_ex a)) \<and> valid_utf8 (SpanID (a_ex a))) (written x)"
    by (simp add: x)
  from file_names_each_call_once [OF n(1,2) x(1) this] obtain ws where
    "map Unmarshal (lines (committed (fst (sinkst x)))) = map Some ws" "length ws = 1"
    by (auto simp: n(3) x(2))
  then obtain w where "map Unmarshal (lines (committed (fst (sinkst x)))) = [Some w]"
    by (auto simp: length_Suc_conv)
  then show ?thesis by (intro exI conjI) (rule n(1), rule x(1))
qed

end
