(* ===== verification/ExtMcp.thy ===== *)
theory ExtMcp
  imports JsonRoundtrip
begin

text \<open>
  \<open>internal/extmcp/server.go\<close> and \<open>cmd/extmcp-spike/main.go\<close>: the capture hook that the
  gateway calls before and after an MCP call. It passes every call through and retains only
  bounded metadata. The messages are those of the generated protobuf code (\<open>ext_mcp.pb.go\<close>);
  a nil message is \<open>None\<close>, and the getters of the generated code are nil-safe. The metadata
  is a \<open>structpb.Struct\<close>: a map from names to values, of which only strings matter here.
\<close>

section \<open>Messages\<close>

datatype pb_value = PbString string | PbOther

type_synonym pb_struct = "(string, pb_value) fmap"

record mcp_header =
  mh_Key :: string
  mh_Value :: bytes

record mcp_message =
  mm_ServiceNames :: "string list"
  mm_Method :: string
  mm_MetadataContext :: "pb_struct option"
  mm_Payload :: bytes
  mm_Headers :: "mcp_header list"

definition GetServiceNames :: "mcp_message option \<Rightarrow> string list" where
  "GetServiceNames m = (case m of None \<Rightarrow> [] | Some x \<Rightarrow> mm_ServiceNames x)"

definition GetMethod :: "mcp_message option \<Rightarrow> string" where
  "GetMethod m = (case m of None \<Rightarrow> [] | Some x \<Rightarrow> mm_Method x)"

definition GetMetadataContext :: "mcp_message option \<Rightarrow> pb_struct option" where
  "GetMetadataContext m = (case m of None \<Rightarrow> None | Some x \<Rightarrow> mm_MetadataContext x)"

definition GetStringValue :: "pb_value option \<Rightarrow> string" where
  "GetStringValue v = (case v of Some (PbString s) \<Rightarrow> s | _ \<Rightarrow> [])"

section \<open>The store\<close>

record capture =
  ServiceNames :: "string list"
  cap_Method :: string
  RequestSeen :: bool
  ResponseSeen :: bool
  OperationContext :: string
  RawPersisted :: bool

record store = captures :: "(string, capture) fmap"

definition NewStore :: store where
  "NewStore = \<lparr>captures = fmempty\<rparr>"

definition mark :: "string \<Rightarrow> string list \<Rightarrow> string \<Rightarrow> bool \<Rightarrow> bool \<Rightarrow> store \<Rightarrow> store" where
  "mark operation services meth start finish s =
     (let c = (case fmlookup (captures s) operation of
                 None \<Rightarrow> \<lparr>ServiceNames = services, cap_Method = meth, RequestSeen = False,
                          ResponseSeen = False, OperationContext = operation, RawPersisted = False\<rparr>
               | Some c \<Rightarrow> c);
          c = c\<lparr>RequestSeen := RequestSeen c \<or> start, ResponseSeen := ResponseSeen c \<or> finish\<rparr>
      in s\<lparr>captures := fmupd operation c (captures s)\<rparr>)"

text \<open>The copies, in the order in which the map is ranged over, then sorted by operation.\<close>

definition Snapshot :: "range_fn \<Rightarrow> store \<Rightarrow> capture list" where
  "Snapshot rng s =
     sort_key OperationContext
       (List.map_filter (fmlookup (captures s)) (rng (fmdom (captures s))))"

section \<open>The hooks\<close>

definition operationContextKey :: string where "operationContextKey = ''evidra_operation_id''"

datatype hook_err = MissingContext | MissingContextKey string

datatype hook_result = Pass

definition operationContext :: "pb_struct option \<Rightarrow> hook_err + string" where
  "operationContext metadata =
     (case metadata of
        None \<Rightarrow> Inl MissingContext
      | Some flds \<Rightarrow>
          (case fmlookup flds operationContextKey of
             None \<Rightarrow> Inl (MissingContextKey operationContextKey)
           | Some v \<Rightarrow>
               if GetStringValue (Some v) = [] then Inl (MissingContextKey operationContextKey)
               else Inr (GetStringValue (Some v))))"

definition CheckRequest :: "mcp_message option \<Rightarrow> store \<Rightarrow> (hook_err + hook_result) \<times> store" where
  "CheckRequest req s =
     (case operationContext (GetMetadataContext req) of
        Inl err \<Rightarrow> (Inl err, s)
      | Inr operation \<Rightarrow> (Inr Pass, mark operation (GetServiceNames req) (GetMethod req) True False s))"

definition CheckResponse :: "mcp_message option \<Rightarrow> store \<Rightarrow> (hook_err + hook_result) \<times> store" where
  "CheckResponse resp s =
     (case operationContext (GetMetadataContext resp) of
        Inl err \<Rightarrow> (Inl err, s)
      | Inr operation \<Rightarrow> (Inr Pass, mark operation (GetServiceNames resp) (GetMethod resp) False True s))"

datatype hook_call = OnRequest "mcp_message option" | OnResponse "mcp_message option"

fun run_hook :: "hook_call \<Rightarrow> store \<Rightarrow> (hook_err + hook_result) \<times> store" where
  "run_hook (OnRequest m) s = CheckRequest m s"
| "run_hook (OnResponse m) s = CheckResponse m s"

definition run_hooks :: "hook_call list \<Rightarrow> store \<Rightarrow> store" where
  "run_hooks hs s = fold (\<lambda>h s. snd (run_hook h s)) hs s"

section \<open>The decision artifact\<close>

text \<open>A nil slice is written as null, an empty one as an empty array.\<close>

definition json_capture :: "capture \<Rightarrow> string" where
  "json_capture c =
     json_object
       [(''ServiceNames'', if ServiceNames c = [] then ''null'' else json_list (ServiceNames c)),
        (''Method'', json_string (cap_Method c)),
        (''RequestSeen'', json_bool (RequestSeen c)),
        (''ResponseSeen'', json_bool (ResponseSeen c)),
        (''OperationContext'', json_string (OperationContext c)),
        (''RawPersisted'', json_bool (RawPersisted c))]"

definition hook_gaps :: "string list" where
  "hook_gaps =
     [''AgentGateway cannot invoke CheckResponse for a response that never arrives; missing-response is observed as start-only.'']"

definition artifact :: "capture list \<Rightarrow> string" where
  "artifact cs =
     json_object
       [(''captures'', ''['' @ join_with '','' (map json_capture cs) @ '']''),
        (''hook_gaps'', json_list hook_gaps)] @ [CHR 0x0A]"

text \<open>A server holds its store, a new one when it is given none.\<close>

definition NewServer :: "store option \<Rightarrow> store" where
  "NewServer s = (case s of None \<Rightarrow> NewStore | Some s \<Rightarrow> s)"

text \<open>
  What \<open>Serve\<close> of the gRPC server returned. \<open>Encode\<close> hands the whole text to one \<open>Write\<close>; when
  that fails, the bytes it wrote before are on the standard output.
\<close>

datatype serve_err = ErrServerStopped | ServeFailed string | EncodeFailed string

record write_fault =
  wf_Error :: string
  wf_Written :: nat

definition Encode :: "write_fault option \<Rightarrow> string \<Rightarrow> serve_err option \<times> string" where
  "Encode fault text =
     (case fault of
        None \<Rightarrow> (None, text)
      | Some f \<Rightarrow> (Some (EncodeFailed (wf_Error f)), take (wf_Written f) text))"

definition serveExtMCP ::
  "bool \<Rightarrow> serve_err option \<Rightarrow> write_fault option \<Rightarrow> range_fn \<Rightarrow> store \<Rightarrow> serve_err option \<times> string" where
  "serveExtMCP ctx_done serveErr fault rng store =
     (if \<not> ctx_done then (serveErr, [])
      else if serveErr \<noteq> None \<and> serveErr \<noteq> Some ErrServerStopped then (serveErr, [])
      else Encode fault (artifact (Snapshot rng store)))"

definition extmcp_addr :: "(string \<Rightarrow> string) \<Rightarrow> string" where
  "extmcp_addr env =
     (let addr = env ''EVIDRA_EXTMCP_LISTEN_ADDR'' in if addr = [] then '':19090'' else addr)"

text \<open>\<open>main\<close>: exit code and standard output.\<close>

definition extmcp_main ::
  "string option \<Rightarrow> bool \<Rightarrow> serve_err option \<Rightarrow> write_fault option \<Rightarrow> range_fn \<Rightarrow> hook_call list
     \<Rightarrow> nat \<times> string" where
  "extmcp_main listen_fault ctx_done serveErr fault rng calls =
     (if listen_fault \<noteq> None then (1, [])
      else (case serveExtMCP ctx_done serveErr fault rng (run_hooks calls (NewServer (Some NewStore))) of
              (Some _, out) \<Rightarrow> (1, out) | (None, out) \<Rightarrow> (0, out)))"

section \<open>What the store holds\<close>

text \<open>The operation a call names, if it names one.\<close>

fun call_message :: "hook_call \<Rightarrow> mcp_message option" where
  "call_message (OnRequest m) = m"
| "call_message (OnResponse m) = m"

definition call_operation :: "hook_call \<Rightarrow> string option" where
  "call_operation h =
     (case operationContext (GetMetadataContext (call_message h)) of Inl _ \<Rightarrow> None | Inr i \<Rightarrow> Some i)"

fun is_request :: "hook_call \<Rightarrow> bool" where
  "is_request (OnRequest m) = True"
| "is_request (OnResponse m) = False"

lemma run_hook_mark:
  "snd (run_hook h s) =
     (case call_operation h of
        None \<Rightarrow> s
      | Some i \<Rightarrow> mark i (GetServiceNames (call_message h)) (GetMethod (call_message h))
                   (is_request h) (\<not> is_request h) s)"
  by (cases h) (auto simp: call_operation_def CheckRequest_def CheckResponse_def split: sum.split)

text \<open>What a history of calls says about an operation.\<close>

definition history_capture :: "hook_call list \<Rightarrow> string \<Rightarrow> capture option" where
  "history_capture hs i =
     (case filter (\<lambda>h. call_operation h = Some i) hs of
        [] \<Rightarrow> None
      | h # rest \<Rightarrow>
          Some \<lparr>ServiceNames = GetServiceNames (call_message h),
                cap_Method = GetMethod (call_message h),
                RequestSeen = list_ex is_request (h # rest),
                ResponseSeen = list_ex (\<lambda>h. \<not> is_request h) (h # rest),
                OperationContext = i, RawPersisted = False\<rparr>)"

lemma captures_history:
  "fmlookup (captures (run_hooks hs NewStore)) i = history_capture hs i"
proof (induction hs arbitrary: i rule: rev_induct)
  case Nil
  then show ?case by (simp add: run_hooks_def NewStore_def history_capture_def)
next
  case (snoc h hs)
  let ?s = "run_hooks hs NewStore"
  have step: "run_hooks (hs @ [h]) NewStore = snd (run_hook h ?s)" by (simp add: run_hooks_def)
  show ?case
  proof (cases "call_operation h = Some i")
    case False
    then have "fmlookup (captures (snd (run_hook h ?s))) i = fmlookup (captures ?s) i"
      by (auto simp: run_hook_mark mark_def Let_def split: option.splits)
    then show ?thesis using snoc [of i] False by (simp add: step history_capture_def)
  next
    case True
    then show ?thesis
      using snoc [of i]
      by (cases "filter (\<lambda>h. call_operation h = Some i) hs")
        (auto simp: step run_hook_mark mark_def Let_def history_capture_def)
  qed
qed

lemma capture_key: "fmlookup (captures (run_hooks hs NewStore)) i = Some c \<Longrightarrow> OperationContext c = i"
  by (auto simp: captures_history history_capture_def split: list.splits)

section \<open>Properties\<close>

text \<open>
  C38. The store is the history. After any sequence of hook calls, an operation has a capture
  exactly when a call named it; the capture carries the services and the method of the first
  such call, and has seen a request or a response exactly when one of these calls was one.
  In particular a request without a response stays start-only, and no payload is marked as
  persisted.
\<close>

theorem store_is_history:
  "fmlookup (captures (run_hooks hs NewStore)) i = history_capture hs i"
  by (rule captures_history)

text \<open>
  Nothing of the payload is read. Two calls that agree on the metadata context, the
  services and the method have the same result and leave the same store, whatever MCP payload
  and headers they carry; the result is to pass the call through, unless the operation id is
  missing, and then the store is unchanged.
\<close>

theorem hooks_ignore_payload:
  assumes "GetMetadataContext m = GetMetadataContext m'" and "GetServiceNames m = GetServiceNames m'"
    and "GetMethod m = GetMethod m'"
  shows "CheckRequest m s = CheckRequest m' s \<and> CheckResponse m s = CheckResponse m' s
    \<and> (fst (CheckRequest m s) = Inr Pass \<or> snd (CheckRequest m s) = s \<and> call_operation (OnRequest m) = None)
    \<and> (fst (CheckResponse m s) = Inr Pass \<or> snd (CheckResponse m s) = s \<and> call_operation (OnResponse m) = None)"
  using assms by (auto simp: CheckRequest_def CheckResponse_def call_operation_def split: sum.split)

definition sample_message :: "string \<Rightarrow> bytes \<Rightarrow> mcp_message option" where
  "sample_message i payload =
     Some \<lparr>mm_ServiceNames = [''alpha''], mm_Method = ''tools/call'',
       mm_MetadataContext = Some (fmupd operationContextKey (PbString i) fmempty),
       mm_Payload = payload, mm_Headers = []\<rparr>"

theorem hooks_ignore_payload_witness:
  "CheckRequest (sample_message opA [1, 2, 3]) NewStore = CheckRequest (sample_message opA []) NewStore"
  using hooks_ignore_payload [of "sample_message opA [1, 2, 3]" "sample_message opA []" NewStore]
  by (simp add: sample_message_def GetMetadataContext_def GetServiceNames_def GetMethod_def)

lemma map_filter_lookup:
  assumes "set ks \<subseteq> fmdom' m"
  shows "List.map_filter (fmlookup m) ks = map (\<lambda>k. the (fmlookup m k)) ks"
  using assms by (induction ks) (auto simp: List.map_filter_simps in_fmdom'_iff)

lemma sort_key_map: "sort_key f (map g xs) = map g (sort_key (\<lambda>x. f (g x)) xs)"
proof -
  have "insort_key f (g x) (map g ys) = map g (insort_key (\<lambda>x. f (g x)) x ys)" for x ys
    by (induction ys) simp_all
  then show ?thesis by (induction xs) simp_all
qed

lemma Snapshot_sorted:
  assumes "range_order rng"
  shows "Snapshot rng (run_hooks hs NewStore) =
    map (\<lambda>k. the (history_capture hs k)) (sorted_keys (captures (run_hooks hs NewStore)))"
proof -
  let ?m = "captures (run_hooks hs NewStore)" and ?ks = "rng (fmdom (captures (run_hooks hs NewStore)))"
  let ?f = "\<lambda>k. the (history_capture hs k)"
  let ?s = "sort_key (\<lambda>k. OperationContext (?f k)) ?ks"
  have ks: "set ?ks = fmdom' ?m" "distinct ?ks"
    using assms by (simp_all add: range_order_def fmdom'_alt_def)
  have "OperationContext (?f k) = k" if "k \<in> set ?s" for k
    using that ks(1) capture_key [of hs k] by (auto simp: in_fmdom'_iff captures_history)
  then have "map (\<lambda>k. OperationContext (?f k)) ?s = ?s" by (intro map_idI)
  moreover have "sorted (map (\<lambda>k. OperationContext (?f k)) ?s)" by simp
  ultimately have "sorted ?s" by simp
  then have "?s = sorted_keys ?m" using ks by (intro sorted_distinct_set_unique) simp_all
  moreover have "List.map_filter (fmlookup ?m) ?ks = map ?f ?ks"
    using map_filter_lookup [of ?ks ?m] ks(1) by (simp add: captures_history)
  ultimately show ?thesis by (simp add: Snapshot_def sort_key_map)
qed

text \<open>
  The snapshot is a function of the store. Whatever the order in which Go ranges over
  the map, it lists every capture once, sorted by operation; so the artifact does not depend
  on that order either.
\<close>

theorem snapshot_deterministic:
  assumes "range_order rng"
  shows "Snapshot rng (run_hooks hs NewStore) =
    map (\<lambda>k. the (history_capture hs k)) (sorted_keys (captures (run_hooks hs NewStore)))"
  by (rule Snapshot_sorted [OF assms])

theorem snapshot_deterministic_witness:
  "map OperationContext (Snapshot sorted_list_of_fset
     (run_hooks [OnRequest (sample_message opA []), OnRequest (sample_message opB []),
        OnResponse (sample_message opA [])] NewStore)) = [opB, opA]"
  unfolding snapshot_deterministic [OF range_order_sorted] by code_simp

section \<open>The artifact is JSON\<close>

definition capture_tree :: "capture \<Rightarrow> json" where
  "capture_tree c =
     obj_tree
       [(''ServiceNames'', if ServiceNames c = [] then JNull else JArr (map str_tree (ServiceNames c))),
        (''Method'', str_tree (cap_Method c)),
        (''RequestSeen'', JBool (RequestSeen c)),
        (''ResponseSeen'', JBool (ResponseSeen c)),
        (''OperationContext'', str_tree (OperationContext c)),
        (''RawPersisted'', JBool (RawPersisted c))]"

definition artifact_tree :: "capture list \<Rightarrow> json" where
  "artifact_tree cs =
     obj_tree
       [(''captures'', JArr (map capture_tree cs)), (''hook_gaps'', JArr (map str_tree hook_gaps))]"

lemma capture_text: "json_capture c = json_text (capture_tree c)"
  by (simp add: json_capture_def capture_tree_def json_text_obj json_text_str json_text_list
      del: json_text.simps(5,6))

lemma artifact_text: "artifact cs = json_text (artifact_tree cs) @ [CHR 0x0A]"
proof -
  have "json_text (JArr (map capture_tree cs)) = ''['' @ join_with '','' (map json_capture cs) @ '']''"
    by (simp add: capture_text [abs_def] comp_def)
  then show ?thesis
    by (simp add: artifact_def artifact_tree_def json_text_obj json_text_list del: json_text.simps(5,6))
qed

lemma artifact_printable: "printable_tree 0 (artifact_tree cs)"
  by (auto simp: artifact_tree_def capture_tree_def printable_obj)

text \<open>The operations that the calls name, and what the hooks were told of each of them.\<close>

definition named_operations :: "hook_call list \<Rightarrow> string list" where
  "named_operations hs = sorted_list_of_set (set (List.map_filter call_operation hs))"

definition history_captures :: "hook_call list \<Rightarrow> capture list" where
  "history_captures hs = map (\<lambda>i. the (history_capture hs i)) (named_operations hs)"

lemma named_operation_iff:
  "i \<in> set (named_operations hs) \<longleftrightarrow> (\<exists>h \<in> set hs. call_operation h = Some i)"
  by (auto simp: named_operations_def List.map_filter_def image_iff)

lemma history_capture_None: "history_capture hs i = None \<longleftrightarrow> i \<notin> set (named_operations hs)"
  by (auto simp: history_capture_def named_operation_iff filter_empty_conv filter_eq_Cons_iff split: list.split)

lemma Snapshot_history:
  assumes "range_order rng"
  shows "Snapshot rng (run_hooks hs NewStore) = history_captures hs"
proof -
  let ?m = "captures (run_hooks hs NewStore)"
  have "fmdom' ?m = set (named_operations hs)"
    using history_capture_None [of hs] by (auto simp: in_fmdom'_iff captures_history)
  then have "sorted_keys ?m = named_operations hs"
    by (intro sorted_distinct_set_unique) (simp_all add: named_operations_def)
  then show ?thesis by (simp add: Snapshot_sorted [OF assms] history_captures_def)
qed

text \<open>
  C39. The artifact is complete and readable. Whatever order Go ranges over the store in, when
  the spike exits with 0 after a signal, its standard output is one JSON object that lists every
  operation some hook call named, once and in order, with the services and the method of the
  first call that named it and whether a request and a response were seen, and the gap the
  hooks cannot see. When it exits with 0 without a signal it has written nothing; when it exits
  with 1 it has written nothing or, if the write of the artifact failed, a beginning of it.
\<close>

theorem artifact_read_back:
  assumes "extmcp_main listen_fault ctx_done serveErr fault rng calls = (code, out)"
    and "range_order rng"
  shows "(code = 0 \<and> out = [] \<and> \<not> ctx_done \<and> serveErr = None)
    \<or> (code = 0 \<and> ctx_done \<and> parse_json out = Some (artifact_tree (history_captures calls)))
    \<or> (code = 1 \<and> out = [])
    \<or> (code = 1 \<and> ctx_done \<and>
        (\<exists>f. fault = Some f \<and> out = take (wf_Written f) (artifact (history_captures calls))))"
proof -
  have p: "parse_json (artifact cs) = Some (artifact_tree cs)" for cs
    unfolding artifact_text by (rule parse_json_line [OF artifact_printable])
  note snap = Snapshot_history [OF assms(2)]
  show ?thesis
    using assms(1) p
    by (auto simp: extmcp_main_def serveExtMCP_def NewServer_def Encode_def snap
        split: if_splits option.splits)
qed

text \<open>Two operations, one of them without a response.\<close>

definition two_operations :: "hook_call list" where
  "two_operations =
     [OnRequest (sample_message opA [1]), OnRequest (sample_message opB []),
      OnResponse (sample_message opA [])]"

theorem artifact_read_back_witness:
  "\<exists>out. extmcp_main None True None None sorted_list_of_fset two_operations = (0, out)
    \<and> parse_json out = Some (artifact_tree (history_captures two_operations))
    \<and> map (\<lambda>c. (OperationContext c, ResponseSeen c)) (history_captures two_operations) =
        [(opB, False), (opA, True)]"
proof -
  obtain code out where
    m: "extmcp_main None True None None sorted_list_of_fset two_operations = (code, out)"
    by fastforce
  then have "code = 0" by (auto simp: extmcp_main_def serveExtMCP_def Encode_def)
  moreover have "map (\<lambda>c. (OperationContext c, ResponseSeen c)) (history_captures two_operations) =
      [(opB, False), (opA, True)]" by code_simp
  ultimately show ?thesis using artifact_read_back [OF m range_order_sorted] m by auto
qed

end
