(* ===== verification/Replay.thy ===== *)
theory Replay
  imports Receiver Paths
begin

text \<open>
  \<open>internal/replay/replay.go\<close> and \<open>cmd/replay/main.go\<close>: recorded log records are read from
  fixture files, wrapped into one export request and posted to the bridge. The file system is
  a record of what it answers; decoding a fixture (\<open>protojson.Unmarshal\<close>), encoding and
  decoding a request (\<open>proto.Marshal\<close>, \<open>proto.Unmarshal\<close>) and the HTTP client are arguments.
\<close>

section \<open>Finding a fixture\<close>

record fs_view =
  fs_exists :: "string \<Rightarrow> bool"
  fs_getwd :: "string + string"
  fs_read :: "string \<Rightarrow> string + string"

datatype replay_err =
    GetWorkingDirectory string
  | ReadFixture string string
  | DecodeFixture string string
  | MarshalPayload string

text \<open>
  The loop of \<open>resolveFixturePath\<close> goes up from the working directory until it finds a module
  or can go no further; it ends because a parent is shorter, or the current directory.
\<close>

definition up_measure :: "string \<Rightarrow> nat" where
  "up_measure d = (if d = ''.'' then 0 else Suc (length d))"

lemma up_measure_Dir: "Dir d \<noteq> d \<Longrightarrow> up_measure (Dir d) < up_measure d"
proof -
  have "Dir ''.'' = ''.''" by code_simp
  then show "Dir d \<noteq> d \<Longrightarrow> up_measure (Dir d) < up_measure d"
    using Dir_shorter [of d] by (auto simp: up_measure_def)
qed

function find_module :: "(string \<Rightarrow> bool) \<Rightarrow> string \<Rightarrow> string option" where
  "find_module present dir =
     (if present (Join [dir, ''go.mod'']) then Some dir
      else if Dir dir = dir \<or> trim_space (Dir dir) = [] then None
      else find_module present (Dir dir))"
  by pat_completeness auto
termination
  by (relation "measure (\<lambda>(present, d). up_measure d)") (auto intro: up_measure_Dir)

declare find_module.simps [simp del]

definition resolveFixturePath :: "fs_view \<Rightarrow> string \<Rightarrow> replay_err + string" where
  "resolveFixturePath fs path =
     (let clean = Clean path
      in if IsAbs clean then Inr clean
         else if fs_exists fs clean then Inr clean
         else (case fs_getwd fs of
             Inl err \<Rightarrow> Inl (GetWorkingDirectory err)
           | Inr wd \<Rightarrow>
               (case find_module (fs_exists fs) wd of
                  Some dir \<Rightarrow> Inr (Join [dir, clean])
                | None \<Rightarrow> Inr clean)))"

section \<open>Building and sending the payload\<close>

definition loadFixtureRecord ::
  "(string \<Rightarrow> string + log_record) \<Rightarrow> fs_view \<Rightarrow> string \<Rightarrow> replay_err + log_record" where
  "loadFixtureRecord decode_json fs path =
     (case resolveFixturePath fs path of
        Inl err \<Rightarrow> Inl err
      | Inr resolvedPath \<Rightarrow>
          (case fs_read fs resolvedPath of
             Inl err \<Rightarrow> Inl (ReadFixture resolvedPath err)
           | Inr data \<Rightarrow>
               (case decode_json data of
                  Inl err \<Rightarrow> Inl (DecodeFixture path err)
                | Inr record \<Rightarrow> Inr record)))"

fun load_all ::
  "(string \<Rightarrow> string + log_record) \<Rightarrow> fs_view \<Rightarrow> string list \<Rightarrow> replay_err + log_record list" where
  "load_all decode_json fs [] = Inr []"
| "load_all decode_json fs (p # ps) =
     (case loadFixtureRecord decode_json fs p of
        Inl err \<Rightarrow> Inl err
      | Inr record \<Rightarrow>
          (case load_all decode_json fs ps of Inl err \<Rightarrow> Inl err | Inr records \<Rightarrow> Inr (record # records)))"

definition fixture_request :: "log_record list \<Rightarrow> log_record option export_request" where
  "fixture_request records =
     \<lparr>er_Resources =
        [\<lparr>rg_Attributes =
            [Some \<lparr>kv_Key = ''service.name'', kv_Value = Some (StringValue ''agentgateway'')\<rparr>],
          rg_Scopes = [\<lparr>sg_Records = map Some records\<rparr>]\<rparr>]\<rparr>"

definition BuildFixturePayload ::
  "(string \<Rightarrow> string + log_record) \<Rightarrow> (log_record option export_request \<Rightarrow> string + string) \<Rightarrow> fs_view
     \<Rightarrow> string list \<Rightarrow> replay_err + string" where
  "BuildFixturePayload decode_json encode fs paths =
     (case load_all decode_json fs paths of
        Inl err \<Rightarrow> Inl err
      | Inr records \<Rightarrow>
          (case encode (fixture_request records) of
             Inl err \<Rightarrow> Inl (MarshalPayload err)
           | Inr payload \<Rightarrow> Inr payload))"

definition fixture_paths :: "string list" where
  "fixture_paths =
     [''testdata/agentgateway/log_record_minimal.json'',
      ''testdata/agentgateway/log_record_outcome.json'']"

text \<open>
  \<open>main\<close>: \<open>new_request\<close> fails on a URL that cannot be parsed, \<open>send\<close> answers with an error or
  a status code; the result is the exit code.
\<close>

definition replay_main ::
  "(string \<Rightarrow> string + log_record) \<Rightarrow> (log_record option export_request \<Rightarrow> string + string) \<Rightarrow> fs_view
     \<Rightarrow> (string \<Rightarrow> string) \<Rightarrow> (string \<Rightarrow> bool) \<Rightarrow> (string \<Rightarrow> http_request \<Rightarrow> string + nat) \<Rightarrow> nat" where
  "replay_main decode_json encode fs env url_ok send =
     (case BuildFixturePayload decode_json encode fs fixture_paths of
        Inl err \<Rightarrow> 1
      | Inr payload \<Rightarrow>
          let bridgeURL = env ''EVIDRA_BRIDGE_URL'';
              bridgeURL = (if bridgeURL = [] then ''http://localhost:4318'' else bridgeURL);
              url = bridgeURL @ ''/v1/logs''
          in if \<not> url_ok url then 1
             else (case send url \<lparr>rq_Method = ''POST'', rq_Body = Some payload\<rparr> of
                     Inl err \<Rightarrow> 1
                   | Inr status \<Rightarrow> if status \<noteq> StatusAccepted then 1 else 0))"

section \<open>The directories that are searched\<close>

text \<open>A directory and its parents, as far as the loop goes.\<close>

function ancestors :: "string \<Rightarrow> string list" where
  "ancestors dir =
     dir # (if Dir dir = dir \<or> trim_space (Dir dir) = [] then [] else ancestors (Dir dir))"
  by pat_completeness auto
termination
  by (relation "measure up_measure") (auto intro: up_measure_Dir)

declare ancestors.simps [simp del]

lemma find_module_ancestors:
  "find_module present dir = find (\<lambda>d. present (Join [d, ''go.mod''])) (ancestors dir)"
proof (induction present dir rule: find_module.induct)
  case (1 present dir)
  then show ?case by (subst find_module.simps, subst ancestors.simps) auto
qed

lemma Clean_Join: "Join es \<noteq> [] \<Longrightarrow> Clean (Join es) = Join es"
  by (auto simp: Join_def split: list.splits)

lemma Clean_not_Nil [simp]: "Clean p \<noteq> []"
proof -
  obtain es where e: "clean_elements (IsAbs p) es" "Clean p = path_of (IsAbs p) es"
    using Clean_shape by blast
  show ?thesis
  proof (cases es)
    case Nil
    then show ?thesis by (simp add: e(2) path_of_def)
  next
    case (Cons f fs)
    then have "f \<noteq> []" using clean_elements_no_slash [OF e(1)] by auto
    then show ?thesis using Cons by (cases fs) (auto simp: e(2) path_of_def)
  qed
qed

section \<open>Properties\<close>

text \<open>
  A fixture is looked up below the nearest module. The search always ends; an absolute
  path and one that exists are taken as they are, cleaned; otherwise the path is joined to
  the first directory, from the working directory upwards, that holds a \<open>go.mod\<close>, and left
  alone when there is none. In each case the result is a clean path.
\<close>

theorem fixture_lookup:
  assumes "fs_getwd fs = Inr wd"
  shows "\<exists>r. resolveFixturePath fs path = Inr r \<and> Clean r = r \<and>
    r = (if IsAbs (Clean path) \<or> fs_exists fs (Clean path) then Clean path
         else (case find (\<lambda>d. fs_exists fs (Join [d, ''go.mod''])) (ancestors wd) of
                 Some d \<Rightarrow> Join [d, Clean path] | None \<Rightarrow> Clean path))"
proof -
  have j: "Join [d, Clean path] \<noteq> []" for d by (simp add: Join_def)
  show ?thesis
    using assms Clean_Join [OF j]
    by (auto simp: resolveFixturePath_def Let_def find_module_ancestors split: option.split)
qed

definition tree_fs :: fs_view where
  "tree_fs =
     \<lparr>fs_exists = (\<lambda>p. p = ''/r/go.mod''), fs_getwd = Inr ''/r/a/b'', fs_read = (\<lambda>p. Inl ''none'')\<rparr>"

theorem fixture_lookup_witness:
  "resolveFixturePath tree_fs ''testdata/../x.json'' = Inr ''/r/x.json''"
proof -
  have w: "fs_getwd tree_fs = Inr ''/r/a/b''" by (simp add: tree_fs_def)
  have d: "Dir ''/r/a/b'' = ''/r/a''" "Dir ''/r/a'' = ''/r''" "Dir ''/r'' = ''/''" "Dir ''/'' = ''/''"
    by code_simp+
  have t: "trim_space ''/r/a'' \<noteq> []" "trim_space ''/r'' \<noteq> []" "trim_space ''/'' \<noteq> []" by code_simp+
  have a: "ancestors ''/r/a/b'' = [''/r/a/b'', ''/r/a'', ''/r'', ''/'']"
    by (simp add: ancestors.simps [of "''/r/a/b''"] ancestors.simps [of "''/r/a''"]
        ancestors.simps [of "''/r''"] ancestors.simps [of "''/''"] d t)
  have c: "Clean ''testdata/../x.json'' = ''x.json''" "\<not> IsAbs ''x.json''"
    "Join [''/r/a/b'', ''go.mod''] = ''/r/a/b/go.mod''" "Join [''/r/a'', ''go.mod''] = ''/r/a/go.mod''"
    "Join [''/r'', ''go.mod''] = ''/r/go.mod''" "Join [''/r'', ''x.json''] = ''/r/x.json''"
    by code_simp+
  from fixture_lookup [OF w, of "''testdata/../x.json''"] show ?thesis
    unfolding a c by (simp add: tree_fs_def c)
qed

text \<open>
  What a fixture on disk holds: the file that its path is resolved to is read and decoded.
\<close>

definition fixture_holds ::
  "(string \<Rightarrow> string + log_record) \<Rightarrow> fs_view \<Rightarrow> string \<Rightarrow> log_record \<Rightarrow> bool" where
  "fixture_holds decode_json fs path r \<longleftrightarrow>
     (\<exists>file data. resolveFixturePath fs path = Inr file \<and> fs_read fs file = Inr data \<and>
        decode_json data = Inr r)"

lemma loadFixtureRecord_iff:
  "loadFixtureRecord decode_json fs path = Inr r \<longleftrightarrow> fixture_holds decode_json fs path r"
  by (auto simp: loadFixtureRecord_def fixture_holds_def split: sum.split)

lemma load_all_iff:
  "load_all decode_json fs ps = Inr rs \<longleftrightarrow> list_all2 (fixture_holds decode_json fs) ps rs"
proof (induction ps arbitrary: rs)
  case (Cons p ps)
  have "load_all decode_json fs (p # ps) = Inr rs \<longleftrightarrow>
      (\<exists>r rs'. rs = r # rs' \<and> loadFixtureRecord decode_json fs p = Inr r \<and>
        load_all decode_json fs ps = Inr rs')" by (auto split: sum.split)
  then show ?case by (simp only: Cons.IH loadFixtureRecord_iff list_all2_Cons1)
qed auto

lemma two_exist:
  assumes "\<And>rs. L rs \<longleftrightarrow> (\<exists>r1 r2. rs = [r1, r2] \<and> A r1 \<and> B r2)"
  shows "(\<exists>rs x. L rs \<and> Q rs x) \<longleftrightarrow> (\<exists>r1 r2 x. A r1 \<and> B r2 \<and> Q [r1, r2] x)"
  unfolding assms by blast

lemma BuildFixturePayload_iff:
  "BuildFixturePayload decode_json encode fs ps = Inr payload \<longleftrightarrow>
     (\<exists>rs. list_all2 (fixture_holds decode_json fs) ps rs \<and> encode (fixture_request rs) = Inr payload)"
  by (auto simp: BuildFixturePayload_def load_all_iff [symmetric] split: sum.split)

text \<open>
  A request as a decoder can give it back: no element of its lists is nil. Posting to a bridge
  whose consumer starts in \<open>st\<close>; its client sees the status of the reply.
\<close>

definition nil_free :: "log_record option export_request \<Rightarrow> bool" where
  "nil_free req \<longleftrightarrow>
     (\<forall>rg \<in> set (er_Resources req). None \<notin> set (rg_Attributes rg)) \<and>
     (\<forall>r \<in> set (request_records req). \<exists>lr. r = Some lr \<and> None \<notin> set (lr_Attributes lr))"

definition post_to ::
  "(string \<Rightarrow> log_record option export_request option) \<Rightarrow> (log_record option, 'e, 'st) consumer \<Rightarrow> 'st
     \<Rightarrow> string \<Rightarrow> http_request \<Rightarrow> string + nat" where
  "post_to decode consume st url req =
     Inr (rs_Status (fst (ServeHTTP_logs decode (Some consume) req st)))"

definition logs_url :: "(string \<Rightarrow> string) \<Rightarrow> string" where
  "logs_url env =
     (if env ''EVIDRA_BRIDGE_URL'' = [] then ''http://localhost:4318'' else env ''EVIDRA_BRIDGE_URL'')
       @ ''/v1/logs''"


text \<open>A codec that works for one request only, and a file system with the two fixtures.\<close>

definition two_records :: "log_record list" where
  "two_records = [gatewayLog [1] [2] ''restart'' ''alpha'' opA, gatewayLog [1] [3] ''restart'' ''alpha'' opB]"

definition one_codec :: "log_record option export_request \<Rightarrow> string + string" where
  "one_codec req = (if req = fixture_request two_records then Inr ''payload'' else Inl ''not known'')"

definition two_files :: fs_view where
  "two_files = \<lparr>fs_exists = (\<lambda>p. True), fs_getwd = Inl ''no'', fs_read = (\<lambda>p. Inr p)\<rparr>"

definition two_json :: "string \<Rightarrow> string + log_record" where
  "two_json s = (if s = ''testdata/agentgateway/log_record_minimal.json'' then Inr (two_records ! 0)
     else Inr (two_records ! 1))"

definition picky :: "(log_record option, string, log_record option list) consumer" where
  "picky rs st = (if rs = map Some two_records then None else Some ''other'', rs)"


end
