(* ===== verification/Spec2Isabelle.thy ===== *)
theory Spec2Isabelle
  imports Lifecycle CleanExit RecordFields Attribution Conservation FileRecords ExtMcp Replay
begin

text \<open>
  A model of the Evidra AgentGateway bridge and the theorems that make it correct.

  \<^bold>\<open>The program.\<close> The bridge receives OpenTelemetry logs and spans from an AgentGateway, over
  HTTP (\<open>internal/otlphttp\<close>) and gRPC (\<open>internal/otlpgrpc\<close>). Each message that is a tool call
  becomes a normalized record (\<open>internal/normalize\<close>, \<open>internal/observation\<close>). The processor
  (\<open>internal/bridge/processor.go\<close>) buffers records by the pair of trace id and span id, merges
  those that describe one execution, attaches the server side of a call to its client side, and
  writes each finished execution once to an append-only file (\<open>internal/sink/jsonl.go\<close>), when
  its merge wait has passed or at a flush. \<open>cmd/bridge\<close> is the process around it, with its
  configuration (\<open>internal/config\<close>) and its drain. Beside it stand a capture hook for a spike
  (\<open>internal/extmcp\<close>, \<open>cmd/extmcp-spike\<close>) and a tool that replays recorded messages
  (\<open>internal/replay\<close>, \<open>cmd/replay\<close>).

  \<^bold>\<open>The theories.\<close> Definitions keep the names of the Go functions and types, a \<open>type.method\<close>
  its method name; a field name is a record selector.

    \<^item> \<open>Prelude\<close>: Go strings as lists of bytes, the functions of \<open>strings\<close> and \<open>strconv\<close> that
      the program calls, and generic lemmas.
    \<^item> \<open>Observation\<close>: \<open>Execution\<close>, \<open>JoinKey\<close>, \<open>ValidOperationID\<close>, \<open>ClassifyOperation\<close>.
    \<^item> \<open>Otlp\<close>: the fields of the OTLP messages that the program reads. \<open>Samples\<close>: concrete
      messages for the witnesses.
    \<^item> \<open>Normalize\<close>: \<open>FromLogRecord\<close> and \<open>FromSpan\<close> with the attribute aliases.
    \<^item> \<open>Merge\<close>: \<open>merge\<close> and its helpers, with the lattice of what a record asserts.
    \<^item> \<open>Processor\<close>: the state of \<open>Processor\<close> and every operation. A region under \<open>p.mu\<close> is one
      definition; \<open>assemble\<close> and \<open>emit\<close> compose the regions for a call that nothing
      interrupts. \<open>ProcessorInv\<close> is the invariant of the buffers and its preservation by every
      region, \<open>Batch\<close> what a claimed batch holds.
    \<^item> \<open>Interleaving\<close>: receivers and assembler together, as a step relation whose steps are the
      regions; \<open>Bridge\<close>: what holds in every reachable state; \<open>Progress\<close>: an assembly ends;
      \<open>Flushing\<close>, \<open>Assembly\<close>, \<open>Expiry\<close>: what a call that is not interrupted does.
    \<^item> \<open>Goroutines\<close>: the calls as the goroutines that run them, each at a point of its method, with
      \<open>assembleMu\<close> taken and released; a schedule says who has a turn. It refines \<open>Interleaving\<close>,
      and a call that is not interrupted is the method of \<open>Processor\<close>. \<open>Concurrent\<close>: every call
      returns under a fair schedule, and what has been counted by then. \<open>Levels\<close>: a condition on
      the received spans under which a flush leaves nothing behind.
    \<^item> \<open>Provenance\<close>: the steps with a history the program does not keep, of the signals taken in
      and of those claimed under each key; what a written record is made from. \<open>Delivery\<close>: what
      a call hands over ends up in a written record once the buffers are empty; \<open>Drain\<close>: the last
      Flush after any interleaving; \<open>Conservation\<close>: a tally of the signals merged under each key,
      so that every received signal is in exactly one place. \<open>RecordFields\<close>: from which signal each
      field of a record comes; \<open>Attribution\<close>: the runs with the messages received, and the
      attribution of a record as a function of the attributes of the messages behind it.
    \<^item> \<open>Json\<close>, \<open>Paths\<close>, \<open>Sink\<close>: \<open>json.Marshal\<close> of a record, \<open>path/filepath\<close>, and the file sink.
    \<^item> \<open>JsonParse\<close>, \<open>JsonDecode\<close>: the grammar of JSON as a stack machine and \<open>json.Unmarshal\<close>
      into a record, with \<open>time.Parse\<close>; \<open>ReadAll\<close>: reading the file line by line.
      \<open>JsonStrings\<close>, \<open>JsonTimes\<close>, \<open>JsonRoundtrip\<close>, \<open>JsonReadBack\<close> show that literals, times,
      syntax trees and records survive being written and read; \<open>FileRecords\<close>: what a reader of
      the whole file gets.
    \<^item> \<open>Receiver\<close>: the two HTTP handlers and the two gRPC services; \<open>Routes\<close>: the mux, \<open>/healthz\<close>
      and \<open>/stats\<close>; \<open>Service\<close>: both servers around one processor, and requests as calls of it;
      \<open>Config\<close>: the environment, with \<open>time.ParseDuration\<close>; \<open>Lifecycle\<close>: \<open>run\<close> from its
      environment and requests to its exit code and log, and the drain; \<open>run_together\<close> with
      handlers and last flush as goroutines. \<open>CleanExit\<close>: what holds at every exit, and what the
      exit code 0 promises; \<open>run\<close> is \<open>run_together\<close> with a serial schedule (\<open>run_serial\<close>).
    \<^item> \<open>ExtMcp\<close>, \<open>Replay\<close>: the hook and the replay tool.

  \<^bold>\<open>Interfaces.\<close> \<open>Interleaving.sink_contract\<close> is what the processor needs of a sink (a write
  that reports success has recorded the record, one that reports a failure has not);
  \<open>Sink\<close> interprets it with the JSONL file. \<open>Receiver.counting_consumer\<close> is what a transport
  needs of a consumer; it is interpreted with the two consume operations of the processor.
  \<open>FileRecords.readable_sink\<close> extends the contract of a sink by a decoder of its lines; it is
  interpreted with the JSONL file and \<open>json.Unmarshal\<close>.

  \<^bold>\<open>What the lemma groups show.\<close> Safety: one record for one key under every
  interleaving (\<open>at_most_once\<close>), the counters and the buffers consistent
  (\<open>stats_account\<close>, \<open>buffers_apart\<close>), every record well formed
  (\<open>written_records_wf\<close>), no payload in it
  (\<open>normalize_reads_no_payload\<close>). Provenance: what a written record asserts is
  exactly what the signals under its keys assert (\<open>record_sums_up_its_signals\<close>),
  the fields that merging copies are those of one of them (\<open>fields_from_signals\<close>),
  its attribution is what the received attributes say
  (\<open>attribution_from_received_attributes\<close>), and no call that was taken in gets lost
  (\<open>no_call_lost\<close>, \<open>drain_nothing_lost\<close>) or counted twice
  (\<open>signals_conserved\<close>). Function: what merging asserts and that its order does not
  matter, the decision table of the status, the classification of operation ids, one call one
  record. Errors: an assembly, a write, and a reply are transactions. Liveness: what a flush
  leaves, that every concurrent call returns (\<open>every_call_returns\<close>), and that exit
  code 0 means that nothing was lost (\<open>together_exit_zero\<close>); whatever the exit code, the file is
  in order (\<open>every_exit_consistent\<close>). Refinement: the
  goroutines and their lock implement the interleaved system (\<open>goroutines_refine\<close>);
  the file is the log of the accepted records; \<open>merge\<close> is a least upper bound.
  Round trips: what is written is read back, record by record and file by file. This theory adds
  that the whole process does not depend on a payload (\<open>run_ignores_payload\<close>).

  \<^bold>\<open>Numbers and time.\<close> A \<open>time.Time\<close> is \<open>None\<close> for the zero time and otherwise its nanoseconds
  since 1970; they come from an unsigned 64-bit field and are converted to \<open>int64\<close> with the
  wrap of the code. Differences of times saturate and are cut to milliseconds as
  \<open>time.Duration\<close> does. Counters are natural numbers: they only count events of one process.
  Byte strings keep their bytes; JSON replaces malformed UTF-8 (\<open>to_utf8\<close>). JSON nests at most
  10000 levels and a line is shorter than 8 MiB, as the packages have it. No definition uses fuel; every recursion terminates.

  \<^bold>\<open>Parameters.\<close> What is not in the repository is an argument: the formatting and parsing of
  floating point numbers (\<open>float_lib\<close>), the \<open>%q\<close> verb of \<open>fmt\<close> (\<open>quote\<close>), the fraction of a
  duration (\<open>frac_ns\<close>), the protobuf and JSON codecs of OTLP, the answers of the operating
  system, and the time at which the phases of the drain end.

  \<^bold>\<open>Not modelled.\<close> A goroutine's turn is a whole region under
  \<open>p.mu\<close>: that this lock makes its regions atomic is not derived from smaller
  steps. That a drained server has no handler under way is what \<open>net/http\<close> and gRPC
  document (\<open>drained_servers\<close>). What goroutines still do between the close of the file and the
  end of the process. The text of log messages and error messages beyond
  what they say, and the log lines that the two listeners print on their own; the methods
  \<open>Serve\<close>, \<open>GracefulStop\<close> and \<open>Stop\<close> of the gRPC server,
  which only call the library; methods called on a nil receiver, which the program never does;
  the code that \<open>protoc\<close> generated in \<open>internal/extmcp/api\<close>, except
  the fields and getters that the hook reads; which of its errors \<open>encoding/json\<close>
  reports (a decoder error is one value).

  \<^bold>\<open>What modelling showed.\<close> \<open>Merge.merge_disagreements\<close>: the objections on the added record
  are dropped. \<open>Expiry.flush_leaves\<close>: a successful flush may leave records, and two client
  spans that name each other for ever (\<open>Expiry.cycle_state\<close>). \<open>Expiry.shared_parent_retry\<close>:
  of two client spans with one parent the one that is retried loses the parent's operation id.
  \<open>Sink.reopen_torn_file\<close>: a new process appends to a torn line. \<open>ReadAll.log_read_back\<close>: a line
  of 8 MiB, which \<open>Write\<close> accepts, makes the file unreadable.
\<close>

section \<open>No payload in the process\<close>

text \<open>
  Scrubbing what the process receives: of the attributes only presence is looked at, the values
  are replaced by a flag, and those that are not read at all become nil (\<open>Normalize.scrub\<close>).
\<close>

fun scrub_call :: "float_lib \<Rightarrow> call \<Rightarrow> call" where
  "scrub_call fl (CallLogs rng now rs) = CallLogs rng now (map (map_option (scrub_log fl)) rs)"
| "scrub_call fl (CallSpans rng now ss) = CallSpans rng now (map (map_option (scrub_span fl)) ss)"
| "scrub_call fl (CallFlush rng) = CallFlush rng"

lemma from_scrubbed:
  "FromLogRecord fl (map_option (scrub_log fl) r) = FromLogRecord fl r"
  "FromSpan fl (map_option (scrub_span fl) s) = FromSpan fl s"
  using normalize_scrub [of fl] by (cases r; simp add: FromLogRecord_def)
    (cases s; use normalize_scrub [of fl] in \<open>simp add: FromSpan_def\<close>)

lemma consume_scrubbed:
  "consume_logs fl now (map (map_option (scrub_log fl)) rs) p = consume_logs fl now rs p"
  "consume_spans fl now (map (map_option (scrub_span fl)) ss) p = consume_spans fl now ss p"
proof -
  show "consume_logs fl now (map (map_option (scrub_log fl)) rs) p = consume_logs fl now rs p"
    by (induction rs arbitrary: now p) (simp_all add: from_scrubbed)
  show "consume_spans fl now (map (map_option (scrub_span fl)) ss) p = consume_spans fl now ss p"
    by (induction ss arbitrary: now p) (simp_all add: from_scrubbed)
qed

lemma run_call_scrubbed: "run_call fl sink (scrub_call fl c) sp = run_call fl sink c sp"
  by (cases c) (simp_all add: ConsumeLogRecords_def ConsumeSpans_def consume_scrubbed)

lemma run_calls_scrubbed: "run_calls fl sink (map (scrub_call fl) cs) sp = run_calls fl sink cs sp"
  by (induction cs arbitrary: sp) (simp_all add: run_call_scrubbed)

text \<open>
  Scrubbing a request scrubs its records and drops the attributes of its resources; an HTTP
  request keeps its body, which is decoded to a scrubbed message.
\<close>

definition map_request :: "('r \<Rightarrow> 'r) \<Rightarrow> 'r export_request \<Rightarrow> 'r export_request" where
  "map_request f req =
     req\<lparr>er_Resources := map (\<lambda>rg. rg\<lparr>rg_Attributes := [],
           rg_Scopes := map (\<lambda>sg. sg\<lparr>sg_Records := map f (sg_Records sg)\<rparr>) (rg_Scopes rg)\<rparr>)
         (er_Resources req)\<rparr>"

definition scrub_codec :: "float_lib \<Rightarrow> otlp_codec \<Rightarrow> otlp_codec" where
  "scrub_codec fl codec =
     \<lparr>decode_logs = map_option (map_request (map_option (scrub_log fl))) \<circ> decode_logs codec,
      decode_traces = map_option (map_request (map_option (scrub_span fl))) \<circ> decode_traces codec\<rparr>"

definition scrub_arrival :: "float_lib \<Rightarrow> arrival \<Rightarrow> arrival" where
  "scrub_arrival fl ar = ar\<lparr>ar_request :=
     (case ar_request ar of
        HttpRequest req \<Rightarrow> HttpRequest req
      | LogsExport req \<Rightarrow> LogsExport (map_request (map_option (scrub_log fl)) req)
      | TracesExport req \<Rightarrow> TracesExport (map_request (map_option (scrub_span fl)) req))\<rparr>"

lemma map_request_records: "request_records (map_request f req) = map f (request_records req)"
proof -
  have "concat (map (\<lambda>sg. map f (sg_Records sg)) xs) = map f (concat (map sg_Records xs))"
    for xs :: "'a scope_group list"
    by (induction xs) simp_all
  then have "concat (map (\<lambda>rg. concat (map (\<lambda>sg. map f (sg_Records sg)) (rg_Scopes rg))) rgs) =
      map f (concat (map (\<lambda>rg. concat (map sg_Records (rg_Scopes rg))) rgs))"
    for rgs :: "'a resource_group list"
    by (induction rgs) simp_all
  then show ?thesis by (simp add: request_records_def map_request_def comp_def)
qed

lemma posted_scrubbed:
  "posted req (map_option (map_request f) \<circ> decode) = map_option (map f) (posted req decode)"
  by (cases "rq_Body (mr_Request req)"; cases "decode (the (rq_Body (mr_Request req)))")
    (simp_all add: posted_def map_request_records)

lemma arrival_call_scrubbed:
  "arrival_call (scrub_codec fl codec) (scrub_arrival fl ar) =
     map_option (scrub_call fl) (arrival_call codec ar)"
proof -
  have "handed_logs (scrub_codec fl codec) (ar_request (scrub_arrival fl ar)) =
      map_option (map (map_option (scrub_log fl))) (handed_logs codec (ar_request ar))"
    "handed_spans (scrub_codec fl codec) (ar_request (scrub_arrival fl ar)) =
      map_option (map (map_option (scrub_span fl))) (handed_spans codec (ar_request ar))"
    by (cases "ar_request ar"; simp add: scrub_arrival_def scrub_codec_def handed_logs_def
        handed_spans_def posted_scrubbed map_request_records)+
  moreover have "ar_order (scrub_arrival fl ar) = ar_order ar"
    "ar_clock (scrub_arrival fl ar) = ar_clock ar"
    by (simp_all add: scrub_arrival_def)
  ultimately show ?thesis
    by (cases "handed_logs codec (ar_request ar)"; cases "handed_spans codec (ar_request ar)")
      (simp_all add: arrival_call_def)
qed

lemma arrival_calls_scrubbed:
  "arrival_calls (scrub_codec fl codec) (map (scrub_arrival fl) ars) =
     map (scrub_call fl) (arrival_calls codec ars)"
  by (induction ars)
    (simp_all add: arrival_calls_def List.map_filter_simps arrival_call_scrubbed split: option.split)

text \<open>
  C15. The whole process is blind to payloads. A run of the bridge whose incoming messages have
  been scrubbed of resource attributes, tool arguments, results, HTTP statuses and every
  attribute the bridge does not read ends with the same exit code, the same standard output and
  log, the same buffers and counters and the same bytes in its file, over whichever transport
  the messages come and whatever the operating system does.
\<close>

theorem run_ignores_payload:
  "run fl frac_ns quote (env\<lparr>re_codec := scrub_codec fl (re_codec env),
       re_arrivals := map (scrub_arrival fl) (re_arrivals env)\<rparr>) args
     = run fl frac_ns quote env args"
proof -
  let ?env = "env\<lparr>re_codec := scrub_codec fl (re_codec env),
       re_arrivals := map (scrub_arrival fl) (re_arrivals env)\<rparr>"
  have "served fl frac_ns quote ?env = served fl frac_ns quote env"
    by (rule ext)
      (simp add: served_def serve_all_calls arrival_calls_scrubbed run_calls_scrubbed Let_def)
  then show ?thesis by (simp add: run_def run_hosted_def Let_def split: sum.split option.split)
qed

end
